(* ===== verification/Prelude.thy ===== *)
theory Prelude
  imports Complex_Main "HOL-Library.Word" "HOL-Library.AList"
begin

text \<open>
  Shared vocabulary of the development: machine integers and byte slices, Go's two
  ways to fail (a returned \<open>error\<close> value and a panic), the fact collections the
  component theories use, and generic facts about lists, sums and words.

  \<^item> \<open>byte\<close>, \<open>u32\<close>, \<open>u64\<close> are words, so that \<open>+\<close> wraps as in Go; byte slices are lists.
  \<^item> A Go function \<open>f(x) (y, error)\<close> is modelled as \<open>f :: 'x \<Rightarrow> error + 'y\<close>: \<open>Inl\<close> is
    the non-nil error. The text of a message is kept, the values interpolated into it
    are not.
  \<^item> A function that may panic (a \<open>logger.Panicf\<close>, an out-of-range slice) returns
    \<open>'a go\<close>.
\<close>

section \<open>Types\<close>

type_synonym byte = "8 word"
type_synonym bytes = "byte list"
type_synonym u32 = "32 word"
type_synonym u64 = "64 word"

text \<open>Errors: the sentinels that callers compare against, a fresh message
  (\<open>errors.New\<close>, \<open>fmt.Errorf\<close>), and \<open>errors.Wrap\<close>/\<open>WithMessage\<close>, which keep the cause.\<close>

datatype error =
    ErrEmptyMessage
  | ErrChannelDoesNotExist
  | ErrPermissionDenied
  | ErrMaintenanceMode
  | Errorf string
  | WithMessage error string

text \<open>\<open>errors.Cause\<close> of github.com/pkg/errors.\<close>

fun cause :: "error \<Rightarrow> error" where
  "cause (WithMessage e m) = cause e"
| "cause e = e"

datatype 'a go = Ret 'a | Panic string

fun bind_go :: "'a go \<Rightarrow> ('a \<Rightarrow> 'b go) \<Rightarrow> 'b go" where
  "bind_go (Ret x) f = f x"
| "bind_go (Panic m) f = Panic m"

fun bind_err :: "'e + 'a \<Rightarrow> ('a \<Rightarrow> 'e + 'b) \<Rightarrow> 'e + 'b" where
  "bind_err (Inl e) f = Inl e"
| "bind_err (Inr x) f = f x"

text \<open>\<open>if err != nil { return errors.WithMessage(err, m) }\<close>\<close>

fun wrap_err :: "string \<Rightarrow> error + 'a \<Rightarrow> error + 'a" where
  "wrap_err m (Inl e) = Inl (WithMessage e m)"
| "wrap_err m (Inr x) = Inr x"

fun map_err :: "('e \<Rightarrow> 'f) \<Rightarrow> 'e + 'a \<Rightarrow> 'f + 'a" where
  "map_err h (Inl e) = Inl (h e)"
| "map_err h (Inr x) = Inr x"

text \<open>A loop \<open>for _, x := range xs\<close> whose body returns early on an error.\<close>

fun for_each :: "('a \<Rightarrow> 's \<Rightarrow> 'e + 's) \<Rightarrow> 'a list \<Rightarrow> 's \<Rightarrow> 'e + 's" where
  "for_each f [] s = Inr s"
| "for_each f (x # xs) s = bind_err (f x s) (for_each f xs)"

text \<open>Both failures at once: a call that may panic or return an error.\<close>

fun bind_res :: "('e + 'a) go \<Rightarrow> ('a \<Rightarrow> ('e + 'b) go) \<Rightarrow> ('e + 'b) go" where
  "bind_res (Panic m) f = Panic m"
| "bind_res (Ret (Inl e)) f = Ret (Inl e)"
| "bind_res (Ret (Inr x)) f = f x"

text \<open>\<open>if err := g(); err != nil { return h(err) }\<close>, with or without a result to follow.\<close>

fun fail_if :: "error option go \<Rightarrow> (error \<Rightarrow> error) \<Rightarrow> (error + 'a) go \<Rightarrow> (error + 'a) go" where
  "fail_if (Panic m) h k = Panic m"
| "fail_if (Ret (Some e)) h k = Ret (Inl (h e))"
| "fail_if (Ret None) h k = k"

text \<open>A loop that builds one result per element and stops at the first error.\<close>

fun traverse :: "('a \<Rightarrow> 'e + 'b) \<Rightarrow> 'a list \<Rightarrow> 'e + 'b list" where
  "traverse f [] = Inr []"
| "traverse f (x # xs) = bind_err (f x) (\<lambda>y. bind_err (traverse f xs) (\<lambda>ys. Inr (y # ys)))"

lemma traverse_cong [fundef_cong]:
  "xs = ys \<Longrightarrow> (\<And>x. x \<in> set ys \<Longrightarrow> f x = g x) \<Longrightarrow> traverse f xs = traverse g ys"
proof (induction ys arbitrary: xs)
  case (Cons y ys)
  then have "f y = g y" and "traverse f ys = traverse g ys" by auto
  with Cons.prems(1) show ?case by simp
qed simp

section \<open>Fact collections\<close>

named_theorems result_simps \<open>case analysis on error results\<close>
named_theorems wire_simps \<open>round trips of the wire primitives\<close>
named_theorems inv_intros \<open>preservation of component invariants\<close>

section \<open>Results\<close>

lemma bind_go_Ret_iff [result_simps]:
  "bind_go m f = Ret y \<longleftrightarrow> (\<exists>x. m = Ret x \<and> f x = Ret y)"
  by (cases m) auto

lemma bind_err_Inr_iff [result_simps]:
  "bind_err m f = Inr y \<longleftrightarrow> (\<exists>x. m = Inr x \<and> f x = Inr y)"
  by (cases m) auto

lemma bind_err_Inl_iff [result_simps]:
  "bind_err m f = Inl e \<longleftrightarrow> m = Inl e \<or> (\<exists>x. m = Inr x \<and> f x = Inl e)"
  by (cases m) auto

lemma wrap_err_Inr_iff [simp]: "wrap_err m r = Inr x \<longleftrightarrow> r = Inr x"
  by (cases r) auto

lemma map_err_Inr_iff [simp]: "map_err h r = Inr x \<longleftrightarrow> r = Inr x"
  by (cases r) auto

lemma for_each_append:
  "for_each f (xs @ ys) s = bind_err (for_each f xs s) (for_each f ys)"
proof (induction xs arbitrary: s)
  case Nil
  then show ?case by simp
next
  case (Cons x xs)
  then show ?case by (cases "f x s") auto
qed

text \<open>The invariant rule for such loops.\<close>

lemma for_each_inv:
  assumes "for_each f xs s = Inr t" and "P s"
    and "\<And>x s t. x \<in> set xs \<Longrightarrow> P s \<Longrightarrow> f x s = Inr t \<Longrightarrow> P t"
  shows "P t"
  using assms
proof (induction xs arbitrary: s)
  case Nil
  then show ?case by simp
next
  case (Cons x xs)
  from Cons.prems(1) obtain s' where s': "f x s = Inr s'" "for_each f xs s' = Inr t"
    by (auto simp: result_simps)
  have "P s'" using Cons.prems(2,3) s'(1) by (meson list.set_intros(1))
  then show ?case
    using Cons.IH [OF s'(2)] Cons.prems(3) by (meson list.set_intros(2))
qed

lemma bind_res_iff [result_simps]:
  "bind_res m f = Ret (Inr y) \<longleftrightarrow> (\<exists>x. m = Ret (Inr x) \<and> f x = Ret (Inr y))"
  by (cases "(m, f)" rule: bind_res.cases) auto

lemma fail_if_iff [result_simps]:
  "fail_if m h k = Ret (Inr y) \<longleftrightarrow> m = Ret None \<and> k = Ret (Inr y)"
  by (cases "(m, h, k)" rule: fail_if.cases) auto

lemma traverse_Inr_iff:
  "traverse f xs = Inr ys \<longleftrightarrow> length ys = length xs \<and> (\<forall>i < length xs. f (xs ! i) = Inr (ys ! i))"
proof (induction xs arbitrary: ys)
  case Nil
  then show ?case by auto
next
  case (Cons x xs)
  show ?case
    by (cases ys) (auto simp: result_simps Cons nth_Cons split: nat.splits)
qed

lemma cause_idem [simp]: "cause (cause e) = cause e"
  by (induction e) auto

section \<open>Lists\<close>

lemma concat_snoc [simp]: "concat (xss @ [xs]) = concat xss @ xs"
  by simp

lemma last_two_split:
  "2 \<le> length xs \<Longrightarrow> \<exists>ys a b. xs = ys @ [a, b]"
proof -
  assume "2 \<le> length xs"
  then obtain ys zs where "xs = ys @ zs" and "length zs = 2"
    by (metis append_take_drop_id diff_diff_cancel length_drop)
  then show ?thesis
    by (metis (no_types, opaque_lifting) One_nat_def Suc_1 length_0_conv length_Suc_conv)
qed

lemma sum_list_map_le_mono:
  "(\<And>x. x \<in> set xs \<Longrightarrow> f x \<le> (g x :: nat)) \<Longrightarrow> sum_list (map f xs) \<le> sum_list (map g xs)"
  by (induction xs) (auto simp: add_mono)

section \<open>Words\<close>

lemma unat_add_no_wrap:
  "unat (a :: 'a::len word) + unat b < 2 ^ LENGTH('a) \<Longrightarrow> unat (a + b) = unat a + unat b"
  by (simp add: unat_word_ariths)

lemma unat_less_two_power: "unat (w :: 'a::len word) < 2 ^ LENGTH('a)"
  by simp

lemma unat_u64_bound: "unat (w :: u64) < 18446744073709551616"
  using unat_less_two_power [of w] by simp

lemma unat_byte_bound: "unat (b :: byte) < 256"
  using unat_less_two_power [of b] by simp

lemma unat_of_nat_u64: "n < 2 ^ 64 \<Longrightarrow> unat (of_nat n :: u64) = n"
  by (simp add: unat_of_nat take_bit_nat_eq_self)

lemma unat_of_nat_byte: "n < 256 \<Longrightarrow> unat (of_nat n :: byte) = n"
  by (simp add: unat_of_nat take_bit_nat_eq_self)

end
