(* ===== verification/Wire.thy ===== *)
theory Wire
  imports Prelude
begin

text \<open>
  The byte encodings the program builds on: the varint and length-delimited primitives of
  the vendored \<open>protowire\<close> package, the order-preserving integer encoding of
  \<^verbatim>\<open>common/ledger/util/util.go\<close> that every ledger key uses, the messages of the
  ordering path, and the interface \<open>envelope_codec\<close> through which the rest of the
  development uses \<open>proto.Marshal\<close> and \<open>proto.Unmarshal\<close>.
\<close>

section \<open>protowire\<close>

datatype parse_error = ErrTruncated | ErrOverflow

text \<open>
  \<open>protowire.AppendVarint\<close>: the ten unrolled cases of the source emit seven bits per
  byte, least significant group first, with the continuation bit on all but the last. The
  argument is the value of the \<open>uint64\<close>.
\<close>

fun AppendVarint :: "nat \<Rightarrow> bytes" where
  "AppendVarint v =
     (if v < 128 then [of_nat v] else of_nat (v mod 128 + 128) # AppendVarint (v div 128))"

declare AppendVarint.simps [simp del]

text \<open>
  \<open>protowire.ConsumeVarint\<close>: step \<open>i\<close> reads byte \<open>i\<close>, adds it shifted by \<open>7 * i\<close> and, if
  its continuation bit is set, removes that bit again; the tenth byte may only be 0 or 1.
  Result: the value and the number of bytes consumed.
\<close>

fun consume_varint_from :: "nat \<Rightarrow> nat \<Rightarrow> bytes \<Rightarrow> parse_error + nat \<times> nat" where
  "consume_varint_from i v [] = Inl ErrTruncated"
| "consume_varint_from i v (b # bs) =
     (let y = unat b; v' = v + y * 2 ^ (7 * i)
      in if 9 \<le> i then (if y < 2 then Inr (v', Suc i) else Inl ErrOverflow)
         else if y < 128 then Inr (v', Suc i)
         else consume_varint_from (Suc i) (v' - 128 * 2 ^ (7 * i)) bs)"

definition ConsumeVarint :: "bytes \<Rightarrow> parse_error + nat \<times> nat" where
  "ConsumeVarint b = consume_varint_from 0 0 b"

definition AppendBytes :: "bytes \<Rightarrow> bytes" where
  "AppendBytes v = AppendVarint (length v) @ v"

definition ConsumeBytes :: "bytes \<Rightarrow> parse_error + bytes \<times> nat" where
  "ConsumeBytes b =
     (case ConsumeVarint b of
        Inl e \<Rightarrow> Inl e
      | Inr (m, n) \<Rightarrow>
          if length (drop n b) < m then Inl ErrTruncated
          else Inr (take m (drop n b), n + m))"

section \<open>Order-preserving integers\<close>

text \<open>\<open>binary.BigEndian.PutUint64\<close> and \<open>Uint64\<close> of the standard library.\<close>

fun be_bytes :: "nat \<Rightarrow> nat \<Rightarrow> bytes" where
  "be_bytes 0 v = []"
| "be_bytes (Suc k) v = be_bytes k (v div 256) @ [of_nat (v mod 256)]"

definition be_val :: "bytes \<Rightarrow> nat" where
  "be_val bs = foldl (\<lambda>v b. 256 * v + unat b) 0 bs"

definition BigEndian_PutUint64 :: "u64 \<Rightarrow> bytes" where
  "BigEndian_PutUint64 v = be_bytes 8 (unat v)"

definition BigEndian_Uint64 :: "bytes \<Rightarrow> u64" where
  "BigEndian_Uint64 bs = of_nat (be_val bs)"

text \<open>
  \<open>EncodeOrderPreservingVarUint64\<close>: \<open>startingIndex\<close> and \<open>size\<close> are found by a scan for the
  first non-zero byte. When there is none, \<open>size\<close> stays 0, \<open>startingIndex\<close> stays 0 and the
  \<open>copy\<close> into a slice of length 0 copies nothing.
\<close>

fun first_nonzero :: "nat \<Rightarrow> bytes \<Rightarrow> (nat \<times> nat)" where
  "first_nonzero i [] = (0, 0)"
| "first_nonzero i (b # bs) = (if b \<noteq> 0 then (i, 8 - i) else first_nonzero (Suc i) bs)"

definition EncodeOrderPreservingVarUint64 :: "u64 \<Rightarrow> bytes go" where
  "EncodeOrderPreservingVarUint64 number =
     (let bytes = BigEndian_PutUint64 number;
          (startingIndex, sz) = first_nonzero 0 bytes;
          sizeBytes = AppendVarint sz
      in if 1 < length sizeBytes then Panic ''sizeBytes should not be more than one byte''
         else Ret (hd sizeBytes # take sz (drop startingIndex bytes)))"

text \<open>\<open>DecodeOrderPreservingVarUint64\<close>: a failed varint is read as \<open>(0, 0)\<close> first.\<close>

definition DecodeOrderPreservingVarUint64 :: "bytes \<Rightarrow> error + u64 \<times> nat" where
  "DecodeOrderPreservingVarUint64 bytes =
     (let (s, numBytes) = (case ConsumeVarint bytes of Inl _ \<Rightarrow> (0, 0) | Inr r \<Rightarrow> r)
      in if numBytes \<noteq> 1 then Inl (Errorf ''number of consumed bytes from DecodeVarint is invalid'')
         else if 8 < s then Inl (Errorf ''decoded size from DecodeVarint is invalid'')
         else if int (length bytes) - 1 < int s
           then Inl (Errorf ''decoded size is more than available bytes'')
         else Inr (BigEndian_Uint64 (replicate (8 - s) 0 @ take s (drop 1 bytes)), s + 1))"

section \<open>Messages of the ordering path\<close>

text \<open>
  The protobuf messages, one record per struct. \<open>Payload\<close> of an envelope and \<open>ChannelHeader\<close>
  of a payload header may be nil (\<open>None\<close>), which the code tests; everywhere else a nil slice
  behaves as an empty one.
\<close>

record envelope =
  Payload :: "bytes option"
  Signature :: bytes

definition slice :: "bytes option \<Rightarrow> bytes" where
  "slice s = (case s of None \<Rightarrow> [] | Some b \<Rightarrow> b)"

record channel_header =
  HdrType :: int
  ChannelId :: string
  TxId :: string

record signature_header =
  Creator :: bytes
  Nonce :: bytes

record payload_header =
  ChannelHeaderBytes :: "bytes option"
  SignatureHeaderBytes :: bytes

record payload =
  Header :: "payload_header option"
  Data :: bytes

text \<open>Header types of \<open>common.HeaderType\<close> that the code distinguishes.\<close>

abbreviation (input) "HeaderType_MESSAGE \<equiv> (0 :: int)"
abbreviation (input) "HeaderType_CONFIG \<equiv> (1 :: int)"
abbreviation (input) "HeaderType_CONFIG_UPDATE \<equiv> (2 :: int)"
abbreviation (input) "HeaderType_ENDORSER_TRANSACTION \<equiv> (3 :: int)"
abbreviation (input) "HeaderType_ORDERER_TRANSACTION \<equiv> (4 :: int)"

section \<open>The codec interface\<close>

text \<open>
  \<open>proto.Marshal\<close> and \<open>proto.Unmarshal\<close> on envelopes. A present but empty payload is not
  written to the wire, so it comes back as nil: the round trip holds for \<open>canonical\<close>
  envelopes. An envelope with both fields set starts with the length of each, so its
  encoding is never confused with the start of another one.
\<close>

definition canonical :: "envelope \<Rightarrow> bool" where
  "canonical e \<longleftrightarrow> Payload e \<noteq> Some [] \<and> length (slice (Payload e)) < 2 ^ 63 \<and>
     length (Signature e) < 2 ^ 63"

definition complete :: "envelope \<Rightarrow> bool" where
  "complete e \<longleftrightarrow> slice (Payload e) \<noteq> [] \<and> Signature e \<noteq> []"

locale envelope_codec =
  fixes marshal :: "envelope \<Rightarrow> bytes"
    and unmarshal :: "bytes \<Rightarrow> envelope option"
  assumes unmarshal_marshal: "canonical e \<Longrightarrow> unmarshal (marshal e) = Some e"
    and marshal_length: "length (slice (Payload e)) + length (Signature e) \<le> length (marshal e)"
    and marshal_self_delimiting:
      "canonical e \<Longrightarrow> canonical e' \<Longrightarrow> complete e \<Longrightarrow> complete e' \<Longrightarrow>
       marshal e @ xs = marshal e' @ ys \<Longrightarrow> e = e'"


section \<open>The wire primitives round-trip\<close>

lemma AppendVarint_not_Nil [simp]: "AppendVarint v \<noteq> []"
  by (subst AppendVarint.simps) simp

lemma length_AppendVarint_small: "v < 128 \<Longrightarrow> AppendVarint v = [of_nat v]"
  by (subst AppendVarint.simps) simp

lemma consume_varint_from_append:
  assumes "i \<le> 9" and "v * 2 ^ (7 * i) < 2 ^ 64"
  shows "consume_varint_from i acc (AppendVarint v @ rest)
         = Inr (acc + v * 2 ^ (7 * i), i + length (AppendVarint v))"
  using assms
proof (induction v arbitrary: i acc rule: AppendVarint.induct)
  case (1 v)
  show ?case
  proof (cases "v < 128")
    case True
    have "v < 2" if "9 \<le> i"
    proof -
      from that "1.prems"(1) have "i = 9" by simp
      with "1.prems"(2) show ?thesis by simp
    qed
    with True show ?thesis
      by (simp add: length_AppendVarint_small unat_of_nat_byte Let_def)
  next
    case False
    have i: "i < 9"
    proof (rule ccontr)
      assume "\<not> i < 9"
      with "1.prems"(1) have "i = 9" by simp
      with "1.prems"(2) False show False by simp
    qed
    have "v div 128 * 2 ^ (7 * Suc i) = (128 * (v div 128)) * 2 ^ (7 * i)"
      by (simp add: power_add)
    also have "\<dots> \<le> v * 2 ^ (7 * i)" by simp
    finally have bound: "v div 128 * 2 ^ (7 * Suc i) < 2 ^ 64"
      using "1.prems"(2) by linarith
    have byte: "unat (of_nat (v mod 128 + 128) :: byte) = v mod 128 + 128"
      by (rule unat_of_nat_byte) (simp add: pos_mod_bound)
    have sum: "(v mod 128) * 2 ^ (7 * i) + v div 128 * 2 ^ (7 * Suc i) = v * 2 ^ (7 * i)"
    proof -
      have "r * 2 ^ (7 * i) + q * 2 ^ (7 * Suc i) = (128 * q + r) * 2 ^ (7 * i)" for q r :: nat
        by (simp add: power_add algebra_simps)
      from this [of "v mod 128" "v div 128"] show ?thesis by simp
    qed
    have "consume_varint_from i acc (AppendVarint v @ rest)
        = consume_varint_from (Suc i) (acc + (v mod 128) * 2 ^ (7 * i))
            (AppendVarint (v div 128) @ rest)"
      using False i byte
      by (subst AppendVarint.simps) (simp add: Let_def add_mult_distrib)
    also have "\<dots> = Inr (acc + (v mod 128) * 2 ^ (7 * i) + v div 128 * 2 ^ (7 * Suc i),
        Suc i + length (AppendVarint (v div 128)))"
      using "1.IH" [OF False, of "Suc i"] i bound by simp
    also have "\<dots> = Inr (acc + v * 2 ^ (7 * i), i + length (AppendVarint v))"
      using sum False by (subst (2) AppendVarint.simps) (simp add: add.assoc)
    finally show ?thesis .
  qed
qed

lemma ConsumeVarint_Append [wire_simps]:
  "v < 2 ^ 64 \<Longrightarrow> ConsumeVarint (AppendVarint v @ rest) = Inr (v, length (AppendVarint v))"
  using consume_varint_from_append [of 0 v 0 rest] by (simp add: ConsumeVarint_def)

lemma ConsumeBytes_Append [wire_simps]:
  "length v < 2 ^ 64 \<Longrightarrow> ConsumeBytes (AppendBytes v @ rest) = Inr (v, length (AppendBytes v))"
  by (simp add: ConsumeBytes_def AppendBytes_def wire_simps)

lemma AppendVarint_prefix:
  assumes "AppendVarint v @ xs = AppendVarint w @ ys" and "v < 2 ^ 64" and "w < 2 ^ 64"
  shows "v = w \<and> xs = ys"
  using assms ConsumeVarint_Append [of v xs] ConsumeVarint_Append [of w ys] by auto

lemma AppendBytes_prefix:
  assumes "AppendBytes v @ xs = AppendBytes w @ ys" and "length v < 2 ^ 64" and "length w < 2 ^ 64"
  shows "v = w \<and> xs = ys"
  using assms ConsumeBytes_Append [of v xs] ConsumeBytes_Append [of w ys] by auto

text \<open>Reading never runs past the end of the buffer.\<close>

lemma consume_varint_from_bound:
  "consume_varint_from i v bs = Inr (r, n) \<Longrightarrow> i < n \<and> n \<le> i + length bs"
proof (induction bs arbitrary: i v)
  case Nil
  then show ?case by simp
next
  case (Cons b bs)
  then show ?case
    by (fastforce simp: Let_def split: if_splits)
qed

lemma ConsumeVarint_bound: "ConsumeVarint bs = Inr (v, n) \<Longrightarrow> 0 < n \<and> n \<le> length bs"
  using consume_varint_from_bound [of 0 0 bs v n] by (simp add: ConsumeVarint_def)

lemma ConsumeBytes_bound: "ConsumeBytes bs = Inr (v, n) \<Longrightarrow> 0 < n \<and> n \<le> length bs"
  by (auto simp: ConsumeBytes_def split: sum.splits prod.splits if_splits dest!: ConsumeVarint_bound)


section \<open>Big-endian values and byte order\<close>

lemma be_val_foldl: "foldl (\<lambda>v b. 256 * v + unat b) a bs = a * 256 ^ length bs + be_val bs"
proof (induction bs arbitrary: a)
  case Nil
  then show ?case by (simp add: be_val_def)
next
  case (Cons b bs)
  have "be_val (b # bs) = foldl (\<lambda>v b. 256 * v + unat b) (unat b) bs"
    by (simp add: be_val_def)
  then show ?case
    using Cons [of "256 * a + unat b"] Cons [of "unat b"] by (simp add: algebra_simps)
qed

lemma be_val_Nil [simp]: "be_val [] = 0"
  by (simp add: be_val_def)

lemma be_val_Cons [simp]: "be_val (b # bs) = unat b * 256 ^ length bs + be_val bs"
  using be_val_foldl [of "unat b" bs] by (simp add: be_val_def)

lemma be_val_append [simp]: "be_val (xs @ ys) = be_val xs * 256 ^ length ys + be_val ys"
  by (induction xs) (simp_all add: algebra_simps power_add)

lemma be_val_bound: "be_val bs < 256 ^ length bs"
proof (induction bs)
  case Nil
  then show ?case by simp
next
  case (Cons b bs)
  have "unat b + 1 \<le> 256" using unat_byte_bound [of b] by simp
  then have "(unat b + 1) * 256 ^ length bs \<le> 256 * 256 ^ length bs"
    by (rule mult_le_mono1)
  then have "unat b * 256 ^ length bs + 256 ^ length bs \<le> 256 ^ length (b # bs)"
    by (simp only: add_mult_distrib mult_1 length_Cons power_Suc)
  with Cons show ?case unfolding be_val_Cons by linarith
qed

lemma be_val_replicate_0 [simp]: "be_val (replicate n 0) = 0"
  by (induction n) simp_all

lemma length_be_bytes [simp]: "length (be_bytes k v) = k"
  by (induction k arbitrary: v) simp_all

lemma be_val_be_bytes: "be_val (be_bytes k v) = v mod 256 ^ k"
proof (induction k arbitrary: v)
  case 0
  then show ?case by simp
next
  case (Suc k)
  have "be_val (be_bytes (Suc k) v) = (v div 256 mod 256 ^ k) * 256 + v mod 256"
    by (simp add: Suc unat_of_nat_byte)
  also have "\<dots> = v mod (256 * 256 ^ k)"
    by (simp add: mod_mult2_eq)
  finally show ?case by simp
qed

text \<open>\<open>bytes.Compare\<close> negative: the order of keys in the databases.\<close>

abbreviation bytes_less :: "bytes \<Rightarrow> bytes \<Rightarrow> bool" where
  "bytes_less \<equiv> ord_class.lexordp"

text \<open>On slices of equal length, byte-wise comparison is comparison of the values.\<close>

lemma lexordp_be_val:
  "length xs = length ys \<Longrightarrow> bytes_less xs ys \<longleftrightarrow> be_val xs < be_val ys"
proof (induction xs ys rule: list_induct2)
  case Nil
  then show ?case by simp
next
  case (Cons x xs y ys)
  have less: "unat a * 256 ^ length xs + be_val xs < unat b * 256 ^ length ys + be_val ys"
    if "unat a < unat b" and "length xs = length ys" for a b :: byte and xs ys :: bytes
  proof -
    from that(1) have "(unat a + 1) * 256 ^ length xs \<le> unat b * 256 ^ length xs"
      by (intro mult_le_mono1) simp
    with be_val_bound [of xs] that(2) show ?thesis by (simp add: algebra_simps)
  qed
  consider "unat x < unat y" | "unat y < unat x" | "x = y"
    by (metis nat_neq_iff unsigned_word_eqI)
  then show ?case
  proof cases
    case 1
    then show ?thesis using less [of x y xs ys] Cons.hyps by (simp add: word_less_nat_alt)
  next
    case 2
    then show ?thesis
      using less [of y x ys xs] Cons.hyps by (simp add: word_less_nat_alt)
  next
    case 3
    then show ?thesis using Cons by simp
  qed
qed

section \<open>The order-preserving encoding\<close>

text \<open>The scan finds the significant bytes: same value, and a non-zero first byte.\<close>

lemma first_nonzero_spec:
  assumes "first_nonzero i bs = (st, sz)" and "i + length bs = 8"
  shows "(sz = 0 \<and> be_val bs = 0) \<or>
         (i \<le> st \<and> st < 8 \<and> sz = 8 - st \<and> be_val (drop (st - i) bs) = be_val bs \<and>
          hd (drop (st - i) bs) \<noteq> 0)"
  using assms
proof (induction i bs rule: first_nonzero.induct)
  case (1 i)
  then show ?case by simp
next
  case (2 i b bs)
  show ?case
  proof (cases "b = 0")
    case True
    with "2.prems" have "first_nonzero (Suc i) bs = (st, sz)" "Suc i + length bs = 8"
      by auto
    from "2.IH" [OF _ this] True show ?thesis
      by (auto simp: Suc_diff_le drop_Cons' simp flip: diff_Suc_eq_diff_pred)
  next
    case False
    with "2.prems" show ?thesis by auto
  qed
qed

definition significant :: "u64 \<Rightarrow> bytes" where
  "significant n =
     (let bytes = BigEndian_PutUint64 n; (st, sz) = first_nonzero 0 bytes
      in take sz (drop st bytes))"

lemma significant_spec:
  "length (significant n) \<le> 8 \<and> be_val (significant n) = unat n \<and>
   (significant n \<noteq> [] \<longrightarrow> hd (significant n) \<noteq> 0)"
proof -
  obtain st sz where f: "first_nonzero 0 (BigEndian_PutUint64 n) = (st, sz)"
    by fastforce
  have len: "length (BigEndian_PutUint64 n) = 8"
    by (simp add: BigEndian_PutUint64_def)
  have val: "be_val (BigEndian_PutUint64 n) = unat n"
    using unat_u64_bound [of n] by (simp add: BigEndian_PutUint64_def be_val_be_bytes)
  from first_nonzero_spec [OF f] len val f show ?thesis
    by (auto simp: significant_def)
qed

lemma Encode_eq:
  "EncodeOrderPreservingVarUint64 n = Ret (of_nat (length (significant n)) # significant n)"
proof -
  obtain st sz where f: "first_nonzero 0 (BigEndian_PutUint64 n) = (st, sz)"
    by fastforce
  have len: "length (BigEndian_PutUint64 n) = 8"
    by (simp add: BigEndian_PutUint64_def)
  from first_nonzero_spec [OF f] len have sz: "sz \<le> 8" "length (significant n) = sz"
    using f by (auto simp: significant_def)
  then show ?thesis
    using f by (simp add: EncodeOrderPreservingVarUint64_def significant_def
      length_AppendVarint_small)
qed

lemma significant_length_less:
  assumes "length (significant a) < length (significant b)"
  shows "unat a < unat b"
proof -
  from assms have ne: "significant b \<noteq> []" by auto
  then obtain x xs where b: "significant b = x # xs" by (cases "significant b") auto
  have "1 \<le> unat x"
    using significant_spec [of b] b by (simp add: Suc_le_eq unat_gt_0)
  then have "1 * 256 ^ length xs \<le> unat x * 256 ^ length xs"
    by (rule mult_le_mono1)
  moreover have "unat b = unat x * 256 ^ length xs + be_val xs"
    using significant_spec [of b] b by simp
  ultimately have "256 ^ length xs \<le> unat b" by linarith
  moreover have "unat a < 256 ^ length (significant a)"
    using significant_spec [of a] be_val_bound [of "significant a"] by simp
  moreover have "(256::nat) ^ length (significant a) \<le> 256 ^ length xs"
    using assms b by (intro power_increasing) auto
  ultimately show ?thesis by linarith
qed

lemma Encode_less_iff:
  "bytes_less (of_nat (length (significant a)) # significant a)
           ((of_nat (length (significant b)) :: byte) # significant b) \<longleftrightarrow> a < b"
proof -
  have small: "length (significant a) < 256" "length (significant b) < 256"
    using significant_spec [of a] significant_spec [of b] by auto
  consider "length (significant a) < length (significant b)"
    | "length (significant b) < length (significant a)"
    | "length (significant a) = length (significant b)" by linarith
  then show ?thesis
  proof cases
    case 1
    with significant_length_less [OF 1] small show ?thesis
      by (simp add: word_less_nat_alt unat_of_nat_byte)
  next
    case 2
    with significant_length_less [OF 2] small show ?thesis
      by (auto simp: word_less_nat_alt unat_of_nat_byte)
  next
    case 3
    then show ?thesis
      using lexordp_be_val [OF 3] significant_spec [of a] significant_spec [of b]
      by (simp add: word_less_nat_alt)
  qed
qed

lemma Decode_Encode:
  assumes "EncodeOrderPreservingVarUint64 n = Ret bs"
  shows "DecodeOrderPreservingVarUint64 (bs @ rest) = Inr (n, length bs)"
proof -
  let ?s = "length (significant n)"
  have s: "?s \<le> 8" using significant_spec [of n] by simp
  from assms have bs: "bs = AppendVarint ?s @ significant n"
    using s by (simp add: Encode_eq length_AppendVarint_small)
  have one: "length (AppendVarint ?s) = 1"
    using s by (simp add: length_AppendVarint_small)
  have "ConsumeVarint (bs @ rest) = Inr (?s, 1)"
    using ConsumeVarint_Append [of ?s "significant n @ rest"] s one by (simp add: bs)
  moreover have "BigEndian_Uint64 (replicate (8 - ?s) 0 @ significant n) = n"
    using significant_spec [of n] by (simp add: BigEndian_Uint64_def)
  moreover have "take ?s (drop 1 (bs @ rest)) = significant n"
    using one by (simp add: bs)
  ultimately show ?thesis
    using s one by (simp add: DecodeOrderPreservingVarUint64_def bs)
qed


section \<open>A codec: the wire format of an envelope\<close>

text \<open>
  The encoding the protobuf specification gives for \<open>message Envelope { bytes payload = 1;
  bytes signature = 2; }\<close>: fields in order of their numbers, empty ones omitted, each as its
  tag (10, 18) and a length-delimited value. It shows that the interface is satisfiable and
  lets closed examples be computed.
\<close>

definition pb_marshal :: "envelope \<Rightarrow> bytes" where
  "pb_marshal e =
     (if slice (Payload e) = [] then [] else 10 # AppendBytes (slice (Payload e))) @
     (if Signature e = [] then [] else 18 # AppendBytes (Signature e))"

function pb_fields :: "bytes \<Rightarrow> envelope \<Rightarrow> envelope option" where
  "pb_fields bs e =
     (case bs of
        [] \<Rightarrow> Some e
      | t # rest \<Rightarrow>
          (case ConsumeBytes rest of
             Inl _ \<Rightarrow> None
           | Inr (v, n) \<Rightarrow>
               if t = 10 then pb_fields (drop n rest) (e\<lparr>Payload := Some v\<rparr>)
               else if t = 18 then pb_fields (drop n rest) (e\<lparr>Signature := v\<rparr>)
               else None))"
  by pat_completeness auto
termination
  by (relation "measure (length \<circ> fst)") auto

declare pb_fields.simps [simp del]

definition pb_unmarshal :: "bytes \<Rightarrow> envelope option" where
  "pb_unmarshal bs = pb_fields bs \<lparr>Payload = None, Signature = []\<rparr>"

lemma pb_fields_payload:
  "length v < 2 ^ 63 \<Longrightarrow>
   pb_fields (10 # AppendBytes v @ rest) e = pb_fields rest (e\<lparr>Payload := Some v\<rparr>)"
  by (subst pb_fields.simps) (simp add: wire_simps)

lemma pb_fields_signature:
  "length v < 2 ^ 63 \<Longrightarrow>
   pb_fields (18 # AppendBytes v @ rest) e = pb_fields rest (e\<lparr>Signature := v\<rparr>)"
  by (subst pb_fields.simps) (simp add: wire_simps)

lemma pb_fields_Nil: "pb_fields [] e = Some e"
  by (subst pb_fields.simps) simp

lemma pb_roundtrip: "canonical e \<Longrightarrow> pb_unmarshal (pb_marshal e) = Some e"
  using pb_fields_payload [where rest = "[]"] pb_fields_signature [where rest = "[]"]
  by (cases e) (auto simp: canonical_def slice_def pb_unmarshal_def pb_marshal_def pb_fields_payload
      pb_fields_signature pb_fields_Nil split: option.splits)

lemma pb_self_delimiting:
  assumes "canonical e" "canonical e'" "complete e" "complete e'"
    and eq: "pb_marshal e @ xs = pb_marshal e' @ ys"
  shows "e = e'"
proof -
  note defs = canonical_def complete_def pb_marshal_def
  have "AppendBytes (slice (Payload e)) @ (18 # AppendBytes (Signature e) @ xs)
      = AppendBytes (slice (Payload e')) @ (18 # AppendBytes (Signature e') @ ys)"
    using assms by (simp add: defs)
  from AppendBytes_prefix [OF this] assms(1,2)
  have p: "slice (Payload e) = slice (Payload e')"
    and s: "AppendBytes (Signature e) @ xs = AppendBytes (Signature e') @ ys"
    by (auto simp: defs)
  from AppendBytes_prefix [OF s] assms(1,2) have "Signature e = Signature e'"
    by (auto simp: defs)
  moreover from p assms(3,4) have "Payload e = Payload e'"
    by (auto simp: complete_def slice_def split: option.splits)
  ultimately show ?thesis by simp
qed

interpretation pb: envelope_codec pb_marshal pb_unmarshal
proof unfold_locales
  fix e show "length (slice (Payload e)) + length (Signature e) \<le> length (pb_marshal e)"
    by (auto simp: pb_marshal_def AppendBytes_def)
qed (auto intro: pb_roundtrip pb_self_delimiting)

section \<open>Properties\<close>

text \<open>C38: the order-preserving encoding never panics, and the byte-wise (lexicographic) order of
  two encodings is the numerical order of the encoded numbers, so that a range scan over the
  keys of a key-value store visits block numbers in order.\<close>

theorem encoding_preserves_order:
  "\<exists>ea eb. EncodeOrderPreservingVarUint64 a = Ret ea \<and> EncodeOrderPreservingVarUint64 b = Ret eb \<and>
     (bytes_less ea eb \<longleftrightarrow> a < b)"
  using Encode_eq [of a] Encode_eq [of b] Encode_less_iff [of a b] by auto

text \<open>C39: decoding an encoded number, with any bytes after it, gives the number back together with
  the length of its encoding.\<close>

theorem encoding_round_trip:
  "\<exists>bs. EncodeOrderPreservingVarUint64 n = Ret bs \<and>
     DecodeOrderPreservingVarUint64 (bs @ rest) = Inr (n, length bs)"
  using Encode_eq [of n] Decode_Encode [of n] by blast

end
