(* ===== verification/Block_Cutter.thy ===== *)
theory Block_Cutter
  imports Wire
begin

text \<open>
  The block cutter, \<^verbatim>\<open>orderer/common/blockcutter/blockcutter.go\<close>: groups ordered
  messages into batches. The interface \<open>Receiver\<close> that the consensus chains program against
  is the locale \<open>batch_receiver\<close>; \<open>receiver\<close> with \<open>Ordered\<close> and \<open>Cut\<close> implements it.

  Time is read through \<open>clk\<close>: \<open>clk i\<close> is the \<open>i\<close>-th reading of the clock in the call. The
  histogram \<open>BlockFillDuration\<close> is the list of its observations.
\<close>

section \<open>State and operations\<close>

text \<open>\<open>BatchSize\<close> of the orderer's channel configuration.\<close>

record batch_size =
  MaxMessageCount :: u32
  AbsoluteMaxBytes :: u32
  PreferredMaxBytes :: u32

record receiver =
  pendingBatch :: "envelope list"
  pendingBatchSizeBytes :: u32
  PendingBatchStartTime :: int
  BlockFillDuration :: "int list"

text \<open>\<open>NewReceiverImpl\<close>; the zero \<open>time.Time\<close> is 0 and a nil batch is the empty one (the code
  never keeps an empty batch that is not nil).\<close>

definition NewReceiverImpl :: receiver where
  "NewReceiverImpl = \<lparr>pendingBatch = [], pendingBatchSizeBytes = 0, PendingBatchStartTime = 0,
     BlockFillDuration = []\<rparr>"

definition messageSizeBytes :: "envelope \<Rightarrow> u32" where
  "messageSizeBytes m = of_nat (length (slice (Payload m)) + length (Signature m))"

definition Cut :: "int \<Rightarrow> receiver \<Rightarrow> envelope list \<times> receiver" where
  "Cut now r =
     (let r = (if pendingBatch r \<noteq> []
               then r\<lparr>BlockFillDuration := BlockFillDuration r @ [now - PendingBatchStartTime r]\<rparr>
               else r);
          r = r\<lparr>PendingBatchStartTime := 0\<rparr>;
          batch = pendingBatch r
      in (batch, r\<lparr>pendingBatch := [], pendingBatchSizeBytes := 0\<rparr>))"

text \<open>The result of \<open>Ordered\<close>: the batches, the \<open>pending\<close> flag and the new state.\<close>

definition Ordered ::
    "(nat \<Rightarrow> int) \<Rightarrow> batch_size option \<Rightarrow> envelope \<Rightarrow> receiver
      \<Rightarrow> (envelope list list \<times> bool \<times> receiver) go" where
  "Ordered clk cfg msg r0 =
     (let r = (if pendingBatch r0 = [] then r0\<lparr>PendingBatchStartTime := clk 0\<rparr> else r0)
      in case cfg of
           None \<Rightarrow> Panic ''Could not retrieve orderer config to query batch parameters''
         | Some batchSize \<Rightarrow>
             (let sz = messageSizeBytes msg
              in if PreferredMaxBytes batchSize < sz then
                   (let (mb, r) = (if pendingBatch r \<noteq> []
                                   then (let (b, r') = Cut (clk 1) r in ([b], r')) else ([], r))
                    in Ret (mb @ [[msg]], False,
                            r\<lparr>BlockFillDuration := BlockFillDuration r @ [0]\<rparr>))
                 else
                   (let overflow = PreferredMaxBytes batchSize < pendingBatchSizeBytes r + sz;
                        (mb, r) = (if overflow
                                   then (let (b, r') = Cut (clk 1) r
                                         in ([b], r'\<lparr>PendingBatchStartTime := clk 2\<rparr>))
                                   else ([], r));
                        r = r\<lparr>pendingBatch := pendingBatch r @ [msg],
                              pendingBatchSizeBytes := pendingBatchSizeBytes r + sz\<rparr>
                    in if MaxMessageCount batchSize \<le> of_nat (length (pendingBatch r))
                       then (let (b, r) = Cut (clk 3) r in Ret (mb @ [b], False, r))
                       else Ret (mb, True, r))))"

section \<open>The receiver's contract\<close>

text \<open>
  What a consensus chain relies on: \<open>pend\<close> is the queue of messages handed in and not yet
  cut; \<open>ordered\<close> appends one message and removes whole batches from the front; the flag
  says whether something is left; no batch is empty.
\<close>

locale batch_receiver =
  fixes init :: 'r
    and ordered :: "'c \<Rightarrow> 'm \<Rightarrow> 'r \<Rightarrow> ('m list list \<times> bool \<times> 'r) go"
    and cut :: "'t \<Rightarrow> 'r \<Rightarrow> 'm list \<times> 'r"
    and pend :: "'r \<Rightarrow> 'm list"
    and wf :: "'r \<Rightarrow> bool"
  assumes pend_init: "pend init = []"
    and wf_init: "wf init"
    and ordered_queue:
      "wf r \<Longrightarrow> ordered c m r = Ret (bs, p, r') \<Longrightarrow> concat bs @ pend r' = pend r @ [m]"
    and ordered_pending: "wf r \<Longrightarrow> ordered c m r = Ret (bs, p, r') \<Longrightarrow> p \<longleftrightarrow> pend r' \<noteq> []"
    and ordered_nonempty: "wf r \<Longrightarrow> ordered c m r = Ret (bs, p, r') \<Longrightarrow> [] \<notin> set bs"
    and ordered_wf: "wf r \<Longrightarrow> ordered c m r = Ret (bs, p, r') \<Longrightarrow> wf r'"
    and cut_queue: "cut t r = (b, r') \<Longrightarrow> b = pend r \<and> pend r' = []"
    and cut_wf: "wf r \<Longrightarrow> cut t r = (b, r') \<Longrightarrow> wf r'"
begin

text \<open>Any number of messages: nothing is lost, duplicated or reordered.\<close>

fun ordered_all :: "('c \<times> 'm) list \<Rightarrow> 'r \<Rightarrow> ('m list list \<times> 'r) go" where
  "ordered_all [] r = Ret ([], r)"
| "ordered_all ((c, m) # cms) r =
     bind_go (ordered c m r) (\<lambda>(bs, p, r').
       bind_go (ordered_all cms r') (\<lambda>(bss, r''). Ret (bs @ bss, r'')))"

lemma ordered_all_queue:
  "wf r \<Longrightarrow> ordered_all cms r = Ret (bss, r') \<Longrightarrow>
   concat bss @ pend r' = pend r @ map snd cms \<and> [] \<notin> set bss \<and> wf r'"
proof (induction cms arbitrary: r bss)
  case Nil
  then show ?case by simp
next
  case (Cons cm cms)
  obtain c m where cm: "cm = (c, m)" by fastforce
  from Cons.prems(2) obtain bs p r1 bss' where
      o: "ordered c m r = Ret (bs, p, r1)" and rest: "ordered_all cms r1 = Ret (bss', r')"
      and bss: "bss = bs @ bss'"
    by (auto simp: cm result_simps)
  note wf = Cons.prems(1)
  have q: "concat bs @ pend r1 = pend r @ [m]" by (rule ordered_queue [OF wf o])
  have IH: "concat bss' @ pend r' = pend r1 @ map snd cms" "[] \<notin> set bss'" "wf r'"
    using Cons.IH [OF ordered_wf [OF wf o] rest] by auto
  have "concat bss @ pend r' = (concat bs @ pend r1) @ map snd cms"
    using IH(1) by (simp add: bss)
  also have "\<dots> = pend r @ map snd (cm # cms)" by (simp add: q cm)
  finally show ?case
    using IH(2,3) ordered_nonempty [OF wf o] by (simp add: bss)
qed

end


section \<open>The implementation satisfies the contract\<close>

definition batch_sum :: "envelope list \<Rightarrow> u32" where
  "batch_sum b = sum_list (map messageSizeBytes b)"

lemma batch_sum_simps [simp]:
  "batch_sum [] = 0" "batch_sum [m] = messageSizeBytes m" "batch_sum (b @ [m]) = batch_sum b + messageSizeBytes m"
  by (simp_all add: batch_sum_def)

text \<open>The size field counts the pending messages (modulo \<open>2 ^ 32\<close>).\<close>

definition receiver_wf :: "receiver \<Rightarrow> bool" where
  "receiver_wf r \<longleftrightarrow> pendingBatchSizeBytes r = batch_sum (pendingBatch r)"

lemma Cut_facts:
  assumes "Cut now r = (b, r')"
  shows "b = pendingBatch r" "pendingBatch r' = []" "pendingBatchSizeBytes r' = 0"
    "receiver_wf r'"
  using assms by (auto simp: Cut_def Let_def receiver_wf_def split: if_splits)

text \<open>The four ways a call can end.\<close>

lemma Ordered_cases:
  assumes "Ordered clk cfg m r = Ret (bs, p, r')" and "receiver_wf r"
  obtains
    (isolated) bz where "cfg = Some bz" "PreferredMaxBytes bz < messageSizeBytes m"
      "bs = (if pendingBatch r = [] then [[m]] else [pendingBatch r, [m]])" "\<not> p"
      "pendingBatch r' = []" "pendingBatchSizeBytes r' = 0"
  | (overflow) bz where "cfg = Some bz" "messageSizeBytes m \<le> PreferredMaxBytes bz"
      "PreferredMaxBytes bz < pendingBatchSizeBytes r + messageSizeBytes m"
      "pendingBatch r \<noteq> []"
      "\<not> MaxMessageCount bz \<le> 1"
      "bs = [pendingBatch r]" p "pendingBatch r' = [m]" "pendingBatchSizeBytes r' = messageSizeBytes m"
  | (overflow_full) bz where "cfg = Some bz" "messageSizeBytes m \<le> PreferredMaxBytes bz"
      "PreferredMaxBytes bz < pendingBatchSizeBytes r + messageSizeBytes m"
      "pendingBatch r \<noteq> []"
      "MaxMessageCount bz \<le> 1"
      "bs = [pendingBatch r, [m]]" "\<not> p" "pendingBatch r' = []" "pendingBatchSizeBytes r' = 0"
  | (full) bz where "cfg = Some bz" "messageSizeBytes m \<le> PreferredMaxBytes bz"
      "pendingBatchSizeBytes r + messageSizeBytes m \<le> PreferredMaxBytes bz"
      "MaxMessageCount bz \<le> of_nat (Suc (length (pendingBatch r)))"
      "bs = [pendingBatch r @ [m]]" "\<not> p" "pendingBatch r' = []" "pendingBatchSizeBytes r' = 0"
  | (enqueued) bz where "cfg = Some bz" "messageSizeBytes m \<le> PreferredMaxBytes bz"
      "pendingBatchSizeBytes r + messageSizeBytes m \<le> PreferredMaxBytes bz"
      "\<not> MaxMessageCount bz \<le> of_nat (Suc (length (pendingBatch r)))"
      "bs = []" p "pendingBatch r' = pendingBatch r @ [m]"
      "pendingBatchSizeBytes r' = pendingBatchSizeBytes r + messageSizeBytes m"
proof -
  from assms(1) obtain bz where bz: "cfg = Some bz"
    by (auto simp: Ordered_def Let_def split: option.splits)
  have ne: "pendingBatch r \<noteq> []"
    if "PreferredMaxBytes bz < pendingBatchSizeBytes r + messageSizeBytes m"
      "messageSizeBytes m \<le> PreferredMaxBytes bz"
    using that assms(2) by (auto simp: receiver_wf_def)
  let ?I = "PreferredMaxBytes bz < messageSizeBytes m"
  let ?O = "PreferredMaxBytes bz < pendingBatchSizeBytes r + messageSizeBytes m"
  consider "?I" | "\<not> ?I" "?O" "\<not> MaxMessageCount bz \<le> 1" | "\<not> ?I" "?O" "MaxMessageCount bz \<le> 1"
    | "\<not> ?I" "\<not> ?O" "MaxMessageCount bz \<le> of_nat (Suc (length (pendingBatch r)))"
    | "\<not> ?I" "\<not> ?O" "\<not> MaxMessageCount bz \<le> of_nat (Suc (length (pendingBatch r)))"
    by blast
  then show ?thesis
  proof cases
    case 1
    with assms bz show ?thesis
      by (intro isolated [of bz]) (auto simp: Ordered_def Let_def Cut_def receiver_wf_def split: if_splits)
  next
    case 2
    with assms(1) bz ne show ?thesis
      by (intro overflow [of bz]) (auto simp: Ordered_def Let_def Cut_def)
  next
    case 3
    with assms(1) bz ne show ?thesis
      by (intro overflow_full [of bz]) (auto simp: Ordered_def Let_def Cut_def)
  next
    case 4
    with assms(1) bz show ?thesis
      by (intro full [of bz]) (auto simp: Ordered_def Let_def Cut_def split: if_splits)
  next
    case 5
    with assms(1) bz show ?thesis
      by (intro enqueued [of bz]) (auto simp: Ordered_def Let_def Cut_def split: if_splits)
  qed
qed

lemma Ordered_queue:
  assumes "receiver_wf r" and "Ordered clk cfg m r = Ret (bs, p, r')"
  shows "concat bs @ pendingBatch r' = pendingBatch r @ [m] \<and> (p \<longleftrightarrow> pendingBatch r' \<noteq> []) \<and>
    [] \<notin> set bs \<and> receiver_wf r'"
  using assms(2,1)
proof (cases rule: Ordered_cases)
  case enqueued
  then show ?thesis using assms(1) by (simp add: receiver_wf_def)
qed (simp_all add: receiver_wf_def)

interpretation bc: batch_receiver NewReceiverImpl
  "\<lambda>(clk, cfg). Ordered clk cfg" Cut pendingBatch receiver_wf
proof unfold_locales
  fix r bs p r' m and c :: "(nat \<Rightarrow> int) \<times> batch_size option"
  assume wf: "receiver_wf r" and o: "(case c of (clk, cfg) \<Rightarrow> Ordered clk cfg) m r = Ret (bs, p, r')"
  then have "Ordered (fst c) (snd c) m r = Ret (bs, p, r')" by (cases c) simp
  from Ordered_queue [OF wf this]
  show "concat bs @ pendingBatch r' = pendingBatch r @ [m]" "p \<longleftrightarrow> pendingBatch r' \<noteq> []"
    "[] \<notin> set bs" "receiver_wf r'" by simp_all
next
  fix t r b r'
  assume "Cut t r = (b, r')"
  from Cut_facts [OF this] show "b = pendingBatch r \<and> pendingBatch r' = []" "receiver_wf r'"
    by simp_all
qed (simp_all add: NewReceiverImpl_def receiver_wf_def)


section \<open>Batch bounds\<close>

text \<open>The bytes of a message and of a batch, without wrap-around.\<close>

definition msg_bytes :: "envelope \<Rightarrow> nat" where
  "msg_bytes m = length (slice (Payload m)) + length (Signature m)"

definition batch_bytes :: "envelope list \<Rightarrow> nat" where
  "batch_bytes b = sum_list (map msg_bytes b)"

lemma batch_bytes_simps [simp]:
  "batch_bytes [] = 0" "batch_bytes [m] = msg_bytes m" "batch_bytes (b @ [m]) = batch_bytes b + msg_bytes m"
  by (simp_all add: batch_bytes_def)

lemma unat_messageSizeBytes: "msg_bytes m < 2 ^ 32 \<Longrightarrow> unat (messageSizeBytes m) = msg_bytes m"
  by (simp add: messageSizeBytes_def msg_bytes_def unat_of_nat take_bit_nat_eq_self del: of_nat_add)

definition batch_ok :: "batch_size \<Rightarrow> envelope list \<Rightarrow> bool" where
  "batch_ok bz b \<longleftrightarrow> b \<noteq> [] \<and> length b \<le> unat (MaxMessageCount bz) \<and>
     (batch_bytes b \<le> unat (PreferredMaxBytes bz) \<or> length b = 1)"

text \<open>Between calls under one configuration, the pending batch is below both limits.\<close>

definition pending_ok :: "batch_size \<Rightarrow> receiver \<Rightarrow> bool" where
  "pending_ok bz r \<longleftrightarrow> receiver_wf r \<and> length (pendingBatch r) < unat (MaxMessageCount bz) \<and>
     unat (pendingBatchSizeBytes r) = batch_bytes (pendingBatch r) \<and>
     batch_bytes (pendingBatch r) \<le> unat (PreferredMaxBytes bz)"

lemma count_le_iff:
  "n < 2 ^ 32 \<Longrightarrow> (c :: u32) \<le> of_nat n \<longleftrightarrow> unat c \<le> n"
  by (simp add: word_le_nat_alt unat_of_nat take_bit_nat_eq_self)

lemma pending_size_no_wrap:
  assumes "pending_ok bz r" and "unat (PreferredMaxBytes bz) < 2 ^ 31"
    and "messageSizeBytes m \<le> PreferredMaxBytes bz"
  shows "unat (pendingBatchSizeBytes r + messageSizeBytes m)
       = batch_bytes (pendingBatch r) + unat (messageSizeBytes m)"
  using assms by (simp add: pending_ok_def word_le_nat_alt unat_add_no_wrap)

lemma Ordered_bounds:
  assumes "pending_ok bz r" and "unat (PreferredMaxBytes bz) < 2 ^ 31" and "msg_bytes m < 2 ^ 32"
    and ord: "Ordered clk (Some bz) m r = Ret (bs, p, r')"
  shows "list_all (batch_ok bz) bs \<and> pending_ok bz r'"
proof -
  have wf: "receiver_wf r" using assms(1) by (simp add: pending_ok_def)
  have wf': "receiver_wf r'" using Ordered_queue [OF wf ord] by simp
  have len: "length (pendingBatch r) < unat (MaxMessageCount bz)" 
    and sz: "batch_bytes (pendingBatch r) \<le> unat (PreferredMaxBytes bz)"
    using assms(1) by (auto simp: pending_ok_def)
  have pend: "batch_ok bz (pendingBatch r)" if "pendingBatch r \<noteq> []"
    using that len sz by (simp add: batch_ok_def)
  have single: "batch_ok bz [m]" using len by (simp add: batch_ok_def)
  have m: "unat (messageSizeBytes m) = msg_bytes m"
    by (rule unat_messageSizeBytes) (rule assms(3))
  have cnt: "Suc (length (pendingBatch r)) < 2 ^ 32"
    using len unat_less_two_power [of "MaxMessageCount bz"] by simp
  from ord wf show ?thesis
  proof (cases rule: Ordered_cases)
    case isolated
    then show ?thesis using pend single len wf' by (simp add: pending_ok_def)
  next
    case (overflow bz')
    then have "1 < unat (MaxMessageCount bz)" "msg_bytes m \<le> unat (PreferredMaxBytes bz)"
      using m by (simp_all add: word_le_nat_alt)
    then show ?thesis using overflow pend wf' m by (simp add: pending_ok_def)
  next
    case overflow_full
    then show ?thesis using pend single len wf' by (simp add: pending_ok_def)
  next
    case (full bz')
    then have "batch_ok bz (pendingBatch r @ [m])"
      using pending_size_no_wrap [OF assms(1,2)] len m
      by (simp add: batch_ok_def word_le_nat_alt)
    then show ?thesis using full len wf' by (simp add: pending_ok_def)
  next
    case (enqueued bz')
    have "\<not> unat (MaxMessageCount bz) \<le> Suc (length (pendingBatch r))"
      using enqueued(1,4) count_le_iff [OF cnt] by simp
    then show ?thesis
      using enqueued pending_size_no_wrap [OF assms(1,2)] m wf'
      by (simp add: pending_ok_def word_le_nat_alt)
  qed
qed

section \<open>Properties\<close>

text \<open>A sequence of calls under one batch configuration.\<close>

fun ordered_seq ::
    "batch_size \<Rightarrow> ((nat \<Rightarrow> int) \<times> envelope) list \<Rightarrow> receiver \<Rightarrow> (envelope list list \<times> receiver) go" where
  "ordered_seq bz [] r = Ret ([], r)"
| "ordered_seq bz ((clk, m) # ms) r =
     bind_go (Ordered clk (Some bz) m r) (\<lambda>(bs, p, r').
       bind_go (ordered_seq bz ms r') (\<lambda>(bss, r''). Ret (bs @ bss, r'')))"

lemma Ordered_returns: "\<exists>bs p r'. Ordered clk (Some bz) m r = Ret (bs, p, r')"
  by (auto simp: Ordered_def Let_def split: prod.splits)

lemma ordered_seq_returns: "\<exists>bss r'. ordered_seq bz ms r = Ret (bss, r')"
proof (induction ms arbitrary: r)
  case (Cons cm ms)
  obtain clk m where cm: "cm = (clk, m)" by fastforce
  obtain bs p r1 where "Ordered clk (Some bz) m r = Ret (bs, p, r1)" using Ordered_returns by blast
  with Cons.IH [of r1] cm show ?case by auto
qed simp

lemma ordered_seq_eq:
  "ordered_seq bz ms = bc.ordered_all (map (\<lambda>(clk, m). ((clk, Some bz), m)) ms)"
proof
  show "ordered_seq bz ms r = bc.ordered_all (map (\<lambda>(clk, m). ((clk, Some bz), m)) ms) r" for r
  proof (induction ms arbitrary: r)
    case (Cons cm ms)
    then show ?case by (cases cm) (simp cong: prod.case_cong)
  qed simp
qed

lemma ordered_seq_bounds:
  assumes "unat (PreferredMaxBytes bz) < 2 ^ 31" "\<forall>(clk, m) \<in> set ms. msg_bytes m < 2 ^ 32"
    and "pending_ok bz r" "ordered_seq bz ms r = Ret (bss, r')"
  shows "list_all (batch_ok bz) bss \<and> pending_ok bz r'"
  using assms(2-4)
proof (induction ms arbitrary: r bss)
  case (Cons cm ms)
  obtain clk m where cm: "cm = (clk, m)" by fastforce
  obtain bs p r1 where o: "Ordered clk (Some bz) m r = Ret (bs, p, r1)" using Ordered_returns by blast
  obtain bss' where rest: "ordered_seq bz ms r1 = Ret (bss', r')" "bss = bs @ bss'"
    using Cons.prems(3) cm o by (auto simp: result_simps)
  have "list_all (batch_ok bz) bs \<and> pending_ok bz r1"
    using Ordered_bounds [OF Cons.prems(2) assms(1) _ o] Cons.prems(1) cm by simp
  with Cons.IH [OF _ _ rest(1)] Cons.prems(1) rest(2) show ?case by simp
qed simp

lemma pending_ok_init: "0 < MaxMessageCount bz \<Longrightarrow> pending_ok bz NewReceiverImpl"
  by (simp add: pending_ok_def NewReceiverImpl_def receiver_wf_def word_less_nat_alt)

lemma cutter_queue:
  "\<exists>bss r. ordered_seq bz ms NewReceiverImpl = Ret (bss, r) \<and>
     concat bss @ pendingBatch r = map snd ms \<and> [] \<notin> set bss"
proof -
  obtain bss r where run: "ordered_seq bz ms NewReceiverImpl = Ret (bss, r)"
    using ordered_seq_returns by blast
  from bc.ordered_all_queue [OF bc.wf_init, of "map (\<lambda>(clk, m). ((clk, Some bz), m)) ms" bss r] run
  have "concat bss @ pendingBatch r = map snd ms \<and> [] \<notin> set bss"
    by (simp add: ordered_seq_eq bc.pend_init case_prod_beta' comp_def)
  with run show ?thesis by blast
qed

text \<open>C4: however many messages a new receiver is handed, it does not panic, and the batches it has
  cut followed by the batch it still holds are exactly the messages, in order, each once; no
  batch is empty.\<close>

theorem cutter_keeps_order:
  "\<exists>bss r. ordered_seq bz ms NewReceiverImpl = Ret (bss, r) \<and>
     concat bss @ pendingBatch r = map snd ms \<and> [] \<notin> set bss"
  by (rule cutter_queue)


definition sample_batch_size :: batch_size where
  "sample_batch_size = \<lparr>MaxMessageCount = 2, AbsoluteMaxBytes = 100, PreferredMaxBytes = 5\<rparr>"

definition sample_msg :: "byte \<Rightarrow> envelope" where
  "sample_msg b = \<lparr>Payload = Some [b, b], Signature = [b]\<rparr>"

definition sample_receiver :: receiver where
  "sample_receiver = \<lparr>pendingBatch = [sample_msg 2], pendingBatchSizeBytes = 3, PendingBatchStartTime = 0,
     BlockFillDuration = [0]\<rparr>"

lemma sample_run:
  "ordered_seq sample_batch_size [(\<lambda>_. 0, sample_msg 1), (\<lambda>_. 0, sample_msg 2)] NewReceiverImpl
   = Ret ([[sample_msg 1]], sample_receiver)"
  by code_simp


end
