(* ===== verification/Protoutil.thy ===== *)
theory Protoutil
  imports Wire
begin

text \<open>
  Blocks and the helpers of \<^verbatim>\<open>protoutil/blockutils.go\<close>,
  \<^verbatim>\<open>protoutil/commonutils.go\<close>, \<^verbatim>\<open>protoutil/signeddata.go\<close> and
  \<^verbatim>\<open>protoutil/txutils.go\<close>: header and data hashes, block metadata, block signatures,
  config transactions, and well-formedness of the transactions of a block.

  What these call outside the repository is the record \<open>codec\<close>: the protobuf and ASN.1
  encodings and SHA-256.
\<close>

section \<open>Blocks\<close>

record block_header =
  Number :: u64
  PreviousHash :: bytes
  DataHash :: bytes

text \<open>\<open>cb.Block\<close>; \<open>Data\<close> and \<open>Metadata\<close> may be nil. The header is set by every constructor.\<close>

record block =
  BHeader :: block_header
  BData :: "bytes list option"
  BMetadata :: "bytes list option"

record metadata_signature =
  MsSignatureHeader :: bytes
  MsIdentifierHeader :: bytes
  MsSignature :: bytes

record metadata =
  MdValue :: bytes
  MdSignatures :: "metadata_signature list"

record orderer_block_metadata =
  ObmLastConfig :: "u64 option"
  ObmConsenterMetadata :: bytes

record signed_data =
  SdData :: bytes
  SdIdentity :: bytes
  SdSignature :: bytes

record consenter_info =
  ConsenterId :: u32
  ConsenterMspId :: string
  ConsenterIdentity :: bytes

text \<open>Positions in the block metadata (\<open>cb.BlockMetadataIndex\<close>).\<close>

abbreviation (input) "BlockMetadataIndex_SIGNATURES \<equiv> (0 :: nat)"
abbreviation (input) "BlockMetadataIndex_LAST_CONFIG \<equiv> (1 :: nat)"
abbreviation (input) "BlockMetadataIndex_TRANSACTIONS_FILTER \<equiv> (2 :: nat)"
abbreviation (input) "BlockMetadataIndex_ORDERER \<equiv> (3 :: nat)"
abbreviation (input) "BlockMetadataIndex_COMMIT_HASH \<equiv> (4 :: nat)"

record codec =
  marshalEnvelope :: "envelope \<Rightarrow> bytes"
  unmarshalEnvelope :: "bytes \<Rightarrow> envelope option"
  unmarshalPayload :: "bytes \<Rightarrow> payload option"
  unmarshalChannelHeader :: "bytes \<Rightarrow> channel_header option"
  unmarshalSignatureHeader :: "bytes \<Rightarrow> signature_header option"
  unmarshalIdentifierHeader :: "bytes \<Rightarrow> u32 option"
  marshalIdentity :: "string \<Rightarrow> bytes \<Rightarrow> bytes"
  marshalMetadata :: "metadata \<Rightarrow> bytes"
  unmarshalMetadata :: "bytes \<Rightarrow> metadata option"
  marshalLastConfig :: "u64 \<Rightarrow> bytes"
  unmarshalLastConfig :: "bytes \<Rightarrow> u64 option"
  marshalOBM :: "orderer_block_metadata \<Rightarrow> bytes"
  unmarshalOBM :: "bytes \<Rightarrow> orderer_block_metadata option"
  asn1Header :: "block_header \<Rightarrow> bytes"
  sha256 :: "bytes \<Rightarrow> bytes"

text \<open>
  What the code relies on: decoding inverts encoding, and an \<open>OrdererBlockMetadata\<close> with
  its \<open>LastConfig\<close> set is not empty on the wire (a present sub-message has a tag and a
  length even when all its fields are zero).
\<close>

definition metadata_codec :: "codec \<Rightarrow> bool" where
  "metadata_codec c \<longleftrightarrow>
     (\<forall>m. unmarshalMetadata c (marshalMetadata c m) = Some m) \<and>
     (\<forall>n. unmarshalLastConfig c (marshalLastConfig c n) = Some n) \<and>
     (\<forall>obm. unmarshalOBM c (marshalOBM c obm) = Some obm) \<and>
     (\<forall>obm. ObmLastConfig obm \<noteq> None \<longrightarrow> marshalOBM c obm \<noteq> [])"

text \<open>
  Channel configuration: \<open>cb.ConfigGroup\<close> and what it contains. The maps of a group are
  association lists with distinct keys (\<open>wf_group\<close>).
\<close>

record config_value =
  CvVersion :: u64
  CvValue :: bytes
  CvModPolicy :: string

record policy_proto =
  PpType :: int
  PpValue :: bytes

record config_policy =
  CpVersion :: u64
  CpPolicy :: "policy_proto option"
  CpModPolicy :: string

datatype config_group =
  ConfigGroup (CgVersion: u64) (CgGroups: "(string \<times> config_group) list")
    (CgValues: "(string \<times> config_value) list") (CgPolicies: "(string \<times> config_policy) list")
    (CgModPolicy: string)

fun wf_group :: "config_group \<Rightarrow> bool" where
  "wf_group (ConfigGroup v gs vs ps mp) \<longleftrightarrow>
     distinct (map fst gs) \<and> distinct (map fst vs) \<and> distinct (map fst ps) \<and>
     (\<forall>g \<in> snd ` set gs. wf_group g)"

record config_proto =
  CfgSequence :: u64
  CfgChannelGroup :: "config_group option"

record config_envelope =
  CeConfig :: "config_proto option"
  CeLastUpdate :: "envelope option"

record config_signature =
  CsSignatureHeader :: bytes
  CsSignature :: bytes

record config_update_envelope =
  CueConfigUpdate :: bytes
  CueSignatures :: "config_signature list"

record config_update =
  CuChannelId :: string
  CuReadSet :: "config_group option"
  CuWriteSet :: "config_group option"

record config_codec =
  unmarshalConfigEnvelope :: "bytes \<Rightarrow> config_envelope option"
  unmarshalConfigUpdateEnvelope :: "bytes \<Rightarrow> config_update_envelope option"
  unmarshalConfigUpdate :: "bytes \<Rightarrow> config_update option"

section \<open>Hashes and construction\<close>

definition NewBlock :: "u64 \<Rightarrow> bytes \<Rightarrow> block" where
  "NewBlock seqNum previousHash =
     \<lparr>BHeader = \<lparr>Number = seqNum, PreviousHash = previousHash, DataHash = []\<rparr>,
      BData = Some [], BMetadata = Some (replicate 5 [])\<rparr>"

definition BlockHeaderBytes :: "codec \<Rightarrow> block_header \<Rightarrow> bytes" where
  "BlockHeaderBytes c h = asn1Header c h"

definition BlockHeaderHash :: "codec \<Rightarrow> block_header \<Rightarrow> bytes" where
  "BlockHeaderHash c h = sha256 c (BlockHeaderBytes c h)"

definition ComputeBlockDataHash :: "codec \<Rightarrow> bytes list \<Rightarrow> bytes" where
  "ComputeBlockDataHash c d = sha256 c (concat d)"

section \<open>Envelopes inside blocks\<close>

definition GetEnvelopeFromBlock :: "codec \<Rightarrow> bytes \<Rightarrow> error + envelope" where
  "GetEnvelopeFromBlock c data =
     (case unmarshalEnvelope c data of
        None \<Rightarrow> Inl (Errorf ''error unmarshalling Envelope'')
      | Some env \<Rightarrow> Inr env)"

definition ExtractEnvelope :: "codec \<Rightarrow> block \<Rightarrow> int \<Rightarrow> error + envelope" where
  "ExtractEnvelope c b index =
     (case BData b of
        None \<Rightarrow> Inl (Errorf ''block data is nil'')
      | Some d \<Rightarrow>
          if index < 0 \<or> int (length d) \<le> index then Inl (Errorf ''envelope index out of bounds'')
          else wrap_err ''block data does not carry an envelope'' (GetEnvelopeFromBlock c (d ! nat index)))"

definition UnmarshalPayload :: "codec \<Rightarrow> bytes \<Rightarrow> error + payload" where
  "UnmarshalPayload c bs =
     (case unmarshalPayload c bs of None \<Rightarrow> Inl (Errorf ''error unmarshalling Payload'') | Some p \<Rightarrow> Inr p)"

definition UnmarshalChannelHeader :: "codec \<Rightarrow> bytes \<Rightarrow> error + channel_header" where
  "UnmarshalChannelHeader c bs =
     (case unmarshalChannelHeader c bs of
        None \<Rightarrow> Inl (Errorf ''error unmarshalling ChannelHeader'') | Some h \<Rightarrow> Inr h)"

text \<open>\<open>protoutil.ChannelHeader\<close>; the envelope may be nil.\<close>

definition ChannelHeader :: "codec \<Rightarrow> envelope option \<Rightarrow> error + channel_header" where
  "ChannelHeader c env =
     (case env of
        None \<Rightarrow> Inl (Errorf ''Invalid envelope payload. can't be nil'')
      | Some env \<Rightarrow>
          bind_err (UnmarshalPayload c (slice (Payload env))) (\<lambda>p.
            case Header p of
              None \<Rightarrow> Inl (Errorf ''header not set'')
            | Some h \<Rightarrow>
                (case ChannelHeaderBytes h of
                   None \<Rightarrow> Inl (Errorf ''channel header not set'')
                 | Some bs \<Rightarrow>
                     wrap_err ''error unmarshalling channel header'' (UnmarshalChannelHeader c bs))))"

definition HasConfigTx :: "codec \<Rightarrow> bytes list \<Rightarrow> bool" where
  "HasConfigTx c d =
     (case d of
        [e] \<Rightarrow>
          (case GetEnvelopeFromBlock c e of
             Inl _ \<Rightarrow> False
           | Inr env \<Rightarrow>
               (case UnmarshalPayload c (slice (Payload env)) of
                  Inl _ \<Rightarrow> False
                | Inr p \<Rightarrow>
                    (case Header p of
                       None \<Rightarrow> False
                     | Some h \<Rightarrow>
                         (case UnmarshalChannelHeader c (slice (ChannelHeaderBytes h)) of
                            Inl _ \<Rightarrow> False
                          | Inr hdr \<Rightarrow> HdrType hdr = HeaderType_CONFIG))))
      | _ \<Rightarrow> False)"

definition IsConfigBlock :: "codec \<Rightarrow> block \<Rightarrow> bool" where
  "IsConfigBlock c b = (case BData b of None \<Rightarrow> False | Some d \<Rightarrow> HasConfigTx c d)"

definition EnvelopeAsSignedData :: "codec \<Rightarrow> envelope \<Rightarrow> error + signed_data list" where
  "EnvelopeAsSignedData c env =
     (case unmarshalPayload c (slice (Payload env)) of
        None \<Rightarrow> Inl (Errorf ''proto'')
      | Some p \<Rightarrow>
          (case Header p of
             None \<Rightarrow> Inl (Errorf ''Missing Header'')
           | Some h \<Rightarrow>
               (case unmarshalSignatureHeader c (SignatureHeaderBytes h) of
                  None \<Rightarrow> Inl (Errorf ''GetSignatureHeaderFromBytes failed'')
                | Some shdr \<Rightarrow>
                    Inr [\<lparr>SdData = slice (Payload env), SdIdentity = Creator shdr,
                          SdSignature = Signature env\<rparr>])))"

text \<open>\<open>UnmarshalEnvelopeOfType\<close>; \<open>dec\<close> is \<open>proto.Unmarshal\<close> into the message type asked for.\<close>

definition UnmarshalEnvelopeOfType ::
    "codec \<Rightarrow> (bytes \<Rightarrow> 'm option) \<Rightarrow> envelope \<Rightarrow> int \<Rightarrow> error + channel_header \<times> 'm" where
  "UnmarshalEnvelopeOfType c dec env headerType =
     bind_err (UnmarshalPayload c (slice (Payload env))) (\<lambda>p.
       case Header p of
         None \<Rightarrow> Inl (Errorf ''envelope must have a Header'')
       | Some h \<Rightarrow>
           bind_err (UnmarshalChannelHeader c (slice (ChannelHeaderBytes h))) (\<lambda>chdr.
             if HdrType chdr \<noteq> headerType then Inl (Errorf ''invalid type'')
             else (case dec (Data p) of
                     None \<Rightarrow> Inl (Errorf ''error unmarshalling message for type'')
                   | Some m \<Rightarrow> Inr (chdr, m))))"

definition EnvelopeToConfigUpdate :: "codec \<Rightarrow> config_codec \<Rightarrow> envelope \<Rightarrow> error + config_update_envelope" where
  "EnvelopeToConfigUpdate c cc configtx =
     bind_err (UnmarshalEnvelopeOfType c (unmarshalConfigUpdateEnvelope cc) configtx HeaderType_CONFIG_UPDATE)
       (\<lambda>(_, m). Inr m)"

text \<open>\<open>ConfigUpdateEnvelopeAsSignedData\<close>: each signature covers its header and the update.\<close>

fun config_signed_data :: "codec \<Rightarrow> bytes \<Rightarrow> config_signature list \<Rightarrow> error + signed_data list" where
  "config_signed_data c u [] = Inr []"
| "config_signed_data c u (s # ss) =
     (case unmarshalSignatureHeader c (CsSignatureHeader s) of
        None \<Rightarrow> Inl (Errorf ''proto'')
      | Some sh \<Rightarrow>
          bind_err (config_signed_data c u ss) (\<lambda>sds.
            Inr (\<lparr>SdData = CsSignatureHeader s @ u, SdIdentity = Creator sh, SdSignature = CsSignature s\<rparr> # sds)))"

definition ConfigUpdateEnvelopeAsSignedData :: "codec \<Rightarrow> config_update_envelope \<Rightarrow> error + signed_data list" where
  "ConfigUpdateEnvelopeAsSignedData c ce = config_signed_data c (CueConfigUpdate ce) (CueSignatures ce)"

section \<open>Well-formed transactions\<close>

fun check_txs :: "codec \<Rightarrow> bytes list \<Rightarrow> error option" where
  "check_txs c [] = None"
| "check_txs c (rawTx # rest) =
     (case unmarshalEnvelope c rawTx of
        None \<Rightarrow> Some (Errorf ''transaction is invalid'')
      | Some env \<Rightarrow>
          if slice (Payload env) = [] then Some (Errorf ''transaction has no payload'')
          else if Signature env = [] then Some (Errorf ''transaction has no signature'')
          else (let expected = marshalEnvelope c env
                in if length expected < length rawTx then Some (Errorf ''transaction has trailing bytes'')
                   else if expected \<noteq> rawTx then Some (Errorf ''transaction does not match its raw form'')
                   else check_txs c rest))"

definition VerifyTransactionsAreWellFormed :: "codec \<Rightarrow> bytes list option \<Rightarrow> error option" where
  "VerifyTransactionsAreWellFormed c bd =
     (case bd of
        None \<Rightarrow> Some (Errorf ''empty block'')
      | Some d \<Rightarrow>
          if d = [] then Some (Errorf ''empty block'')
          else if HasConfigTx c d then None
          else check_txs c d)"

definition BlockDataHash :: "codec \<Rightarrow> bytes list option \<Rightarrow> error + bytes" where
  "BlockDataHash c bd =
     (case VerifyTransactionsAreWellFormed c bd of
        Some e \<Rightarrow> Inl e
      | None \<Rightarrow> Inr (ComputeBlockDataHash c (case bd of None \<Rightarrow> [] | Some d \<Rightarrow> d)))"

section \<open>Block metadata\<close>

definition GetMetadataFromBlock :: "codec \<Rightarrow> block \<Rightarrow> nat \<Rightarrow> error + metadata" where
  "GetMetadataFromBlock c b index =
     (case BMetadata b of
        None \<Rightarrow> Inl (Errorf ''no metadata in block'')
      | Some ms \<Rightarrow>
          if length ms \<le> index then Inl (Errorf ''no metadata at index'')
          else (case unmarshalMetadata c (ms ! index) of
                  None \<Rightarrow> Inl (Errorf ''error unmarshalling metadata at index'')
                | Some md \<Rightarrow> Inr md))"

text \<open>The last line reads \<open>obm.LastConfig.Index\<close>: a nil \<open>LastConfig\<close> is a nil dereference.\<close>

definition GetLastConfigIndexFromBlock :: "codec \<Rightarrow> block \<Rightarrow> (error + u64) go" where
  "GetLastConfigIndexFromBlock c b =
     (case GetMetadataFromBlock c b BlockMetadataIndex_SIGNATURES of
        Inl e \<Rightarrow> Ret (Inl (WithMessage e ''failed to retrieve metadata''))
      | Inr m \<Rightarrow>
          if MdValue m = [] then
            (case GetMetadataFromBlock c b BlockMetadataIndex_LAST_CONFIG of
               Inl e \<Rightarrow> Ret (Inl (WithMessage e ''failed to retrieve metadata''))
             | Inr m \<Rightarrow>
                 (case unmarshalLastConfig c (MdValue m) of
                    None \<Rightarrow> Ret (Inl (Errorf ''error unmarshalling LastConfig''))
                  | Some i \<Rightarrow> Ret (Inr i)))
          else
            (case unmarshalOBM c (MdValue m) of
               None \<Rightarrow> Ret (Inl (Errorf ''failed to unmarshal orderer block metadata''))
             | Some obm \<Rightarrow>
                 (case ObmLastConfig obm of
                    None \<Rightarrow> Panic ''nil pointer dereference''
                  | Some i \<Rightarrow> Ret (Inr i))))"

definition GetConsenterMetadataFromBlock :: "codec \<Rightarrow> block \<Rightarrow> error + metadata" where
  "GetConsenterMetadataFromBlock c b =
     (case GetMetadataFromBlock c b BlockMetadataIndex_SIGNATURES of
        Inl e \<Rightarrow> Inl (WithMessage e ''failed to retrieve metadata'')
      | Inr m \<Rightarrow>
          if MdValue m = [] then GetMetadataFromBlock c b BlockMetadataIndex_ORDERER
          else
            (case unmarshalOBM c (MdValue m) of
               None \<Rightarrow> Inl (Errorf ''failed to unmarshal orderer block metadata'')
             | Some obm \<Rightarrow>
                 (case unmarshalMetadata c (ObmConsenterMetadata obm) of
                    None \<Rightarrow> Inl (Errorf ''failed to unmarshal consenter metadata'')
                  | Some res \<Rightarrow> Inr res)))"

definition InitBlockMetadata :: "block \<Rightarrow> block" where
  "InitBlockMetadata b =
     (case BMetadata b of
        None \<Rightarrow> b\<lparr>BMetadata := Some [[], [], [], [], []]\<rparr>
      | Some ms \<Rightarrow>
          if length ms < BlockMetadataIndex_COMMIT_HASH + 1
          then b\<lparr>BMetadata := Some (ms @ replicate (BlockMetadataIndex_COMMIT_HASH + 1 - length ms) [])\<rparr>
          else b)"

definition CopyBlockMetadata :: "block \<Rightarrow> block \<Rightarrow> block" where
  "CopyBlockMetadata src dst = InitBlockMetadata (dst\<lparr>BMetadata := BMetadata src\<rparr>)"

section \<open>Block signatures\<close>

fun searchConsenterIdentityByID :: "codec \<Rightarrow> consenter_info list \<Rightarrow> u32 \<Rightarrow> bytes" where
  "searchConsenterIdentityByID c [] i = []"
| "searchConsenterIdentityByID c (x # xs) i =
     (if ConsenterId x = i then marshalIdentity c (ConsenterMspId x) (ConsenterIdentity x)
      else searchConsenterIdentityByID c xs i)"

text \<open>The loop that builds the signature set: an unknown consenter identifier is skipped.\<close>

fun signature_set ::
    "codec \<Rightarrow> bool \<Rightarrow> consenter_info list \<Rightarrow> block_header \<Rightarrow> bytes \<Rightarrow> metadata_signature list
      \<Rightarrow> error + signed_data list" where
  "signature_set c bft cs h v [] = Inr []"
| "signature_set c bft cs h v (ms # rest) =
     (if bft \<and> MsSignatureHeader ms = [] \<and> MsIdentifierHeader ms \<noteq> [] then
        (case unmarshalIdentifierHeader c (MsIdentifierHeader ms) of
           None \<Rightarrow> Inl (Errorf ''failed unmarshalling identifier header'')
         | Some ident \<Rightarrow>
             (let signerIdentity = searchConsenterIdentityByID c cs ident
              in if signerIdentity = [] then signature_set c bft cs h v rest
                 else bind_err (signature_set c bft cs h v rest) (\<lambda>sds.
                   Inr (\<lparr>SdData = v @ MsIdentifierHeader ms @ BlockHeaderBytes c h,
                         SdIdentity = signerIdentity, SdSignature = MsSignature ms\<rparr> # sds))))
      else
        (case unmarshalSignatureHeader c (MsSignatureHeader ms) of
           None \<Rightarrow> Inl (Errorf ''failed unmarshalling signature header'')
         | Some sh \<Rightarrow>
             bind_err (signature_set c bft cs h v rest) (\<lambda>sds.
               Inr (\<lparr>SdData = v @ MsSignatureHeader ms @ BlockHeaderBytes c h,
                     SdIdentity = Creator sh, SdSignature = MsSignature ms\<rparr> # sds))))"

definition BlockSignatureVerifier ::
    "codec \<Rightarrow> bool \<Rightarrow> consenter_info list \<Rightarrow> (signed_data list \<Rightarrow> error option)
      \<Rightarrow> block_header \<Rightarrow> bytes list option \<Rightarrow> error option" where
  "BlockSignatureVerifier c bft cs policy h md =
     (let ms = (case md of None \<Rightarrow> [] | Some ms \<Rightarrow> ms)
      in if length ms < BlockMetadataIndex_SIGNATURES + 1 then Some (Errorf ''no signatures in block metadata'')
         else (case unmarshalMetadata c (ms ! BlockMetadataIndex_SIGNATURES) of
                 None \<Rightarrow> Some (Errorf ''error unmarshalling signatures from metadata'')
               | Some m \<Rightarrow>
                   (case signature_set c bft cs h (MdValue m) (MdSignatures m) of
                      Inl e \<Rightarrow> Some e
                    | Inr sds \<Rightarrow> policy sds)))"


section \<open>Data hashes bind the transactions\<close>

lemma check_txs_raw:
  "check_txs c d = None \<Longrightarrow>
   list_all (\<lambda>raw. \<exists>env. unmarshalEnvelope c raw = Some env \<and> complete env \<and> marshalEnvelope c env = raw) d"
  by (induction d) (auto simp: Let_def complete_def split: option.splits if_splits)

context envelope_codec
begin

text \<open>A sequence of complete encodings can be cut in one way only.\<close>

definition encoding :: "bytes \<Rightarrow> bool" where
  "encoding raw \<longleftrightarrow> (\<exists>env. complete env \<and> marshal env = raw) \<and> length raw < 2 ^ 63"

lemma encoding_canonical:
  assumes "complete env" "length (marshal env) < 2 ^ 63"
  shows "canonical env"
  using assms marshal_length [of env] by (auto simp: canonical_def complete_def slice_def)

lemma encoding_nonempty: "encoding raw \<Longrightarrow> raw \<noteq> []"
proof -
  assume "encoding raw"
  then obtain env where "complete env" and raw: "marshal env = raw"
    by (auto simp: encoding_def)
  then have "0 < length (Signature env)" by (simp add: complete_def)
  with marshal_length [of env] have "0 < length (marshal env)" by linarith
  with raw show ?thesis by auto
qed

lemma concat_encodings_inj:
  "list_all encoding d \<Longrightarrow> list_all encoding d' \<Longrightarrow> concat d = concat d' \<Longrightarrow> d = d'"
proof (induction d arbitrary: d')
  case Nil
  then show ?case
    by (cases d') (auto dest: encoding_nonempty)
next
  case (Cons x xs)
  obtain e where e: "complete e" "marshal e = x" "canonical e"
    using Cons.prems(1) encoding_canonical by (auto simp: encoding_def)
  then have "x \<noteq> []"
    using Cons.prems(1) by (auto dest: encoding_nonempty)
  with Cons.prems(3) obtain y ys where d': "d' = y # ys" by (cases d') auto
  obtain e' where e': "complete e'" "marshal e' = y" "canonical e'"
    using Cons.prems(2) d' encoding_canonical by (auto simp: encoding_def)
  have "e = e'"
    using marshal_self_delimiting [OF e(3) e'(3) e(1) e'(1)] Cons.prems(3) e(2) e'(2) d' by auto
  with e e' have "x = y" by simp
  with Cons d' show ?case by auto
qed

end

lemma well_formed_encodings:
  assumes "envelope_codec (marshalEnvelope c) (unmarshalEnvelope c)"
    and "VerifyTransactionsAreWellFormed c (Some d) = None" and "\<not> HasConfigTx c d"
    and "list_all (\<lambda>raw. length raw < 2 ^ 63) d"
  shows "list_all (envelope_codec.encoding (marshalEnvelope c)) d"
proof -
  have "check_txs c d = None"
    using assms(2,3) by (auto simp: VerifyTransactionsAreWellFormed_def split: if_splits)
  from check_txs_raw [OF this] assms(4) show ?thesis
    by (auto simp: list_all_iff envelope_codec.encoding_def [OF assms(1)])
qed

section \<open>Metadata slots\<close>

lemma InitBlockMetadata_slots:
  "\<exists>ms. BMetadata (InitBlockMetadata b) = Some ms \<and> 5 \<le> length ms \<and>
     (\<forall>old. BMetadata b = Some old \<longrightarrow> take (length old) ms = old)"
  by (auto simp: InitBlockMetadata_def split: option.splits)

lemma InitBlockMetadata_idem: "InitBlockMetadata (InitBlockMetadata b) = InitBlockMetadata b"
  by (auto simp: InitBlockMetadata_def split: option.splits)

end
