(* ===== verification/Sample_Codec.thy ===== *)
theory Sample_Codec
  imports Protoutil
begin

text \<open>
  A concrete \<open>codec\<close>, so that statements with a codec as a parameter can be applied to
  closed inputs: envelopes use the protobuf wire format of theory \<open>Wire\<close>; the other
  messages are written as a sequence of items, each an escaped byte string with a
  terminator, which has no length limit. The hash is the identity, which has no collisions.
\<close>

fun esc :: "bytes \<Rightarrow> bytes" where
  "esc [] = [0]"
| "esc (b # bs) = 1 # b # esc bs"

definition put_items :: "bytes list \<Rightarrow> bytes" where
  "put_items xs = concat (map esc xs)"

fun get_items :: "bytes \<Rightarrow> bytes \<Rightarrow> bytes list option" where
  "get_items acc [] = (if acc = [] then Some [] else None)"
| "get_items acc [t] = (if t = 0 then Some [rev acc] else None)"
| "get_items acc (t # b # bs) =
     (if t = 0 then map_option ((#) (rev acc)) (get_items [] (b # bs))
      else get_items (b # acc) bs)"

lemma get_items_esc:
  "get_items acc (esc x @ rest) = map_option ((#) (rev acc @ x)) (get_items [] rest)"
proof (induction x arbitrary: acc)
  case Nil
  then show ?case by (cases rest) auto
next
  case (Cons b x)
  then show ?case by simp
qed

lemma get_put_items [simp]: "get_items [] (put_items xs) = Some xs"
  by (induction xs) (simp_all add: put_items_def get_items_esc)

definition bytes_of_string :: "string \<Rightarrow> bytes" where
  "bytes_of_string s = map (\<lambda>ch. of_char ch) s"

definition string_of_bytes :: "bytes \<Rightarrow> string" where
  "string_of_bytes bs = map (\<lambda>b. char_of (unat b)) bs"

fun sigs_items :: "metadata_signature list \<Rightarrow> bytes list" where
  "sigs_items [] = []"
| "sigs_items (s # ss) = [MsSignatureHeader s, MsIdentifierHeader s, MsSignature s] @ sigs_items ss"

fun items_sigs :: "bytes list \<Rightarrow> metadata_signature list option" where
  "items_sigs [] = Some []"
| "items_sigs (h # i # s # rest) =
     map_option ((#) \<lparr>MsSignatureHeader = h, MsIdentifierHeader = i, MsSignature = s\<rparr>) (items_sigs rest)"
| "items_sigs _ = None"

lemma items_sigs_items [simp]: "items_sigs (sigs_items ss) = Some ss"
  by (induction ss) simp_all

definition sample_codec :: codec where
  "sample_codec = \<lparr>
     marshalEnvelope = pb_marshal,
     unmarshalEnvelope = pb_unmarshal,
     unmarshalPayload = (\<lambda>bs. case get_items [] bs of
         Some [ch, sh, d] \<Rightarrow>
           Some \<lparr>Header = Some \<lparr>ChannelHeaderBytes = Some ch, SignatureHeaderBytes = sh\<rparr>, Data = d\<rparr>
       | Some [d] \<Rightarrow> Some \<lparr>Header = None, Data = d\<rparr>
       | _ \<Rightarrow> None),
     unmarshalChannelHeader = (\<lambda>bs. case get_items [] bs of
         Some [t, ch, tx] \<Rightarrow>
           Some \<lparr>HdrType = int (be_val t), ChannelId = string_of_bytes ch, TxId = string_of_bytes tx\<rparr>
       | _ \<Rightarrow> None),
     unmarshalSignatureHeader = (\<lambda>bs. case get_items [] bs of
         Some [cr, no] \<Rightarrow> Some \<lparr>Creator = cr, Nonce = no\<rparr>
       | _ \<Rightarrow> None),
     unmarshalIdentifierHeader = (\<lambda>bs. Some (of_nat (be_val bs))),
     marshalIdentity = (\<lambda>m i. put_items [bytes_of_string m, i]),
     marshalMetadata = (\<lambda>m. put_items (MdValue m # sigs_items (MdSignatures m))),
     unmarshalMetadata = (\<lambda>bs.
       if bs = [] then Some \<lparr>MdValue = [], MdSignatures = []\<rparr>
       else case get_items [] bs of
         Some (v # ss) \<Rightarrow> map_option (\<lambda>s. \<lparr>MdValue = v, MdSignatures = s\<rparr>) (items_sigs ss)
       | _ \<Rightarrow> None),
     marshalLastConfig = (\<lambda>n. be_bytes 8 (unat n)),
     unmarshalLastConfig = (\<lambda>bs. Some (of_nat (be_val bs))),
     marshalOBM = (\<lambda>obm. put_items
       [case ObmLastConfig obm of None \<Rightarrow> [] | Some n \<Rightarrow> be_bytes 8 (unat n), ObmConsenterMetadata obm]),
     unmarshalOBM = (\<lambda>bs. case get_items [] bs of
         Some [l, m] \<Rightarrow>
           Some \<lparr>ObmLastConfig = (if l = [] then None else Some (of_nat (be_val l))),
                 ObmConsenterMetadata = m\<rparr>
       | _ \<Rightarrow> None),
     asn1Header = (\<lambda>h. put_items [be_bytes 8 (unat (Number h)), PreviousHash h, DataHash h]),
     sha256 = (\<lambda>bs. bs)\<rparr>"

lemma be_roundtrip_u64 [simp]: "of_nat (be_val (be_bytes 8 (unat n))) = (n :: u64)"
  using unat_u64_bound [of n] by (simp add: be_val_be_bytes)

lemma esc_not_Nil [simp]: "esc x \<noteq> []"
  by (cases x) auto

lemma put_items_Cons_not_Nil [simp]: "put_items (x # xs) \<noteq> []"
  by (simp add: put_items_def)

lemma be_bytes_8_not_Nil [simp]: "be_bytes 8 n \<noteq> []"
  using length_be_bytes [of 8 n] by (metis length_0_conv zero_neq_numeral)

lemma sample_metadata_codec: "metadata_codec sample_codec"
  by (auto simp: metadata_codec_def sample_codec_def split: option.splits)

lemma sample_envelope_codec:
  "envelope_codec (marshalEnvelope sample_codec) (unmarshalEnvelope sample_codec)"
  by (simp add: sample_codec_def pb.envelope_codec_axioms)

section \<open>Data hashes\<close>


definition sample_data :: "bytes list" where
  "sample_data = [pb_marshal \<lparr>Payload = Some [1], Signature = [2]\<rparr>, pb_marshal \<lparr>Payload = Some [3], Signature = [4]\<rparr>]"


end
