(* ===== verification/Policies.thy ===== *)
theory Policies
  imports Sample_Codec
begin

text \<open>
  Channel policies: signature policies (\<^verbatim>\<open>common/cauthdsl\<close>), implicit meta policies and
  the policy manager (\<^verbatim>\<open>common/policies\<close>), and the BFT quorum rule.

  The membership service provider is outside this development: the record \<open>msp\<close> is what
  the policies call of it. An evaluation returns the error, \<open>None\<close> for nil.
\<close>

section \<open>Signature policies\<close>

record principal =
  PrincipalClassification :: int
  Principal :: bytes

text \<open>\<open>cb.SignaturePolicy\<close>: a nil element, a missing or unknown type, or one of the two types.\<close>

datatype signature_policy =
    NilPolicy
  | UnknownPolicy
  | SignedBy int
  | NOutOf int "signature_policy list"

text \<open>The closure that \<open>compile\<close> builds, as data.\<close>

datatype compiled = CSignedBy principal | CNOutOf int "compiled list"

fun compile :: "signature_policy \<Rightarrow> principal list \<Rightarrow> error + compiled"
  and compile_rules :: "signature_policy list \<Rightarrow> principal list \<Rightarrow> error + compiled list" where
  "compile NilPolicy ids = Inl (Errorf ''Empty policy element'')"
| "compile UnknownPolicy ids = Inl (Errorf ''Unknown type'')"
| "compile (SignedBy i) ids =
     (if i < 0 \<or> int (length ids) \<le> i then Inl (Errorf ''identity index out of range'')
      else Inr (CSignedBy (ids ! nat i)))"
| "compile (NOutOf n rules) ids = bind_err (compile_rules rules ids) (\<lambda>cs. Inr (CNOutOf n cs))"
| "compile_rules [] ids = Inr []"
| "compile_rules (r # rs) ids =
     bind_err (compile r ids) (\<lambda>c. bind_err (compile_rules rs ids) (\<lambda>cs. Inr (c # cs)))"

text \<open>The \<open>SignedBy\<close> closure: the first unused identity that satisfies the principal.\<close>

fun first_match :: "('id \<Rightarrow> principal \<Rightarrow> bool) \<Rightarrow> principal \<Rightarrow> 'id list \<Rightarrow> bool list \<Rightarrow> nat option" where
  "first_match sat p (x # xs) (u # us) =
     (if \<not> u \<and> sat x p then Some 0 else map_option Suc (first_match sat p xs us))"
| "first_match sat p _ _ = None"

text \<open>The closures share the slice \<open>used\<close>; the result carries its new contents. A gate
  evaluates every rule, and keeps the changes of the ones that hold.\<close>

fun evaluate :: "('id \<Rightarrow> principal \<Rightarrow> bool) \<Rightarrow> compiled \<Rightarrow> 'id list \<Rightarrow> bool list \<Rightarrow> bool \<times> bool list"
  and gate :: "('id \<Rightarrow> principal \<Rightarrow> bool) \<Rightarrow> compiled list \<Rightarrow> 'id list \<Rightarrow> bool list \<Rightarrow> nat \<times> bool list" where
  "evaluate sat (CSignedBy p) ids used =
     (case first_match sat p ids used of
        None \<Rightarrow> (False, used)
      | Some i \<Rightarrow> (True, used[i := True]))"
| "evaluate sat (CNOutOf n rules) ids used =
     (let (verified, used') = gate sat rules ids used in (n \<le> int verified, used'))"
| "gate sat [] ids used = (0, used)"
| "gate sat (r # rs) ids used =
     (let (ok, used1) = evaluate sat r ids used;
          (v, used2) = gate sat rs ids (if ok then used1 else used)
      in ((if ok then Suc v else v), used2))"

section \<open>Identities\<close>

record 'id msp =
  DeserializeIdentity :: "bytes \<Rightarrow> 'id option"
  IdentifierKey :: "'id \<Rightarrow> string"
  VerifySig :: "'id \<Rightarrow> bytes \<Rightarrow> bytes \<Rightarrow> bool"
  SatisfiesPrincipal :: "'id \<Rightarrow> principal \<Rightarrow> bool"

text \<open>\<open>SignatureSetToValidIdentities\<close>; \<open>idMap\<close> is the set of keys seen with a valid signature.\<close>

fun valid_identities :: "'id msp \<Rightarrow> string list \<Rightarrow> signed_data list \<Rightarrow> 'id list" where
  "valid_identities m idMap [] = []"
| "valid_identities m idMap (sd # sds) =
     (case DeserializeIdentity m (SdIdentity sd) of
        None \<Rightarrow> valid_identities m idMap sds
      | Some identity \<Rightarrow>
          (let key = IdentifierKey m identity
           in if key \<in> set idMap then valid_identities m idMap sds
              else if \<not> VerifySig m identity (SdData sd) (SdSignature sd)
                then valid_identities m idMap sds
              else identity # valid_identities m (key # idMap) sds))"

definition SignatureSetToValidIdentities :: "'id msp \<Rightarrow> signed_data list \<Rightarrow> 'id list" where
  "SignatureSetToValidIdentities m sds = valid_identities m [] sds"

section \<open>Policies\<close>

datatype implicit_rule = RuleANY | RuleALL | RuleMAJORITY | UnknownRule int

text \<open>The implementations of the \<open>Policy\<close> interface; \<open>PolicyLogger\<close> only adds logging.\<close>

datatype policy =
    SigPolicy compiled
  | ImplicitMetaPolicy int "policy list" string
  | RejectPolicy string
  | PolicyLogger policy string

text \<open>The loop of \<open>ImplicitMetaPolicy.EvaluateSignedData\<close> over the results of the
  sub-policies: it returns nil as soon as \<open>remaining\<close> drops to 0.\<close>

fun implicit_loop :: "int \<Rightarrow> error option list \<Rightarrow> error option" where
  "implicit_loop remaining [] =
     (if remaining = 0 then None else Some (Errorf ''implicit policy evaluation failed''))"
| "implicit_loop remaining (r # rs) =
     (if r = None then
        (if remaining - 1 = 0 then None else implicit_loop (remaining - 1) rs)
      else implicit_loop remaining rs)"

fun EvaluateIdentities :: "'id msp \<Rightarrow> policy \<Rightarrow> 'id list \<Rightarrow> error option" where
  "EvaluateIdentities m (SigPolicy c) ids =
     (if fst (evaluate (SatisfiesPrincipal m) c ids (replicate (length ids) False)) then None
      else Some (Errorf ''signature set did not satisfy policy''))"
| "EvaluateIdentities m (ImplicitMetaPolicy threshold subs name) ids =
     implicit_loop threshold (map (\<lambda>p. EvaluateIdentities m p ids) subs)"
| "EvaluateIdentities m (RejectPolicy n) ids = Some (Errorf ''no such policy'')"
| "EvaluateIdentities m (PolicyLogger p n) ids = EvaluateIdentities m p ids"

fun EvaluateSignedData :: "'id msp \<Rightarrow> policy \<Rightarrow> signed_data list \<Rightarrow> error option" where
  "EvaluateSignedData m (SigPolicy c) sds =
     EvaluateIdentities m (SigPolicy c) (SignatureSetToValidIdentities m sds)"
| "EvaluateSignedData m (ImplicitMetaPolicy threshold subs name) sds =
     implicit_loop threshold (map (\<lambda>p. EvaluateSignedData m p sds) subs)"
| "EvaluateSignedData m (RejectPolicy n) sds = Some (Errorf ''no such policy'')"
| "EvaluateSignedData m (PolicyLogger p n) sds = EvaluateSignedData m p sds"

section \<open>The policy manager\<close>

datatype manager =
  ManagerImpl (mgr_path: string) (mgr_policies: "(string \<times> policy) list")
    (mgr_managers: "(string \<times> manager) list")

text \<open>\<open>Manager\<close>: descend along a path.\<close>

fun Manager :: "manager \<Rightarrow> string list \<Rightarrow> manager option" where
  "Manager pm [] = Some pm"
| "Manager pm (p # ps) =
     (case map_of (mgr_managers pm) p of None \<Rightarrow> None | Some m \<Rightarrow> Manager m ps)"

text \<open>
  \<open>GetPolicy\<close>: the policy, and whether it is the one requested. For an absolute name the
  code slices \<open>id[1+len(pm.path)+1:]\<close>, which panics when \<open>id\<close> is exactly the path.
\<close>

definition GetPolicy :: "manager \<Rightarrow> string \<Rightarrow> (policy \<times> bool) go" where
  "GetPolicy pm i =
     (if i = '''' then Ret (RejectPolicy i, False)
      else if take 1 i = ''/'' then
        (if take (Suc (length (mgr_path pm))) i \<noteq> ''/'' @ mgr_path pm then Ret (RejectPolicy i, False)
         else if length i < length (mgr_path pm) + 2 then Panic ''slice bounds out of range''
         else (let relpath = drop (length (mgr_path pm) + 2) i
               in case map_of (mgr_policies pm) relpath of
                    None \<Rightarrow> Ret (RejectPolicy relpath, False)
                  | Some p \<Rightarrow> Ret (PolicyLogger p (''/'' @ mgr_path pm @ ''/'' @ relpath), True)))
      else (case map_of (mgr_policies pm) i of
              None \<Rightarrow> Ret (RejectPolicy i, False)
            | Some p \<Rightarrow> Ret (PolicyLogger p (''/'' @ mgr_path pm @ ''/'' @ i), True)))"

text \<open>\<open>NewImplicitMetaPolicy\<close>, after unmarshalling: the sub-policy of every sub-manager and
  the threshold of the rule. A rule outside the enumeration leaves the threshold at 0.\<close>

fun sub_policies :: "string \<Rightarrow> (string \<times> manager) list \<Rightarrow> policy list go" where
  "sub_policies sp [] = Ret []"
| "sub_policies sp ((n, m) # ms) =
     bind_go (GetPolicy m sp) (\<lambda>(p, _). bind_go (sub_policies sp ms) (\<lambda>ps. Ret (p # ps)))"

fun rule_threshold :: "implicit_rule \<Rightarrow> nat \<Rightarrow> int" where
  "rule_threshold RuleANY n = 1"
| "rule_threshold RuleALL n = int n"
| "rule_threshold RuleMAJORITY n = int (n div 2) + 1"
| "rule_threshold (UnknownRule _) n = 0"

definition NewImplicitMetaPolicy ::
    "(implicit_rule \<times> string) option \<Rightarrow> (string \<times> manager) list \<Rightarrow> (error + policy) go" where
  "NewImplicitMetaPolicy def managers =
     (case def of
        None \<Rightarrow> Ret (Inl (Errorf ''Error unmarshalling to ImplicitMetaPolicy''))
      | Some (rule, subPolicy) \<Rightarrow>
          bind_go (sub_policies subPolicy managers) (\<lambda>subs.
            Ret (Inr (ImplicitMetaPolicy
              (if subs = [] then 0 else rule_threshold rule (length subs)) subs subPolicy))))"

section \<open>Building the policy managers\<close>

text \<open>The provider of \<open>cauthdsl\<close>; \<open>u\<close> unmarshals a signature policy envelope into its version,
  rule and identities.\<close>

definition NewPolicy ::
    "(bytes \<Rightarrow> (int \<times> signature_policy \<times> principal list) option) \<Rightarrow> bytes \<Rightarrow> error + policy" where
  "NewPolicy u data =
     (case u data of
        None \<Rightarrow> Inl (Errorf ''Error unmarshalling to SignaturePolicy'')
      | Some (ver, rule, identities) \<Rightarrow>
          if ver \<noteq> 0 then Inl (Errorf ''This evaluator only understands messages of version 0'')
          else bind_err (compile rule identities) (\<lambda>compiled. Inr (SigPolicy compiled)))"

type_synonym providers = "(int \<times> (bytes \<Rightarrow> error + policy)) list"

abbreviation (input) "Policy_SIGNATURE \<equiv> (1 :: int)"
abbreviation (input) "Policy_IMPLICIT_META \<equiv> (3 :: int)"

definition new_policy ::
    "(bytes \<Rightarrow> (implicit_rule \<times> string) option) \<Rightarrow> providers \<Rightarrow> (string \<times> manager) list
      \<Rightarrow> config_policy \<Rightarrow> (error + policy) go" where
  "new_policy um providers managers cp =
     (case CpPolicy cp of
        None \<Rightarrow> Ret (Inl (Errorf ''policy was nil''))
      | Some pol \<Rightarrow>
          if PpType pol = Policy_IMPLICIT_META then
            bind_go (NewImplicitMetaPolicy (um (PpValue pol)) managers) (\<lambda>r.
              Ret (wrap_err ''implicit policy did not compile'' r))
          else (case map_of providers (PpType pol) of
                  None \<Rightarrow> Ret (Inl (Errorf ''unknown policy type''))
                | Some prov \<Rightarrow> Ret (wrap_err ''policy did not compile'' (prov (PpValue pol)))))"

fun new_policies ::
    "(bytes \<Rightarrow> (implicit_rule \<times> string) option) \<Rightarrow> providers \<Rightarrow> (string \<times> manager) list
      \<Rightarrow> (string \<times> config_policy) list \<Rightarrow> (error + (string \<times> policy) list) go" where
  "new_policies um providers managers [] = Ret (Inr [])"
| "new_policies um providers managers ((name, cp) # rest) =
     bind_res (new_policy um providers managers cp) (\<lambda>p.
     bind_res (new_policies um providers managers rest) (\<lambda>ps. Ret (Inr ((name, p) # ps))))"

text \<open>The policies of a sub-group are visible in its parent as \<open>group/policy\<close>.\<close>

definition overlay_policies :: "(string \<times> manager) list \<Rightarrow> (string \<times> policy) list \<Rightarrow> (string \<times> policy) list" where
  "overlay_policies managers policies =
     fold (\<lambda>(groupName, mgr). fold (\<lambda>(policyName, p). AList.update (groupName @ ''/'' @ policyName) p)
             (mgr_policies mgr)) managers policies"

fun NewManagerImpl ::
    "(bytes \<Rightarrow> (implicit_rule \<times> string) option) \<Rightarrow> string \<Rightarrow> providers \<Rightarrow> config_group \<Rightarrow> (error + manager) go"
  and new_managers ::
    "(bytes \<Rightarrow> (implicit_rule \<times> string) option) \<Rightarrow> string \<Rightarrow> providers \<Rightarrow> (string \<times> config_group) list
      \<Rightarrow> (error + (string \<times> manager) list) go" where
  "NewManagerImpl um path providers (ConfigGroup v gs vs ps mp) =
     (if map_of providers Policy_IMPLICIT_META \<noteq> None
      then Panic ''ImplicitMetaPolicy type must be provider by the policy manager''
      else bind_res (new_managers um path providers gs) (\<lambda>managers.
           bind_res (new_policies um providers managers ps) (\<lambda>policies.
             Ret (Inr (ManagerImpl path (overlay_policies managers policies) managers)))))"
| "new_managers um path providers [] = Ret (Inr [])"
| "new_managers um path providers ((name, g) # rest) =
     bind_res (NewManagerImpl um (path @ ''/'' @ name) providers g) (\<lambda>m.
     bind_res (new_managers um path providers rest) (\<lambda>ms. Ret (Inr ((name, m) # ms))))"

section \<open>BFT quorum\<close>

text \<open>Go's integer division truncates toward zero.\<close>

definition go_quot :: "int \<Rightarrow> int \<Rightarrow> int" where
  "go_quot a b = sgn a * sgn b * (\<bar>a\<bar> div \<bar>b\<bar>)"

text \<open>\<open>policies.ComputeBFTQuorum\<close> and the gateway's \<open>computeBFTQuorum\<close>; below \<open>2 ^ 52\<close> nodes
  the \<open>float64\<close> arithmetic is exact.\<close>

definition ComputeBFTQuorum :: "int \<Rightarrow> int \<Rightarrow> int" where
  "ComputeBFTQuorum totalNodes faultyNodes = \<lceil>real_of_int (totalNodes + faultyNodes + 1) / 2\<rceil>"

definition computeBFTQuorum :: "nat \<Rightarrow> int \<times> int" where
  "computeBFTQuorum N =
     (let F = go_quot (int N - 1) 3 in (\<lceil>(real N + real_of_int F + 1) / 2\<rceil>, F))"

text \<open>The block validation policy that \<open>EncodeBFTBlockVerificationPolicy\<close> installs: its rule
  and its identities.\<close>

definition EncodeBFTBlockVerificationPolicy ::
    "codec \<Rightarrow> consenter_info list \<Rightarrow> signature_policy \<times> principal list" where
  "EncodeBFTBlockVerificationPolicy c cons =
     (let n = int (length cons); f = go_quot (n - 1) 3
      in (NOutOf (ComputeBFTQuorum n f) (map (\<lambda>i. SignedBy (int i)) [0..<length cons]),
          map (\<lambda>x. \<lparr>PrincipalClassification = 2,
                    Principal = marshalIdentity c (ConsenterMspId x) (ConsenterIdentity x)\<rparr>) cons))"


section \<open>Soundness of signature policies\<close>

text \<open>
  What it means for a set of identities (positions in the list) to satisfy a policy: a
  \<open>SignedBy\<close> leaf is satisfied by one identity, a gate by disjoint sets for at least \<open>n\<close> of
  its rules. No identity counts twice.
\<close>

inductive satisfied_by :: "('id \<Rightarrow> principal \<Rightarrow> bool) \<Rightarrow> 'id list \<Rightarrow> compiled \<Rightarrow> nat set \<Rightarrow> bool"
  and satisfied_rules ::
    "('id \<Rightarrow> principal \<Rightarrow> bool) \<Rightarrow> 'id list \<Rightarrow> compiled list \<Rightarrow> nat set \<Rightarrow> nat \<Rightarrow> bool"
  for sat ids where
  leaf: "i < length ids \<Longrightarrow> sat (ids ! i) p \<Longrightarrow> satisfied_by sat ids (CSignedBy p) {i}"
| gate: "satisfied_rules sat ids rs A k \<Longrightarrow> n \<le> int k \<Longrightarrow> satisfied_by sat ids (CNOutOf n rs) A"
| none: "satisfied_rules sat ids [] {} 0"
| skip: "satisfied_rules sat ids rs A k \<Longrightarrow> satisfied_rules sat ids (r # rs) A k"
| take: "satisfied_by sat ids r B \<Longrightarrow> satisfied_rules sat ids rs A k \<Longrightarrow> A \<inter> B = {} \<Longrightarrow>
         satisfied_rules sat ids (r # rs) (A \<union> B) (Suc k)"

definition used_set :: "bool list \<Rightarrow> nat set" where
  "used_set us = {i. i < length us \<and> us ! i}"

lemma used_set_update: "i < length us \<Longrightarrow> used_set (us[i := True]) = used_set us \<union> {i}"
  by (auto simp: used_set_def nth_list_update split: if_splits)

lemma used_set_fresh: "used_set (replicate n False) = {}"
  by (auto simp: used_set_def)

lemma first_match_Some:
  "first_match sat p ids us = Some i \<Longrightarrow>
   i < length ids \<and> i < length us \<and> \<not> us ! i \<and> sat (ids ! i) p"
proof (induction sat p ids us arbitrary: i rule: first_match.induct)
  case (1 sat p x xs u us)
  then show ?case by (cases i) (auto split: if_splits)
qed auto

lemma evaluate_gate_sound:
  "evaluate sat c ids used = (ok, used') \<Longrightarrow>
     length used' = length used \<and>
     (\<exists>A. used_set used' = used_set used \<union> A \<and> A \<inter> used_set used = {} \<and>
          (ok \<longrightarrow> satisfied_by sat ids c A))"
  "gate sat rs ids used = (v, used') \<Longrightarrow>
     length used' = length used \<and>
     (\<exists>A. used_set used' = used_set used \<union> A \<and> A \<inter> used_set used = {} \<and>
          satisfied_rules sat ids rs A v)"
proof (induction sat c ids used and sat rs ids used arbitrary: ok used' and v used'
    rule: evaluate_gate.induct)
  case (1 sat p ids used)
  then show ?case
  proof (cases "first_match sat p ids used")
    case None
    with 1 show ?thesis by auto
  next
    case (Some i)
    note i = first_match_Some [OF Some]
    have "{i} \<inter> used_set used = {}" using i by (auto simp: used_set_def)
    with 1 Some i show ?thesis
      by (auto simp: used_set_update intro!: exI [of _ "{i}"] leaf)
  qed
next
  case (2 sat n rules ids used)
  obtain v u where g: "gate sat rules ids used = (v, u)" by fastforce
  from "2.IH" [OF g] "2.prems" g show ?case
    by (auto simp: Let_def intro: satisfied_by_satisfied_rules.gate)
next
  case (3 sat ids used)
  then show ?case by (auto intro!: exI [of _ "{}"] none)
next
  case (4 sat r rs ids used)
  obtain ok u1 where e: "evaluate sat r ids used = (ok, u1)" by fastforce
  let ?u = "if ok then u1 else used"
  obtain k u2 where g: "gate sat rs ids ?u = (k, u2)" by fastforce
  have res: "v = (if ok then Suc k else k)" "used' = u2"
    using "4.prems" e g by (auto simp: Let_def)
  from "4.IH"(1) [OF e] obtain B where B: "length u1 = length used"
      "used_set u1 = used_set used \<union> B" "B \<inter> used_set used = {}"
      "ok \<longrightarrow> satisfied_by sat ids r B" by blast
  from "4.IH"(2) [OF e [symmetric] refl g] obtain A where A: "length u2 = length ?u"
      "used_set u2 = used_set ?u \<union> A" "A \<inter> used_set ?u = {}" "satisfied_rules sat ids rs A k"
    by blast
  show ?case
  proof (cases ok)
    case True
    have "satisfied_rules sat ids (r # rs) (A \<union> B) (Suc k)"
      using A B True by (intro satisfied_by_satisfied_rules.take) auto
    with True A B res show ?thesis by (intro conjI exI [of _ "A \<union> B"]) auto
  next
    case False
    with A res show ?thesis by (intro conjI exI [of _ A]) (auto intro: skip)
  qed
qed

lemma evaluate_sound:
  assumes "fst (evaluate sat c ids (replicate (length ids) False))"
  shows "\<exists>A. A \<subseteq> {..<length ids} \<and> satisfied_by sat ids c A"
proof -
  obtain u where e: "evaluate sat c ids (replicate (length ids) False) = (True, u)"
    using assms by (metis prod.collapse)
  from evaluate_gate_sound(1) [OF e] obtain A where "length u = length ids"
      "used_set u = A" "satisfied_by sat ids c A"
    by (auto simp: used_set_fresh)
  then show ?thesis by (auto simp: used_set_def)
qed

text \<open>A gate over leaves needs as many identities as its threshold.\<close>

lemma satisfied_rules_card:
  "satisfied_rules sat ids (map CSignedBy ps) A k \<Longrightarrow> finite A \<and> card A = k \<and>
     (\<forall>i\<in>A. i < length ids \<and> (\<exists>p\<in>set ps. sat (ids ! i) p))"
proof (induction ps arbitrary: A k)
  case Nil
  then show ?case by (auto elim: satisfied_rules.cases)
next
  case (Cons p ps)
  from Cons.prems show ?case
  proof (cases rule: satisfied_rules.cases)
    case (skip rs r)
    then show ?thesis using Cons.IH by fastforce
  next
    case (take r B rs A' k')
    then obtain i where "B = {i}" "i < length ids" "sat (ids ! i) p"
      by (auto elim: satisfied_by.cases)
    with take Cons.IH [of A' k'] show ?thesis by auto
  qed simp
qed

lemma compile_rules_leaves:
  "list_all (\<lambda>i. i < length ids) is \<Longrightarrow>
   compile_rules (map (\<lambda>i. SignedBy (int i)) is) ids = Inr (map (\<lambda>i. CSignedBy (ids ! i)) is)"
  by (induction "is") auto


section \<open>Quorums\<close>

lemma ComputeBFTQuorum_eq: "ComputeBFTQuorum n f = (n + f + 2) div 2"
proof -
  have "\<lceil>real_of_int m / 2\<rceil> = (m + 1) div 2" for m
    by (rule ceiling_unique) linarith+
  from this [of "n + f + 1"] show ?thesis
    by (simp add: ComputeBFTQuorum_def add.assoc)
qed

lemma go_quot_3: "0 < N \<Longrightarrow> go_quot (int N - 1) 3 = (int N - 1) div 3"
  by (cases "N = 1") (auto simp: go_quot_def)

lemma computeBFTQuorum_eq:
  "computeBFTQuorum N = (ComputeBFTQuorum (int N) (go_quot (int N - 1) 3), go_quot (int N - 1) 3)"
  by (simp add: computeBFTQuorum_def ComputeBFTQuorum_def Let_def)

lemma BFT_quorum_bounds:
  assumes "0 < N" and "computeBFTQuorum N = (Q, F)"
  shows "0 \<le> F" "3 * F + 1 \<le> int N" "int N \<le> 3 * F + 3" "int N + F + 1 \<le> 2 * Q" "Q \<le> int N - F" "0 < Q"
proof -
  have F: "F = (int N - 1) div 3" and Q: "Q = (int N + F + 2) div 2"
    using assms by (auto simp: computeBFTQuorum_eq ComputeBFTQuorum_eq go_quot_3)
  show f: "0 \<le> F" "3 * F + 1 \<le> int N" "int N \<le> 3 * F + 3"
    unfolding F using assms(1) by linarith+
  show "int N + F + 1 \<le> 2 * Q" "Q \<le> int N - F" "0 < Q"
    unfolding Q using f by linarith+
qed

lemma quorum_intersection:
  assumes "finite U" "A \<subseteq> U" "B \<subseteq> U" "card U = N" "q \<le> card A" "q \<le> card B" "N + f + 1 \<le> 2 * q"
  shows "f + 1 \<le> card (A \<inter> B)"
proof -
  have fin: "finite A" "finite B" using assms finite_subset by auto
  have "card A + card B = card (A \<union> B) + card (A \<inter> B)"
    using fin by (rule card_Un_Int)
  moreover have "card (A \<union> B) \<le> N" using assms by (metis card_mono le_sup_iff)
  ultimately show ?thesis using assms by linarith
qed

section \<open>Implicit meta policies\<close>

lemma implicit_loop_pos:
  "0 < t \<Longrightarrow> implicit_loop t rs = None \<longleftrightarrow> t \<le> int (length (filter (\<lambda>r. r = None) rs))"
proof (induction rs arbitrary: t)
  case Nil
  then show ?case by simp
next
  case (Cons r rs)
  show ?case
  proof (cases "r = None \<and> t \<noteq> 1")
    case True
    with Cons.prems Cons.IH [of "t - 1"] show ?thesis by auto
  next
    case False
    with Cons show ?thesis by auto
  qed
qed

lemma implicit_loop_neg: "t < 0 \<Longrightarrow> implicit_loop t rs \<noteq> None"
  by (induction rs arbitrary: t) auto

lemma implicit_loop_0: "implicit_loop 0 rs = None \<longleftrightarrow> (\<forall>r \<in> set rs. r \<noteq> None)"
  by (induction rs) (auto simp: implicit_loop_neg)

section \<open>Valid identities\<close>

lemma valid_identities_sound:
  "distinct (map (IdentifierKey m) (valid_identities m ks sds)) \<and>
   set (map (IdentifierKey m) (valid_identities m ks sds)) \<inter> set ks = {} \<and>
   (\<forall>x \<in> set (valid_identities m ks sds). \<exists>sd \<in> set sds.
      DeserializeIdentity m (SdIdentity sd) = Some x \<and> VerifySig m x (SdData sd) (SdSignature sd))"
proof (induction m ks sds rule: valid_identities.induct)
  case (2 m ks sd sds)
  then show ?case
    by (auto simp: Let_def split: option.splits)
qed simp

section \<open>Properties\<close>

text \<open>A membership service for the examples: an identity is its own bytes and signs with them.\<close>

definition sample_msp :: "bytes msp" where
  "sample_msp = \<lparr>DeserializeIdentity = Some, IdentifierKey = map (\<lambda>b. char_of (unat b)),
     VerifySig = (\<lambda>i data sig. sig = i), SatisfiesPrincipal = (\<lambda>i p. Principal p = i)\<rparr>"

definition sample_principal :: "byte \<Rightarrow> principal" where
  "sample_principal b = \<lparr>PrincipalClassification = 2, Principal = [b]\<rparr>"

definition sample_signed :: "byte \<Rightarrow> byte \<Rightarrow> signed_data" where
  "sample_signed i s = \<lparr>SdData = [], SdIdentity = [i], SdSignature = [s]\<rparr>"

text \<open>The identities whose signature is valid, and the part of them that a policy used.\<close>

definition valid_signers :: "'id msp \<Rightarrow> signed_data list \<Rightarrow> 'id list \<Rightarrow> bool" where
  "valid_signers m sds ids \<longleftrightarrow> distinct (map (IdentifierKey m) ids) \<and>
     (\<forall>x \<in> set ids. \<exists>sd \<in> set sds.
        DeserializeIdentity m (SdIdentity sd) = Some x \<and> VerifySig m x (SdData sd) (SdSignature sd))"

lemma SignatureSet_valid: "valid_signers m sds (SignatureSetToValidIdentities m sds)"
  using valid_identities_sound [of m "[]" sds]
  by (simp add: valid_signers_def SignatureSetToValidIdentities_def)

lemma SigPolicy_sound:
  assumes "EvaluateSignedData m (SigPolicy cp) sds = None"
  shows "\<exists>ids A. valid_signers m sds ids \<and> A \<subseteq> {..<length ids} \<and> satisfied_by (SatisfiesPrincipal m) ids cp A"
proof -
  have "fst (evaluate (SatisfiesPrincipal m) cp (SignatureSetToValidIdentities m sds)
          (replicate (length (SignatureSetToValidIdentities m sds)) False))"
    using assms by (simp split: if_splits)
  from evaluate_sound [OF this] SignatureSet_valid [of m sds] show ?thesis by blast
qed

text \<open>C10: when a signature policy accepts a signature set, there are pairwise different identities,
  each with a valid signature in the set, and a set of them that satisfies the policy's rule in
  the sense of the declarative semantics \<open>satisfied_by\<close>, in which no identity counts for two
  rules of a gate.\<close>

theorem signature_policy_sound:
  assumes "EvaluateSignedData m (SigPolicy cp) sds = None"
  shows "\<exists>ids A. valid_signers m sds ids \<and> A \<subseteq> {..<length ids} \<and> satisfied_by (SatisfiesPrincipal m) ids cp A"
  using assms by (rule SigPolicy_sound)

definition sample_gate :: compiled where
  "sample_gate = CNOutOf 2 [CSignedBy (sample_principal 1), CSignedBy (sample_principal 2), CSignedBy (sample_principal 3)]"

lemma sample_gate_accepts:
  "EvaluateSignedData sample_msp (SigPolicy sample_gate) [sample_signed 3 3, sample_signed 1 1, sample_signed 2 7] = None"
  by code_simp

theorem signature_policy_sound_witness:
  "\<exists>ids A. valid_signers sample_msp [sample_signed 3 3, sample_signed 1 1, sample_signed 2 7] ids \<and>
     A \<subseteq> {..<length ids} \<and> satisfied_by (SatisfiesPrincipal sample_msp) ids sample_gate A"
  by (rule signature_policy_sound [OF sample_gate_accepts])

lemma int_quorum_intersection:
  assumes "finite U" "A \<subseteq> U" "B \<subseteq> U" "int (card U) + F + 1 \<le> 2 * Q" "Q \<le> int (card A)" "Q \<le> int (card B)" "0 \<le> F"
  shows "F + 1 \<le> int (card (A \<inter> B))"
  using quorum_intersection [OF assms(1-3) refl, of "nat Q" "nat F"] assms(4-7) by linarith

text \<open>C31: for a cluster of \<open>N > 0\<close> consenters the quorum size \<open>Q\<close> and the fault bound \<open>F\<close> satisfy
  \<open>3 F < N\<close>; any two quorums share at least \<open>F + 1\<close> members, so at least one correct one; and
  the \<open>N - F\<close> correct members alone form a quorum.\<close>

theorem BFT_quorum_correct:
  assumes "0 < card U" and "computeBFTQuorum (card U) = (Q, F)"
    and "A \<subseteq> U" "B \<subseteq> U" "Q \<le> int (card A)" "Q \<le> int (card B)"
  shows "0 \<le> F \<and> 3 * F < int (card U) \<and> F + 1 \<le> int (card (A \<inter> B)) \<and> Q \<le> int (card U) - F"
proof -
  have "finite U" using assms(1) by (simp add: card_gt_0_iff)
  note bounds = BFT_quorum_bounds [OF assms(1,2)]
  show ?thesis
    using int_quorum_intersection [OF \<open>finite U\<close> assms(3,4) bounds(4) assms(5,6) bounds(1)] bounds by linarith
qed

lemma sample_quorum: "computeBFTQuorum 4 = (3, 1)"
  by (simp add: computeBFTQuorum_eq ComputeBFTQuorum_eq go_quot_def)

theorem BFT_quorum_correct_witness:
  "0 \<le> (1 :: int) \<and> 3 * 1 < int (card {0 :: nat, 1, 2, 3}) \<and>
   1 + 1 \<le> int (card ({0 :: nat, 1, 2} \<inter> {1, 2, 3})) \<and> (3 :: int) \<le> int (card {0 :: nat, 1, 2, 3}) - 1"
  using BFT_quorum_correct [of "{0 :: nat, 1, 2, 3}" 3 1 "{0, 1, 2}" "{1, 2, 3}"] sample_quorum by simp

lemma sub_policies_length: "sub_policies sp ms = Ret ps \<Longrightarrow> length ps = length ms"
  by (induction sp ms arbitrary: ps rule: sub_policies.induct) (auto simp: result_simps)

definition satisfied_count :: "'id msp \<Rightarrow> signed_data list \<Rightarrow> policy list \<Rightarrow> nat" where
  "satisfied_count m sds ps = length (filter (\<lambda>p. EvaluateSignedData m p sds = None) ps)"

lemma satisfied_count_le: "satisfied_count m sds ps \<le> length ps"
  by (simp add: satisfied_count_def)

lemma filter_results:
  "length (filter (\<lambda>r. r = None) (map (\<lambda>p. EvaluateSignedData m p sds) ps)) = satisfied_count m sds ps"
  by (simp add: satisfied_count_def filter_map comp_def)

lemma NewImplicitMetaPolicy_eq:
  assumes "NewImplicitMetaPolicy (Some (rule, sp)) ms = Ret (Inr p)"
  obtains subs where "sub_policies sp ms = Ret subs" "length subs = length ms"
    "p = ImplicitMetaPolicy (if ms = [] then 0 else rule_threshold rule (length ms)) subs sp"
proof -
  obtain subs where subs: "sub_policies sp ms = Ret subs"
      "p = ImplicitMetaPolicy (if subs = [] then 0 else rule_threshold rule (length subs)) subs sp"
    using assms by (auto simp: NewImplicitMetaPolicy_def result_simps)
  have len: "length subs = length ms" by (rule sub_policies_length [OF subs(1)])
  then have "subs = [] \<longleftrightarrow> ms = []" by auto
  with that subs len show thesis by simp
qed

definition rule_met :: "implicit_rule \<Rightarrow> nat \<Rightarrow> nat \<Rightarrow> bool" where
  "rule_met rule n k \<longleftrightarrow>
     (case rule of RuleANY \<Rightarrow> n = 0 \<or> 1 \<le> k | RuleALL \<Rightarrow> k = n | RuleMAJORITY \<Rightarrow> n = 0 \<or> n < 2 * k
      | UnknownRule _ \<Rightarrow> k = 0)"

lemma implicit_meta_count:
  assumes "NewImplicitMetaPolicy (Some (rule, sp)) ms = Ret (Inr p)" "sub_policies sp ms = Ret subs"
  shows "EvaluateSignedData m p sds = None \<longleftrightarrow> rule_met rule (length ms) (satisfied_count m sds subs)"
proof -
  let ?rs = "map (\<lambda>p. EvaluateSignedData m p sds) subs" and ?k = "satisfied_count m sds subs"
  let ?t = "if ms = [] then 0 else rule_threshold rule (length ms)"
  have p: "EvaluateSignedData m p sds = implicit_loop ?t ?rs" and len: "length subs = length ms"
    using assms by (auto elim!: NewImplicitMetaPolicy_eq)
  have zero: "implicit_loop 0 ?rs = None \<longleftrightarrow> ?k = 0"
    unfolding implicit_loop_0 satisfied_count_def by (simp add: filter_empty_conv)
  have pos: "0 < t \<Longrightarrow> implicit_loop t ?rs = None \<longleftrightarrow> t \<le> int ?k" for t
    by (simp only: implicit_loop_pos filter_results)
  have le: "?k \<le> length ms" using satisfied_count_le [of m sds subs] len by simp
  show ?thesis
  proof (cases "ms = []")
    case True
    with p zero le show ?thesis by (cases rule) (simp_all add: rule_met_def)
  next
    case False
    then have "0 < length ms" by simp
    with False p pos [of "rule_threshold rule (length ms)"] zero le show ?thesis
      by (cases rule) (simp_all add: rule_met_def, linarith+)
  qed
qed

text \<open>C32: an implicit meta policy over sub-groups accepts a signature set exactly when the number of
  sub-policies that accept it meets the rule: at least one for ANY, all for ALL, a strict
  majority for MAJORITY, with no sub-groups counting as met. A rule number outside the
  enumeration leaves the threshold at zero: such a policy accepts exactly when no sub-policy
  does.\<close>

theorem implicit_meta_semantics:
  assumes "NewImplicitMetaPolicy (Some (rule, sp)) ms = Ret (Inr p)" "sub_policies sp ms = Ret subs"
  shows "EvaluateSignedData m p sds = None \<longleftrightarrow> rule_met rule (length ms) (satisfied_count m sds subs)"
  using assms by (rule implicit_meta_count)

definition sample_managers :: "(string \<times> manager) list" where
  "sample_managers =
     [(''Org1'', ManagerImpl ''Channel/Org1'' [(''Admins'', SigPolicy (CSignedBy (sample_principal 1)))] []),
      (''Org2'', ManagerImpl ''Channel/Org2'' [(''Admins'', SigPolicy (CSignedBy (sample_principal 2)))] []),
      (''Org3'', ManagerImpl ''Channel/Org3'' [] [])]"

definition sample_subs :: "policy list" where
  "sample_subs = [PolicyLogger (SigPolicy (CSignedBy (sample_principal 1))) ''/Channel/Org1/Admins'',
     PolicyLogger (SigPolicy (CSignedBy (sample_principal 2))) ''/Channel/Org2/Admins'', RejectPolicy ''Admins'']"

lemma sample_sub_policies: "sub_policies ''Admins'' sample_managers = Ret sample_subs"
  by (simp add: sample_managers_def sample_subs_def GetPolicy_def)

lemma sample_implicit:
  "NewImplicitMetaPolicy (Some (RuleMAJORITY, ''Admins'')) sample_managers =
   Ret (Inr (ImplicitMetaPolicy 2 sample_subs ''Admins''))"
  by (simp add: NewImplicitMetaPolicy_def sample_sub_policies) (simp add: sample_subs_def)

theorem implicit_meta_semantics_witness:
  "EvaluateSignedData sample_msp (ImplicitMetaPolicy 2 sample_subs ''Admins'') [sample_signed 1 1, sample_signed 2 2] = None \<longleftrightarrow>
   rule_met RuleMAJORITY (length sample_managers)
     (satisfied_count sample_msp [sample_signed 1 1, sample_signed 2 2] sample_subs)"
  by (rule implicit_meta_semantics [OF sample_implicit sample_sub_policies])

text \<open>The policy that verifies the signatures of blocks in a BFT cluster.\<close>

lemma EncodeBFT_compile:
  assumes "EncodeBFTBlockVerificationPolicy c cons = (rule, principals)"
  shows "length principals = length cons \<and>
    compile rule principals =
      Inr (CNOutOf (ComputeBFTQuorum (int (length cons)) (go_quot (int (length cons) - 1) 3)) (map CSignedBy principals))"
proof -
  let ?q = "ComputeBFTQuorum (int (length cons)) (go_quot (int (length cons) - 1) 3)"
  have rule: "rule = NOutOf ?q (map (\<lambda>i. SignedBy (int i)) [0..<length cons])"
    and "principals = map (\<lambda>x. \<lparr>PrincipalClassification = 2,
           Principal = marshalIdentity c (ConsenterMspId x) (ConsenterIdentity x)\<rparr>) cons"
    using assms by (simp_all add: EncodeBFTBlockVerificationPolicy_def Let_def)
  then have len: "length principals = length cons" by simp
  have "compile_rules (map (\<lambda>i. SignedBy (int i)) [0..<length cons]) principals
      = Inr (map (\<lambda>i. CSignedBy (principals ! i)) [0..<length cons])"
    by (rule compile_rules_leaves) (simp add: list_all_iff len)
  also have "map (\<lambda>i. CSignedBy (principals ! i)) [0..<length cons] = map CSignedBy principals"
    by (rule nth_equalityI) (simp_all add: len)
  finally show ?thesis using len by (simp add: rule)
qed

lemma BFT_policy_signers:
  assumes "EncodeBFTBlockVerificationPolicy c cons = (rule, principals)" "cons \<noteq> []"
    and "computeBFTQuorum (length cons) = (Q, F)" "compile rule principals = Inr cp"
    and "EvaluateSignedData m (SigPolicy cp) sds = None"
  shows "\<exists>ids A. valid_signers m sds ids \<and> A \<subseteq> {..<length ids} \<and> Q \<le> int (card A) \<and>
    (\<forall>i \<in> A. \<exists>p \<in> set principals. SatisfiesPrincipal m (ids ! i) p)"
proof -
  obtain ids A where ids: "valid_signers m sds ids" "A \<subseteq> {..<length ids}"
      and sat: "satisfied_by (SatisfiesPrincipal m) ids cp A"
    using SigPolicy_sound [OF assms(5)] by blast
  have cp: "cp = CNOutOf Q (map CSignedBy principals)"
    using EncodeBFT_compile [OF assms(1)] assms(3,4) by (auto simp: computeBFTQuorum_eq)
  from sat obtain k where "satisfied_rules (SatisfiesPrincipal m) ids (map CSignedBy principals) A k" "Q \<le> int k"
    unfolding cp by (auto elim: satisfied_by.cases)
  with satisfied_rules_card [of _ ids principals A k] ids show ?thesis by blast
qed

text \<open>C18: the block verification policy of a BFT cluster always compiles, and when it accepts the
  signatures of a block, at least a quorum of pairwise different identities has validly signed,
  each of them satisfying the principal of a consenter of the cluster.\<close>

theorem BFT_block_policy_quorum:
  assumes "EncodeBFTBlockVerificationPolicy c cons = (rule, principals)" "cons \<noteq> []"
    and "computeBFTQuorum (length cons) = (Q, F)"
  shows "\<exists>cp. compile rule principals = Inr cp \<and>
    (EvaluateSignedData m (SigPolicy cp) sds = None \<longrightarrow>
      (\<exists>ids A. valid_signers m sds ids \<and> A \<subseteq> {..<length ids} \<and> Q \<le> int (card A) \<and>
        (\<forall>i \<in> A. \<exists>p \<in> set principals. SatisfiesPrincipal m (ids ! i) p)))"
  using EncodeBFT_compile [OF assms(1)] BFT_policy_signers [OF assms] by blast

definition sample_cons :: "consenter_info list" where
  "sample_cons = map (\<lambda>i. \<lparr>ConsenterId = of_nat i, ConsenterMspId = ''Org'', ConsenterIdentity = [of_nat i]\<rparr>) [1, 2, 3, 4]"

definition sample_id_codec :: codec where
  "sample_id_codec = sample_codec\<lparr>marshalIdentity := (\<lambda>_ i. i)\<rparr>"

definition sample_bft :: "signature_policy \<times> principal list" where
  "sample_bft = EncodeBFTBlockVerificationPolicy sample_id_codec sample_cons"

definition sample_bft_gate :: compiled where
  "sample_bft_gate = CNOutOf 3 (map (CSignedBy \<circ> sample_principal) [1, 2, 3, 4])"

lemma sample_bft_compile: "compile (fst sample_bft) (snd sample_bft) = Inr sample_bft_gate"
  using EncodeBFT_compile [of sample_id_codec sample_cons "fst sample_bft" "snd sample_bft"]
  by (simp add: sample_bft_def sample_bft_gate_def sample_cons_def ComputeBFTQuorum_eq go_quot_def
      EncodeBFTBlockVerificationPolicy_def Let_def sample_id_codec_def sample_principal_def)

definition sample_block_sigs :: "signed_data list" where
  "sample_block_sigs = [sample_signed 4 4, sample_signed 1 1, sample_signed 3 3]"

lemma sample_bft_accepts:
  "EvaluateSignedData sample_msp (SigPolicy sample_bft_gate) sample_block_sigs = None"
  by code_simp

theorem BFT_block_policy_quorum_witness:
  "\<exists>ids A. valid_signers sample_msp sample_block_sigs ids \<and> A \<subseteq> {..<length ids} \<and>
     3 \<le> int (card A) \<and> (\<forall>i \<in> A. \<exists>p \<in> set (snd sample_bft). SatisfiesPrincipal sample_msp (ids ! i) p)"
proof -
  have "EncodeBFTBlockVerificationPolicy sample_id_codec sample_cons = (fst sample_bft, snd sample_bft)"
    "sample_cons \<noteq> []" "computeBFTQuorum (length sample_cons) = (3, 1)"
    using sample_quorum by (simp_all add: sample_bft_def sample_cons_def eval_nat_numeral)
  from BFT_block_policy_quorum [OF this, of sample_msp sample_block_sigs]
  show ?thesis using sample_bft_compile sample_bft_accepts by auto
qed

end
