(* ===== verification/Configtx.thy ===== *)
theory Configtx
  imports Policies
begin

text \<open>
  Channel configuration updates, \<^verbatim>\<open>common/configtx\<close>: names, the flattened configuration
  map, delta computation, authorisation of an update against the modification policies, and
  the \<open>Validator\<close> with \<open>ProposeConfigUpdate\<close> and \<open>Validate\<close>. Also \<open>NewManagerImpl\<close> of
  \<^verbatim>\<open>common/policies/policy.go\<close>, which builds the policy manager from a configuration.

  A Go map is an association list, updated with \<open>AList.update\<close> and read with \<open>map_of\<close>; a
  \<open>range\<close> over it follows the list.
\<close>

section \<open>Names\<close>

definition in_range :: "char \<Rightarrow> char \<Rightarrow> char \<Rightarrow> bool" where
  "in_range lo hi ch \<longleftrightarrow> (of_char lo :: nat) \<le> of_char ch \<and> (of_char ch :: nat) \<le> of_char hi"

definition config_char :: "char \<Rightarrow> bool" where
  "config_char ch \<longleftrightarrow> in_range CHR ''a'' CHR ''z'' ch \<or> in_range CHR ''A'' CHR ''Z'' ch \<or>
     in_range CHR ''0'' CHR ''9'' ch \<or> ch = CHR ''.'' \<or> ch = CHR ''-''"

definition channel_char :: "char \<Rightarrow> bool" where
  "channel_char ch \<longleftrightarrow> in_range CHR ''a'' CHR ''z'' ch \<or> in_range CHR ''0'' CHR ''9'' ch \<or>
     ch = CHR ''.'' \<or> ch = CHR ''-''"

text \<open>\<open>re.FindString\<close> for \<open>[a-zA-Z0-9.-]+\<close> and \<open>[a-z][a-z0-9.-]*\<close>: the leftmost, longest match.\<close>

definition find_config :: "string \<Rightarrow> string" where
  "find_config s = takeWhile config_char (dropWhile (Not \<circ> config_char) s)"

definition find_channel :: "string \<Rightarrow> string" where
  "find_channel s =
     (case dropWhile (Not \<circ> in_range CHR ''a'' CHR ''z'') s of
        [] \<Rightarrow> []
      | ch # rest \<Rightarrow> ch # takeWhile channel_char rest)"

abbreviation (input) "MaxLength \<equiv> (249 :: nat)"

definition validateConfigID :: "string \<Rightarrow> error option" where
  "validateConfigID configID =
     (if length configID \<le> 0 then Some (Errorf ''config ID illegal, cannot be empty'')
      else if MaxLength < length configID then Some (Errorf ''config ID illegal, cannot be longer than'')
      else if configID = ''.'' \<or> configID = ''..'' then Some (Errorf ''name for config ID is not allowed'')
      else if length (find_config configID) \<noteq> length configID
        then Some (Errorf ''config ID contains illegal characters'')
      else None)"

definition ValidateChannelID :: "string \<Rightarrow> error option" where
  "ValidateChannelID channelID =
     (if length channelID \<le> 0 then Some (Errorf ''channel ID illegal, cannot be empty'')
      else if MaxLength < length channelID then Some (Errorf ''channel ID illegal, cannot be longer than'')
      else if length (find_channel channelID) \<noteq> length channelID
        then Some (Errorf ''contains illegal characters'')
      else None)"

section \<open>Comparables\<close>

datatype config_item = CGroup config_group | CValue config_value | CPolicy config_policy

record comparable =
  item :: config_item
  ckey :: string
  cpath :: "string list"

fun item_version :: "config_item \<Rightarrow> u64" where
  "item_version (CGroup g) = CgVersion g"
| "item_version (CValue v) = CvVersion v"
| "item_version (CPolicy p) = CpVersion p"

fun item_modPolicy :: "config_item \<Rightarrow> string" where
  "item_modPolicy (CGroup g) = CgModPolicy g"
| "item_modPolicy (CValue v) = CvModPolicy v"
| "item_modPolicy (CPolicy p) = CpModPolicy p"

definition version :: "comparable \<Rightarrow> u64" where
  "version cg = item_version (item cg)"

definition modPolicy :: "comparable \<Rightarrow> string" where
  "modPolicy cg = item_modPolicy (item cg)"

definition equalConfigValues :: "config_value \<Rightarrow> config_value \<Rightarrow> bool" where
  "equalConfigValues lhs rhs \<longleftrightarrow> CvVersion lhs = CvVersion rhs \<and> CvModPolicy lhs = CvModPolicy rhs \<and>
     CvValue lhs = CvValue rhs"

definition equalConfigPolicies :: "config_policy \<Rightarrow> config_policy \<Rightarrow> bool" where
  "equalConfigPolicies lhs rhs =
     (if CpVersion lhs \<noteq> CpVersion rhs \<or> CpModPolicy lhs \<noteq> CpModPolicy rhs then False
      else (case (CpPolicy lhs, CpPolicy rhs) of
              (Some p, Some q) \<Rightarrow> PpType p = PpType q \<and> PpValue p = PpValue q
            | (None, None) \<Rightarrow> True
            | _ \<Rightarrow> False))"

text \<open>\<open>subsetOfGroups\<close>, \<open>subsetOfPolicies\<close> and \<open>subsetOfValues\<close> are the same code at three types.\<close>

definition subsetOf :: "(string \<times> 'a) list \<Rightarrow> (string \<times> 'a) list \<Rightarrow> bool" where
  "subsetOf inner outer =
     (if length inner = 0 then True
      else if length outer < length inner then False
      else list_all (\<lambda>(k, _). map_of outer k \<noteq> None) inner)"

definition equalConfigGroup :: "config_group \<Rightarrow> config_group \<Rightarrow> bool" where
  "equalConfigGroup lhs rhs =
     (if CgVersion lhs \<noteq> CgVersion rhs \<or> CgModPolicy lhs \<noteq> CgModPolicy rhs then False
      else if \<not> subsetOf (CgGroups lhs) (CgGroups rhs) \<or> \<not> subsetOf (CgGroups rhs) (CgGroups lhs) \<or>
              \<not> subsetOf (CgPolicies lhs) (CgPolicies rhs) \<or> \<not> subsetOf (CgPolicies rhs) (CgPolicies lhs) \<or>
              \<not> subsetOf (CgValues lhs) (CgValues rhs) \<or> \<not> subsetOf (CgValues rhs) (CgValues lhs)
        then False
      else True)"

fun equals :: "config_item \<Rightarrow> config_item \<Rightarrow> bool" where
  "equals (CGroup g) (CGroup h) = equalConfigGroup g h"
| "equals (CValue v) (CValue w) = equalConfigValues v w"
| "equals (CPolicy p) (CPolicy q) = equalConfigPolicies p q"
| "equals _ _ = False"

section \<open>Flattening\<close>

type_synonym config_map = "(string \<times> comparable) list"

fun join :: "string \<Rightarrow> string list \<Rightarrow> string" where
  "join sep [] = ''''"
| "join sep [x] = x"
| "join sep (x # y # ys) = x @ sep @ join sep (y # ys)"

fun item_prefix :: "config_item \<Rightarrow> string" where
  "item_prefix (CGroup _) = ''[Group]  ''"
| "item_prefix (CValue _) = ''[Value]  ''"
| "item_prefix (CPolicy _) = ''[Policy] ''"

definition fq_path :: "comparable \<Rightarrow> string" where
  "fq_path cg =
     (if cpath cg = [] then item_prefix (item cg) @ ''/'' @ ckey cg
      else item_prefix (item cg) @ ''/'' @ join ''/'' (cpath cg) @ ''/'' @ ckey cg)"

definition addToMap :: "comparable \<Rightarrow> config_map \<Rightarrow> error + config_map" where
  "addToMap cg result =
     (case validateConfigID (ckey cg) of
        Some e \<Rightarrow> Inl (WithMessage e ''illegal characters in key'')
      | None \<Rightarrow> Inr (AList.update (fq_path cg) cg result))"

fun recurseConfig :: "string list \<Rightarrow> config_group \<Rightarrow> config_map \<Rightarrow> error + config_map"
  and recurse_groups :: "string list \<Rightarrow> (string \<times> config_group) list \<Rightarrow> config_map \<Rightarrow> error + config_map" where
  "recurseConfig path (ConfigGroup v gs vs ps mp) result =
     bind_err (addToMap \<lparr>item = CGroup (ConfigGroup v gs vs ps mp), ckey = last path,
                         cpath = butlast path\<rparr> result) (\<lambda>result.
     bind_err (recurse_groups path gs result) (\<lambda>result.
     bind_err (for_each (\<lambda>(key, value). addToMap \<lparr>item = CValue value, ckey = key, cpath = path\<rparr>)
                 vs result) (\<lambda>result.
     for_each (\<lambda>(key, pol). addToMap \<lparr>item = CPolicy pol, ckey = key, cpath = path\<rparr>) ps result)))"
| "recurse_groups path [] result = Inr result"
| "recurse_groups path ((key, g) # gs) result =
     bind_err (recurseConfig (path @ [key]) g result) (recurse_groups path gs)"

definition mapConfig :: "config_group option \<Rightarrow> string \<Rightarrow> error + config_map" where
  "mapConfig channelGroup rootGroupKey =
     (case channelGroup of
        None \<Rightarrow> Inr []
      | Some g \<Rightarrow> recurseConfig [rootGroupKey] g [])"

section \<open>Rebuilding a configuration\<close>

definition hackyFixOrdererCapabilities :: string where
  "hackyFixOrdererCapabilities = ''[Value]  /Channel/Orderer/Capabilities''"

definition fix_mod :: "string \<Rightarrow> string" where
  "fix_mod mp = (if mp = '''' then ''Admins'' else mp)"

definition fix_group :: "config_group \<Rightarrow> config_group" where
  "fix_group g =
     (case g of ConfigGroup v gs vs ps mp \<Rightarrow>
        ConfigGroup v gs
          (map (\<lambda>(k, x). (k, x\<lparr>CvModPolicy := fix_mod (CvModPolicy x)\<rparr>)) vs)
          (map (\<lambda>(k, x). (k, x\<lparr>CpModPolicy := fix_mod (CpModPolicy x)\<rparr>)) ps)
          (fix_mod mp))"

definition map_value :: "config_map \<Rightarrow> string \<Rightarrow> string \<Rightarrow> error + string \<times> config_value" where
  "map_value cm path key =
     (case map_of cm (''[Value]  '' @ path @ ''/'' @ key) of
        None \<Rightarrow> Inl (Errorf ''missing value at path'')
      | Some c \<Rightarrow> (case item c of CValue x \<Rightarrow> Inr (key, x)
                    | _ \<Rightarrow> Inl (Errorf ''ConfigValue not found at value path'')))"

definition map_policy :: "config_map \<Rightarrow> string \<Rightarrow> string \<Rightarrow> error + string \<times> config_policy" where
  "map_policy cm path key =
     (case map_of cm (''[Policy] '' @ path @ ''/'' @ key) of
        None \<Rightarrow> Inl (Errorf ''missing policy at path'')
      | Some c \<Rightarrow> (case item c of CPolicy x \<Rightarrow> Inr (key, x)
                    | _ \<Rightarrow> Inl (Errorf ''ConfigPolicy not found at policy path'')))"

definition key_bytes :: "config_map \<Rightarrow> nat" where
  "key_bytes cm = sum_list (map (length \<circ> fst) cm)"

lemma key_bytes_lookup: "map_of cm k = Some c \<Longrightarrow> length k \<le> key_bytes cm"
  unfolding key_bytes_def by (rule member_le_sum_list) (force dest: map_of_SomeD)+

function recurseConfigMap :: "config_map \<Rightarrow> string \<Rightarrow> error + config_group" where
  "recurseConfigMap cm path =
     (case map_of cm (''[Group]  '' @ path) of
        None \<Rightarrow> Inl (Errorf ''missing group at path'')
      | Some grp \<Rightarrow>
          (case item grp of
             CGroup (ConfigGroup v gs vs ps mp) \<Rightarrow>
               bind_err (traverse (\<lambda>kg. bind_err (recurseConfigMap cm (path @ ''/'' @ fst kg))
                                     (\<lambda>g. Inr (fst kg, g))) gs) (\<lambda>gs'.
               bind_err (traverse (\<lambda>kv. map_value cm path (fst kv)) vs) (\<lambda>vs'.
               bind_err (traverse (\<lambda>kp. map_policy cm path (fst kp)) ps) (\<lambda>ps'.
                 let newConfigGroup = ConfigGroup v gs' vs' ps' mp
                 in Inr (if map_of cm hackyFixOrdererCapabilities \<noteq> None
                         then fix_group newConfigGroup else newConfigGroup))))
           | _ \<Rightarrow> Inl (Errorf ''ConfigGroup not found at group path'')))"
  by pat_completeness auto
termination
  by (relation "measure (\<lambda>(cm, path). key_bytes cm - length path)")
    (auto dest!: key_bytes_lookup)

declare recurseConfigMap.simps [simp del]

definition configMapToConfig :: "config_map \<Rightarrow> string \<Rightarrow> error + config_group" where
  "configMapToConfig configMap rootGroupKey = recurseConfigMap configMap (''/'' @ rootGroupKey)"

text \<open>\<open>proto.Equal\<close> on configuration groups: maps are compared by key.\<close>

fun group_equal :: "config_group \<Rightarrow> config_group \<Rightarrow> bool"
  and groups_equal :: "(string \<times> config_group) list \<Rightarrow> (string \<times> config_group) list \<Rightarrow> bool" where
  "group_equal (ConfigGroup v gs vs ps mp) h \<longleftrightarrow>
     v = CgVersion h \<and> mp = CgModPolicy h \<and> length gs = length (CgGroups h) \<and>
     groups_equal gs (CgGroups h) \<and> map_of vs = map_of (CgValues h) \<and> map_of ps = map_of (CgPolicies h)"
| "groups_equal [] hs = True"
| "groups_equal ((k, g) # gs) hs \<longleftrightarrow>
     (case map_of hs k of None \<Rightarrow> False | Some h \<Rightarrow> group_equal g h) \<and> groups_equal gs hs"

section \<open>The validator\<close>

record validator =
  channelID :: string
  sequence :: u64
  configMap :: config_map
  namespace :: string
  pm :: manager

fun verify_reads :: "config_map \<Rightarrow> config_map \<Rightarrow> error option" where
  "verify_reads cm [] = None"
| "verify_reads cm ((key, val) # rest) =
     (case map_of cm key of
        None \<Rightarrow> Some (Errorf ''existing config does not contain element but was in the read set'')
      | Some existing \<Rightarrow>
          if version existing \<noteq> version val then Some (Errorf ''proposed update requires another version'')
          else verify_reads cm rest)"

definition verifyReadSet :: "validator \<Rightarrow> config_map \<Rightarrow> error option" where
  "verifyReadSet vi readSet = verify_reads (configMap vi) readSet"

definition computeDeltaSet :: "config_map \<Rightarrow> config_map \<Rightarrow> config_map" where
  "computeDeltaSet readSet writeSet =
     filter (\<lambda>(key, val). \<not> (case map_of readSet key of
                               Some readVal \<Rightarrow> version readVal = version val
                             | None \<Rightarrow> False)) writeSet"

fun split_on :: "char \<Rightarrow> string \<Rightarrow> string list" where
  "split_on sep [] = [[]]"
| "split_on sep (ch # s) =
     (if ch = sep then [] # split_on sep s
      else (case split_on sep s of [] \<Rightarrow> [[ch]] | x # xs \<Rightarrow> (ch # x) # xs))"

fun first_error :: "error option list \<Rightarrow> error option" where
  "first_error [] = None"
| "first_error (Some e # _) = Some e"
| "first_error (None # es) = first_error es"

definition validateModPolicy :: "string \<Rightarrow> error option" where
  "validateModPolicy mp =
     (if mp = '''' then Some (Errorf ''mod_policy not set'')
      else (let trimmed = (if hd mp = CHR ''/'' then tl mp else mp)
            in map_option (\<lambda>e. WithMessage e ''path element is invalid'')
                 (first_error (map validateConfigID (split_on CHR ''/'' trimmed)))))"

text \<open>\<open>policyForItem\<close>: \<open>None\<close> stands for a false second result.\<close>

definition found_policy :: "manager \<Rightarrow> string \<Rightarrow> policy option go" where
  "found_policy mgr name =
     bind_go (GetPolicy mgr name) (\<lambda>(p, ok). Ret (if ok then Some p else None))"

definition policyForItem :: "validator \<Rightarrow> comparable \<Rightarrow> policy option go" where
  "policyForItem vi c =
     (let mp = modPolicy c
      in if 0 < length mp \<and> hd mp \<noteq> CHR ''/'' \<and> length (cpath c) \<noteq> 0 then
           (case Manager (pm vi) (tl (cpath c)) of
              None \<Rightarrow> Ret None
            | Some mgr \<Rightarrow>
                (case item c of
                   CGroup _ \<Rightarrow>
                     (case Manager mgr [ckey c] of
                        None \<Rightarrow> Ret None
                      | Some mgr' \<Rightarrow> found_policy mgr' mp)
                 | _ \<Rightarrow> found_policy mgr mp))
         else found_policy (pm vi) mp)"

fun verify_delta :: "'id msp \<Rightarrow> validator \<Rightarrow> signed_data list \<Rightarrow> config_map \<Rightarrow> error option go" where
  "verify_delta m vi sds [] = Ret None"
| "verify_delta m vi sds ((key, val) # rest) =
     (case validateModPolicy (modPolicy val) of
        Some e \<Rightarrow> Ret (Some (WithMessage e ''invalid mod_policy for element''))
      | None \<Rightarrow>
          (case map_of (configMap vi) key of
             None \<Rightarrow>
               if version val \<noteq> 0 then Ret (Some (Errorf ''attempted to set key to version, but key does not exist''))
               else verify_delta m vi sds rest
           | Some existing \<Rightarrow>
               if version val \<noteq> version existing + 1
               then Ret (Some (Errorf ''attempt to set key to version, but key is at version''))
               else bind_go (policyForItem vi existing) (\<lambda>r.
                 case r of
                   None \<Rightarrow> Ret (Some (Errorf ''unexpected missing policy for item''))
                 | Some policy \<Rightarrow>
                     (case EvaluateSignedData m policy sds of
                        Some e \<Rightarrow> Ret (Some (WithMessage e ''policy not satisfied''))
                      | None \<Rightarrow> verify_delta m vi sds rest))))"

definition verifyDeltaSet :: "'id msp \<Rightarrow> validator \<Rightarrow> config_map \<Rightarrow> signed_data list \<Rightarrow> error option go" where
  "verifyDeltaSet m vi deltaSet sds =
     (if length deltaSet = 0 then Ret (Some (Errorf ''delta set was empty -- update would have no effect''))
      else verify_delta m vi sds deltaSet)"

definition verifyFullProposedConfig :: "config_map \<Rightarrow> config_map \<Rightarrow> error option" where
  "verifyFullProposedConfig writeSet full =
     (if list_all (\<lambda>(key, _). map_of full key \<noteq> None) writeSet then None
      else Some (Errorf ''writeset contained key which did not appear in proposed config''))"

definition computeUpdateResult :: "validator \<Rightarrow> config_map \<Rightarrow> config_map" where
  "computeUpdateResult vi updatedConfig =
     fold (\<lambda>(key, val). AList.update key val) updatedConfig (configMap vi)"

definition UnmarshalConfigUpdate :: "config_codec \<Rightarrow> bytes \<Rightarrow> error + config_update" where
  "UnmarshalConfigUpdate cc data =
     (case unmarshalConfigUpdate cc data of None \<Rightarrow> Inl (Errorf ''proto'') | Some u \<Rightarrow> Inr u)"

definition authorizeUpdate ::
    "codec \<Rightarrow> config_codec \<Rightarrow> 'id msp \<Rightarrow> validator \<Rightarrow> config_update_envelope option \<Rightarrow> (error + config_map) go" where
  "authorizeUpdate c cc m vi configUpdateEnv =
     (case configUpdateEnv of
        None \<Rightarrow> Ret (Inl (Errorf ''cannot process nil ConfigUpdateEnvelope''))
      | Some env \<Rightarrow>
          bind_res (Ret (UnmarshalConfigUpdate cc (CueConfigUpdate env))) (\<lambda>configUpdate.
          if CuChannelId configUpdate \<noteq> channelID vi then Ret (Inl (Errorf ''ConfigUpdate for another channel''))
          else
          bind_res (Ret (wrap_err ''error mapping ReadSet''
                           (mapConfig (CuReadSet configUpdate) (namespace vi)))) (\<lambda>readSet.
          fail_if (Ret (verifyReadSet vi readSet)) (\<lambda>e. WithMessage e ''error validating ReadSet'') (
          bind_res (Ret (wrap_err ''error mapping WriteSet''
                           (mapConfig (CuWriteSet configUpdate) (namespace vi)))) (\<lambda>writeSet.
          let deltaSet = computeDeltaSet readSet writeSet in
          bind_res (Ret (ConfigUpdateEnvelopeAsSignedData c env)) (\<lambda>signedData.
          fail_if (verifyDeltaSet m vi deltaSet signedData) (\<lambda>e. WithMessage e ''error validating DeltaSet'') (
          let fullProposedConfig = computeUpdateResult vi deltaSet in
          fail_if (Ret (verifyFullProposedConfig writeSet fullProposedConfig))
            (\<lambda>e. WithMessage e ''full config did not verify'')
            (Ret (Inr fullProposedConfig)))))))))"

definition NewValidatorImpl :: "string \<Rightarrow> config_proto option \<Rightarrow> string \<Rightarrow> manager \<Rightarrow> error + validator" where
  "NewValidatorImpl chan config ns mgr =
     (case config of
        None \<Rightarrow> Inl (Errorf ''nil config parameter'')
      | Some cfg \<Rightarrow>
          if CfgChannelGroup cfg = None then Inl (Errorf ''nil channel group'')
          else if ValidateChannelID chan \<noteq> None then Inl (Errorf ''bad channel ID'')
          else (case mapConfig (CfgChannelGroup cfg) ns of
                  Inl _ \<Rightarrow> Inl (Errorf ''error converting config to map'')
                | Inr cm \<Rightarrow> Inr \<lparr>channelID = chan, sequence = CfgSequence cfg, configMap = cm,
                                 namespace = ns, pm = mgr\<rparr>))"

definition proposeConfigUpdate ::
    "codec \<Rightarrow> config_codec \<Rightarrow> 'id msp \<Rightarrow> validator \<Rightarrow> envelope \<Rightarrow> (error + config_envelope) go" where
  "proposeConfigUpdate c cc m vi configtx =
     (case EnvelopeToConfigUpdate c cc configtx of
        Inl _ \<Rightarrow> Ret (Inl (Errorf ''error converting envelope to config update''))
      | Inr configUpdateEnv \<Rightarrow>
          bind_go (authorizeUpdate c cc m vi (Some configUpdateEnv)) (\<lambda>r.
            case r of
              Inl _ \<Rightarrow> Ret (Inl (Errorf ''error authorizing update''))
            | Inr cm \<Rightarrow>
                (case configMapToConfig cm (namespace vi) of
                   Inl _ \<Rightarrow> Ret (Inl (Errorf ''could not turn configMap back to channelGroup''))
                 | Inr channelGroup \<Rightarrow>
                     Ret (Inr \<lparr>CeConfig = Some \<lparr>CfgSequence = sequence vi + 1, CfgChannelGroup = Some channelGroup\<rparr>,
                               CeLastUpdate = Some configtx\<rparr>))))"

text \<open>\<open>EnvelopeToConfigUpdate\<close> reads \<open>envelope.Payload\<close>: a nil \<open>LastUpdate\<close> is a nil dereference.\<close>

definition Validate ::
    "codec \<Rightarrow> config_codec \<Rightarrow> 'id msp \<Rightarrow> validator \<Rightarrow> config_envelope option \<Rightarrow> error option go" where
  "Validate c cc m vi configEnv =
     (case configEnv of
        None \<Rightarrow> Ret (Some (Errorf ''config envelope is nil''))
      | Some ce \<Rightarrow>
        (case CeConfig ce of
           None \<Rightarrow> Ret (Some (Errorf ''config envelope has nil config''))
         | Some cfg \<Rightarrow>
           if CfgSequence cfg \<noteq> sequence vi + 1
           then Ret (Some (Errorf ''config currently at another sequence''))
           else
           (case CeLastUpdate ce of
              None \<Rightarrow> Panic ''nil pointer dereference''
            | Some lastUpdate \<Rightarrow>
              (case EnvelopeToConfigUpdate c cc lastUpdate of
                 Inl e \<Rightarrow> Ret (Some e)
               | Inr configUpdateEnv \<Rightarrow>
                 bind_go (authorizeUpdate c cc m vi (Some configUpdateEnv)) (\<lambda>r.
                   case r of
                     Inl e \<Rightarrow> Ret (Some e)
                   | Inr cm \<Rightarrow>
                     (case configMapToConfig cm (namespace vi) of
                        Inl _ \<Rightarrow> Ret (Some (Errorf ''could not turn configMap back to channelGroup''))
                      | Inr channelGroup \<Rightarrow>
                          if (case CfgChannelGroup cfg of
                                None \<Rightarrow> True
                              | Some g \<Rightarrow> \<not> group_equal channelGroup g)
                          then Ret (Some (Errorf ''ConfigEnvelope LastUpdate did not produce the supplied config result''))
                          else Ret None))))))"

section \<open>Names\<close>

lemma find_config_full:
  assumes "length (find_config s) = length s"
  shows "list_all config_char s"
proof -
  let ?d = "dropWhile (Not \<circ> config_char) s"
  have "length (find_config s) \<le> length ?d" and "length ?d \<le> length s"
    by (simp_all add: find_config_def length_takeWhile_le length_dropWhile_le)
  with assms have len: "length ?d = length s" "length (takeWhile config_char ?d) = length ?d"
    by (simp_all add: find_config_def)
  have "takeWhile (Not \<circ> config_char) s @ ?d = s" by (rule takeWhile_dropWhile_id)
  then have "length (takeWhile (Not \<circ> config_char) s) + length ?d = length s"
    by (metis length_append)
  with len(1) have "takeWhile (Not \<circ> config_char) s = []" by simp
  then have "?d = s" by (metis append_Nil takeWhile_dropWhile_id)
  with len(2) have "takeWhile config_char s = s"
    by (metis append_eq_conv_conj takeWhile_dropWhile_id take_all_iff order_refl)
  then show ?thesis by (metis set_takeWhileD Ball_set)
qed

lemma validateConfigID_chars:
  "validateConfigID s = None \<Longrightarrow> s \<noteq> [] \<and> length s \<le> 249 \<and> s \<noteq> ''.'' \<and> s \<noteq> ''..'' \<and> list_all config_char s"
  by (auto simp: validateConfigID_def find_config_full split: if_splits)

lemma slash_not_config_char: "\<not> config_char CHR ''/''"
  by (simp add: config_char_def in_range_def)

lemma validateConfigID_no_slash: "validateConfigID s = None \<Longrightarrow> CHR ''/'' \<notin> set s"
  using validateConfigID_chars slash_not_config_char by (metis Ball_set)

lemma find_channel_full:
  assumes "length (find_channel s) = length s" "s \<noteq> []"
  shows "in_range CHR ''a'' CHR ''z'' (hd s) \<and> list_all channel_char s"
proof -
  let ?P = "Not \<circ> in_range CHR ''a'' CHR ''z''"
  obtain ch rest where d: "dropWhile ?P s = ch # rest"
    using assms by (cases "dropWhile ?P s") (auto simp: find_channel_def)
  have len: "Suc (length (takeWhile channel_char rest)) = length s"
    using assms(1) d by (simp add: find_channel_def)
  have split: "takeWhile ?P s @ ch # rest = s" using takeWhile_dropWhile_id [of ?P s] d by simp
  then have "length (takeWhile ?P s) + Suc (length rest) = length s"
    by (metis length_append length_Cons)
  with len length_takeWhile_le [of channel_char rest]
  have "length (takeWhile ?P s) = 0" and eq: "length (takeWhile channel_char rest) = length rest" by linarith+
  then have eqs: "takeWhile ?P s = []" "length (takeWhile channel_char rest) = length rest" by simp_all
  have "takeWhile channel_char rest = rest"
    using eqs(2) by (metis append_eq_conv_conj takeWhile_dropWhile_id take_all_iff order_refl)
  then have "list_all channel_char rest" by (metis set_takeWhileD Ball_set)
  moreover have "s = ch # rest" using split eqs(1) by simp
  moreover have "in_range CHR ''a'' CHR ''z'' ch"
    using d by (metis comp_apply dropWhile_eq_Cons_conv)
  ultimately show ?thesis by (simp add: channel_char_def)
qed

lemma ValidateChannelID_chars:
  "ValidateChannelID s = None \<Longrightarrow>
   s \<noteq> [] \<and> length s \<le> 249 \<and> in_range CHR ''a'' CHR ''z'' (hd s) \<and> list_all channel_char s"
  using find_channel_full [of s] by (auto simp: ValidateChannelID_def split: if_splits)

section \<open>Fully qualified paths are unambiguous\<close>

lemma append_sep_inj:
  "sep \<notin> set x \<Longrightarrow> sep \<notin> set y \<Longrightarrow> x @ sep # xs = y @ sep # ys \<Longrightarrow> x = y \<and> xs = ys"
proof (induction x arbitrary: y)
  case Nil
  then show ?case by (cases y) auto
next
  case (Cons a x)
  then show ?case by (cases y) auto
qed

lemma join_inj:
  assumes "xs \<noteq> []" "ys \<noteq> []" "\<forall>x \<in> set xs \<union> set ys. CHR ''/'' \<notin> set x"
    and "join ''/'' xs = join ''/'' ys"
  shows "xs = ys"
  using assms
proof (induction xs arbitrary: ys rule: list_nonempty_induct)
  case (single x)
  then obtain y ys' where ys: "ys = y # ys'" by (cases ys) auto
  with single show ?case by (cases ys') auto
next
  case (cons x xs)
  obtain x' xs' where xs: "xs = x' # xs'" using cons.hyps by (cases xs) auto
  obtain y ys' where ys: "ys = y # ys'" using cons.prems by (cases ys) auto
  show ?case
  proof (cases ys')
    case Nil
    with cons.prems ys xs show ?thesis by auto
  next
    case (Cons z zs)
    have "x @ CHR ''/'' # join ''/'' xs = y @ CHR ''/'' # join ''/'' ys'"
      using cons.prems(3) xs ys Cons by simp
    then have "x = y \<and> join ''/'' xs = join ''/'' ys'"
      using cons.prems(2) ys by (intro append_sep_inj) auto
    with cons.IH [of ys'] cons.prems(2) ys Cons show ?thesis by auto
  qed
qed

definition full_path :: "comparable \<Rightarrow> string list" where
  "full_path cg = cpath cg @ [ckey cg]"

lemma join_snoc: "xs \<noteq> [] \<Longrightarrow> join ''/'' (xs @ [x]) = join ''/'' xs @ ''/'' @ x"
  by (induction xs rule: join.induct [of _ "''/''", case_names Nil single cons]) auto

lemma fq_path_full: "fq_path cg = item_prefix (item cg) @ ''/'' @ join ''/'' (full_path cg)"
  by (simp add: fq_path_def full_path_def join_snoc)

lemma fq_path_inj:
  assumes "\<forall>x \<in> set (full_path a) \<union> set (full_path b). CHR ''/'' \<notin> set x"
    and "fq_path a = fq_path b"
  shows "item_prefix (item a) = item_prefix (item b) \<and> full_path a = full_path b"
proof -
  have len: "length (item_prefix i) = 9" for i by (cases i) simp_all
  have "item_prefix (item a) = item_prefix (item b) \<and> join ''/'' (full_path a) = join ''/'' (full_path b)"
    using assms(2) len [of "item a"] len [of "item b"] by (auto simp: fq_path_full)
  moreover have "full_path a \<noteq> []" "full_path b \<noteq> []" by (simp_all add: full_path_def)
  ultimately show ?thesis using join_inj assms(1) by blast
qed

end
