(* ===== verification/Configtx_Facts.thy ===== *)
theory Configtx_Facts
  imports Configtx
begin

text \<open>
  What the configuration machinery guarantees: flattening a configuration into the map of
  its elements and rebuilding it are inverse to each other, and an authorised update changes
  an element only under the modification policy that the element had.
\<close>

section \<open>Flattening and rebuilding a configuration\<close>

text \<open>The elements of a group in the order in which \<open>recurseConfig\<close> enters them.\<close>

fun elements :: "string list \<Rightarrow> config_group \<Rightarrow> comparable list"
  and group_elements :: "string list \<Rightarrow> (string \<times> config_group) list \<Rightarrow> comparable list" where
  "elements path (ConfigGroup v gs vs ps mp) =
     \<lparr>item = CGroup (ConfigGroup v gs vs ps mp), ckey = last path, cpath = butlast path\<rparr> #
     group_elements path gs @
     map (\<lambda>(k, x). \<lparr>item = CValue x, ckey = k, cpath = path\<rparr>) vs @
     map (\<lambda>(k, x). \<lparr>item = CPolicy x, ckey = k, cpath = path\<rparr>) ps"
| "group_elements path [] = []"
| "group_elements path ((k, g) # gs) = elements (path @ [k]) g @ group_elements path gs"

definition enter :: "comparable list \<Rightarrow> config_map \<Rightarrow> config_map" where
  "enter cs = fold (\<lambda>c. AList.update (fq_path c) c) cs"

abbreviation valid_keys :: "comparable list \<Rightarrow> bool" where
  "valid_keys \<equiv> list_all (\<lambda>c. validateConfigID (ckey c) = None)"

lemma addToMap_iff:
  "addToMap c r = Inr r' \<longleftrightarrow> validateConfigID (ckey c) = None \<and> r' = AList.update (fq_path c) c r"
  by (auto simp: addToMap_def split: option.splits)

lemma enter_simps [simp]:
  "enter [] r = r"
  "enter (c # cs) r = enter cs (AList.update (fq_path c) c r)"
  "enter (xs @ ys) r = enter ys (enter xs r)"
  by (simp_all add: enter_def)

lemma for_each_addToMap:
  "for_each (\<lambda>(k, x). addToMap (f k x)) xs r = Inr r' \<longleftrightarrow>
   valid_keys (map (\<lambda>(k, x). f k x) xs) \<and> r' = enter (map (\<lambda>(k, x). f k x) xs) r"
proof (induction xs arbitrary: r)
  case (Cons a xs)
  obtain k x where "a = (k, x)" by (cases a)
  with Cons show ?case by (simp add: result_simps addToMap_iff)
qed auto

lemma recurseConfig_iff:
  "recurseConfig path g r = Inr r' \<longleftrightarrow> valid_keys (elements path g) \<and> r' = enter (elements path g) r"
  "recurse_groups path gs r = Inr r' \<longleftrightarrow>
     valid_keys (group_elements path gs) \<and> r' = enter (group_elements path gs) r"
proof (induction path g r and path gs r arbitrary: r' and r' rule: recurseConfig_recurse_groups.induct)
  case (1 path v gs vs ps mp r)
  show ?case
    by (simp add: result_simps addToMap_iff "1.IH" for_each_addToMap)
next
  case (2 path r)
  then show ?case by auto
next
  case (3 path key g gs r)
  then show ?case by (auto simp: result_simps)
qed

lemma map_of_enter_other: "k \<notin> fq_path ` set cs \<Longrightarrow> map_of (enter cs r) k = map_of r k"
  by (induction cs arbitrary: r) (auto simp: update_conv')

lemma map_of_enter:
  "\<forall>d \<in> set cs. fq_path d = fq_path c \<longrightarrow> d = c \<Longrightarrow> c \<in> set cs \<Longrightarrow>
   map_of (enter cs r) (fq_path c) = Some c"
proof (induction cs arbitrary: r)
  case (Cons d ds)
  show ?case
  proof (cases "c \<in> set ds")
    case True
    with Cons show ?thesis by simp
  next
    case False
    with Cons.prems have "d = c" "fq_path c \<notin> fq_path ` set ds" by auto
    then show ?thesis by (simp add: map_of_enter_other update_conv')
  qed
qed simp

text \<open>The element that a kind and a path below a group denote.\<close>

fun item_at :: "config_group \<Rightarrow> string \<Rightarrow> string list \<Rightarrow> config_item option" where
  "item_at g kind [] = (if kind = ''[Group]  '' then Some (CGroup g) else None)"
| "item_at g kind (k # s) =
     (if s = [] \<and> kind = ''[Value]  '' then map_option CValue (map_of (CgValues g) k)
      else if s = [] \<and> kind = ''[Policy] '' then map_option CPolicy (map_of (CgPolicies g) k)
      else (case map_of (CgGroups g) k of None \<Rightarrow> None | Some g' \<Rightarrow> item_at g' kind s))"

lemma elements_cases:
  assumes "c \<in> set (elements path (ConfigGroup v gs vs ps mp))" "path \<noteq> []"
  obtains (head) "full_path c = path" "item c = CGroup (ConfigGroup v gs vs ps mp)"
    | (sub) "c \<in> set (group_elements path gs)"
    | (val) k x where "(k, x) \<in> set vs" "full_path c = path @ [k]" "item c = CValue x" "ckey c = k"
    | (pol) k x where "(k, x) \<in> set ps" "full_path c = path @ [k]" "item c = CPolicy x" "ckey c = k"
  using assms unfolding elements.simps set_append set_map list.set full_path_def by fastforce

lemma elements_at:
  "path \<noteq> [] \<Longrightarrow> wf_group g \<Longrightarrow> c \<in> set (elements path g) \<Longrightarrow>
     \<exists>s. full_path c = path @ s \<and> item_at g (item_prefix (item c)) s = Some (item c)"
  "path \<noteq> [] \<Longrightarrow> \<forall>g \<in> snd ` set gs. wf_group g \<Longrightarrow> c \<in> set (group_elements path gs) \<Longrightarrow>
     \<exists>k g s. (k, g) \<in> set gs \<and> full_path c = path @ k # s \<and>
       item_at g (item_prefix (item c)) s = Some (item c)"
proof (induction path g and path gs rule: elements_group_elements.induct)
  case (1 path v gs vs ps mp)
  let ?g = "ConfigGroup v gs vs ps mp"
  from "1.prems"(3,1) show ?case
  proof (cases rule: elements_cases)
    case sub
    then obtain k g s where s: "(k, g) \<in> set gs" "full_path c = path @ k # s"
        "item_at g (item_prefix (item c)) s = Some (item c)"
      using "1.IH" "1.prems" by fastforce
    then have "map_of gs k = Some g" using "1.prems"(2) by simp
    moreover have "s \<noteq> [] \<or> item_prefix (item c) = ''[Group]  ''"
      using s(3) by (cases s) (simp_all split: if_splits)
    ultimately have "item_at ?g (item_prefix (item c)) (k # s) = Some (item c)" using s(3) by auto
    with s(2) show ?thesis by blast
  qed (use "1.prems"(2) in simp_all)
next
  case (3 path k g gs)
  then consider "c \<in> set (elements (path @ [k]) g)" | "c \<in> set (group_elements path gs)" by auto
  then show ?case
  proof cases
    case 1
    with "3.IH"(1) "3.prems"(2) obtain s where
      "full_path c = (path @ [k]) @ s \<and> item_at g (item_prefix (item c)) s = Some (item c)" by auto
    then show ?thesis by (intro exI [of _ k] exI [of _ g] exI [of _ s]) simp
  next
    case 2
    with "3.IH"(2) "3.prems"(1,2) show ?thesis by (metis list.set_intros(2) image_insert insertCI list.set(2))
  qed
qed simp

lemma elements_no_slash:
  "valid_keys (elements path g) \<Longrightarrow> \<forall>x \<in> set (butlast path). CHR ''/'' \<notin> set x \<Longrightarrow> path \<noteq> [] \<Longrightarrow>
     \<forall>c \<in> set (elements path g). \<forall>x \<in> set (full_path c). CHR ''/'' \<notin> set x"
  "valid_keys (group_elements path gs) \<Longrightarrow> \<forall>x \<in> set path. CHR ''/'' \<notin> set x \<Longrightarrow> path \<noteq> [] \<Longrightarrow>
     \<forall>c \<in> set (group_elements path gs). \<forall>x \<in> set (full_path c). CHR ''/'' \<notin> set x"
proof (induction path g and path gs rule: elements_group_elements.induct)
  case (1 path v gs vs ps mp)
  obtain p l where p: "path = p @ [l]" using "1.prems"(3) by (cases path rule: rev_cases) auto
  then have path: "\<forall>x \<in> set path. CHR ''/'' \<notin> set x"
    using "1.prems"(1,2) by (simp add: validateConfigID_no_slash)
  have "valid_keys (group_elements path gs)" using "1.prems"(1) by simp
  with "1.IH" path "1.prems"(3)
  have sub: "\<forall>c \<in> set (group_elements path gs). \<forall>x \<in> set (full_path c). CHR ''/'' \<notin> set x" by blast
  show ?case
  proof
    fix c assume c: "c \<in> set (elements path (ConfigGroup v gs vs ps mp))"
    with "1.prems"(1) have "CHR ''/'' \<notin> set (ckey c)"
      unfolding list.pred_set by (blast dest: validateConfigID_no_slash)
    with c "1.prems"(3) sub path show "\<forall>x \<in> set (full_path c). CHR ''/'' \<notin> set x"
      by (cases rule: elements_cases) simp_all
  qed
next
  case (2 path)
  then show ?case by simp
next
  case (3 path k g gs)
  then show ?case by auto
qed

lemma mapConfig_lookup:
  assumes "mapConfig (Some g) rk = Inr cm" "wf_group g" "c \<in> set (elements [rk] g)"
  shows "map_of cm (fq_path c) = Some c"
proof -
  have cm: "cm = enter (elements [rk] g) []" and valid: "valid_keys (elements [rk] g)"
    using assms(1) by (auto simp: mapConfig_def recurseConfig_iff)
  have slash: "\<forall>x \<in> set (full_path d). CHR ''/'' \<notin> set x" if "d \<in> set (elements [rk] g)" for d
    using elements_no_slash(1) [OF valid] that by simp
  have "d = c" if d: "d \<in> set (elements [rk] g)" "fq_path d = fq_path c" for d
  proof -
    have same: "item_prefix (item d) = item_prefix (item c)" "full_path d = full_path c"
      using fq_path_inj [OF _ d(2)] slash [OF d(1)] slash [OF assms(3)] by blast+
    obtain s where "full_path c = [rk] @ s" "item_at g (item_prefix (item c)) s = Some (item c)"
      using elements_at(1) [OF _ assms(2,3)] by blast
    moreover obtain t where "full_path d = [rk] @ t" "item_at g (item_prefix (item d)) t = Some (item d)"
      using elements_at(1) [OF _ assms(2) d(1)] by blast
    ultimately have "item d = item c" using same by simp
    with same(2) show "d = c" by (cases c; cases d) (simp add: full_path_def)
  qed
  then show ?thesis unfolding cm by (intro map_of_enter assms(3)) blast
qed

text \<open>The rebuilt group: the input, with the repair of empty modification policies at every
  level when the orderer capabilities are defined.\<close>

fun repaired :: "bool \<Rightarrow> config_group \<Rightarrow> config_group" where
  "repaired b (ConfigGroup v gs vs ps mp) =
     (let g = ConfigGroup v (map (\<lambda>(k, g). (k, repaired b g)) gs) vs ps mp
      in if b then fix_group g else g)"

lemma repaired_False [simp]: "repaired False g = g"
proof (induction g)
  case (ConfigGroup v gs vs ps mp)
  then have "map (\<lambda>(k, g). (k, repaired False g)) gs = gs" by (intro map_idI) fastforce
  then show ?case by simp
qed

lemma traverse_Inr_map:
  "(\<And>x. x \<in> set xs \<Longrightarrow> f x = Inr (h x)) \<Longrightarrow> traverse f xs = Inr (map h xs)"
  by (induction xs) auto

definition group_path :: "string list \<Rightarrow> string" where
  "group_path path = ''/'' @ join ''/'' path"

lemma recurseConfigMap_elements:
  "path \<noteq> [] \<Longrightarrow> wf_group g \<Longrightarrow> \<forall>c \<in> set (elements path g). map_of cm (fq_path c) = Some c \<Longrightarrow>
     recurseConfigMap cm (group_path path) =
       Inr (repaired (map_of cm hackyFixOrdererCapabilities \<noteq> None) g)"
  "path \<noteq> [] \<Longrightarrow> \<forall>g \<in> snd ` set gs. wf_group g \<Longrightarrow>
     \<forall>c \<in> set (group_elements path gs). map_of cm (fq_path c) = Some c \<Longrightarrow>
     \<forall>(k, g) \<in> set gs. recurseConfigMap cm (group_path path @ ''/'' @ k) =
       Inr (repaired (map_of cm hackyFixOrdererCapabilities \<noteq> None) g)"
proof (induction path g and path gs rule: elements_group_elements.induct)
  case (1 path v gs vs ps mp)
  let ?b = "map_of cm hackyFixOrdererCapabilities \<noteq> None"
  let ?head = "\<lparr>item = CGroup (ConfigGroup v gs vs ps mp), ckey = last path, cpath = butlast path\<rparr>"
  have look: "c \<in> set (elements path (ConfigGroup v gs vs ps mp)) \<Longrightarrow> map_of cm (fq_path c) = Some c" for c
    using "1.prems"(3) by blast
  have head: "map_of cm (''[Group]  '' @ group_path path) = Some ?head"
    using look [of ?head] "1.prems"(1) by (simp add: fq_path_full full_path_def group_path_def)
  have "(k, x) \<in> set vs \<Longrightarrow> map_value cm (group_path path) k = Inr (k, x)" for k x
    using look [of "\<lparr>item = CValue x, ckey = k, cpath = path\<rparr>"] "1.prems"(1)
    by (force simp: map_value_def fq_path_def group_path_def)
  then have vs: "traverse (\<lambda>kv. map_value cm (group_path path) (fst kv)) vs = Inr (map id vs)"
    by (intro traverse_Inr_map) (auto split: prod.splits)
  have "(k, x) \<in> set ps \<Longrightarrow> map_policy cm (group_path path) k = Inr (k, x)" for k x
    using look [of "\<lparr>item = CPolicy x, ckey = k, cpath = path\<rparr>"] "1.prems"(1)
    by (force simp: map_policy_def fq_path_def group_path_def)
  then have ps: "traverse (\<lambda>kp. map_policy cm (group_path path) (fst kp)) ps = Inr (map id ps)"
    by (intro traverse_Inr_map) (auto split: prod.splits)
  have "\<forall>(k, g) \<in> set gs. recurseConfigMap cm (group_path path @ ''/'' @ k) = Inr (repaired ?b g)"
    using "1.IH" "1.prems"(1,2) look by simp
  then have gs: "traverse (\<lambda>kg. bind_err (recurseConfigMap cm (group_path path @ ''/'' @ fst kg)) (\<lambda>g. Inr (fst kg, g))) gs
    = Inr (map (\<lambda>(k, g). (k, repaired ?b g)) gs)"
    by (intro traverse_Inr_map) (auto split: prod.splits)
  show ?case
    unfolding recurseConfigMap.simps [of cm "group_path path"] head
    by (simp only: option.case comparable.simps config_item.case config_group.case gs vs ps bind_err.simps)
      (simp add: Let_def)
next
  case (2 path)
  then show ?case by simp
next
  case (3 path k g gs)
  have "recurseConfigMap cm (group_path (path @ [k])) = Inr (repaired (map_of cm hackyFixOrdererCapabilities \<noteq> None) g)"
    using "3.IH"(1) "3.prems" by simp
  with "3.IH"(2) "3.prems" show ?case by (simp add: group_path_def join_snoc)
qed

lemma configMapToConfig_mapConfig:
  assumes "mapConfig (Some g) rk = Inr cm" "wf_group g"
  shows "configMapToConfig cm rk = Inr (repaired (map_of cm hackyFixOrdererCapabilities \<noteq> None) g)"
  using recurseConfigMap_elements(1) [of "[rk]" g cm] mapConfig_lookup [OF assms] assms(2)
  by (simp add: configMapToConfig_def group_path_def)

section \<open>Well-formed maps\<close>

fun item_wf :: "config_item \<Rightarrow> bool" where
  "item_wf (CGroup g) = wf_group g"
| "item_wf _ = True"

text \<open>Every group of the map has distinct keys, as a Go map has.\<close>

definition map_wf :: "config_map \<Rightarrow> bool" where
  "map_wf cm \<longleftrightarrow> (\<forall>c \<in> ran (map_of cm). item_wf (item c))"

lemma map_wf_update: "map_wf cm \<Longrightarrow> item_wf (item c) \<Longrightarrow> map_wf (AList.update k c cm)"
  by (auto simp: map_wf_def update_conv' ran_def)

lemma map_wf_enter: "map_wf cm \<Longrightarrow> \<forall>c \<in> set cs. item_wf (item c) \<Longrightarrow> map_wf (enter cs cm)"
  by (induction cs arbitrary: cm) (simp_all add: map_wf_update)

lemma elements_wf:
  "wf_group g \<Longrightarrow> \<forall>c \<in> set (elements path g). item_wf (item c)"
  "\<forall>g \<in> snd ` set gs. wf_group g \<Longrightarrow> \<forall>c \<in> set (group_elements path gs). item_wf (item c)"
proof (induction path g and path gs rule: elements_group_elements.induct)
  case (1 path v gs vs ps mp)
  then show ?case by (auto split: prod.splits)
qed auto

definition opt_wf :: "config_group option \<Rightarrow> bool" where
  "opt_wf g \<longleftrightarrow> (case g of None \<Rightarrow> True | Some g \<Rightarrow> wf_group g)"

lemma mapConfig_wf: "mapConfig g rk = Inr cm \<Longrightarrow> opt_wf g \<Longrightarrow> map_wf cm"
  by (auto simp: mapConfig_def opt_wf_def recurseConfig_iff map_wf_def [of "[]"] intro!: map_wf_enter
      dest: elements_wf(1) split: option.splits)

lemma fst_map_snd [simp]: "fst \<circ> (\<lambda>(k, x). (k, f x)) = fst"
  by auto

lemma wf_fix_group: "wf_group g \<Longrightarrow> wf_group (fix_group g)"
  by (cases g) (simp add: fix_group_def)

lemma traverse_keys:
  "traverse f xs = Inr ys \<Longrightarrow> (\<And>x y. f x = Inr y \<Longrightarrow> fst y = fst x) \<Longrightarrow> map fst ys = map fst xs"
proof (induction xs arbitrary: ys)
  case (Cons x xs)
  from Cons.prems(1) obtain z zs where ys: "ys = z # zs" "f x = Inr z" "traverse f xs = Inr zs"
    by (auto simp: result_simps)
  with Cons.IH [OF ys(3) Cons.prems(2)] Cons.prems(2) [OF ys(2)] show ?case by simp
qed simp

lemma traverse_values:
  "traverse f xs = Inr ys \<Longrightarrow> y \<in> set ys \<Longrightarrow> \<exists>x \<in> set xs. f x = Inr y"
  by (induction xs arbitrary: ys) (auto simp: result_simps)

lemma recurseConfigMap_wf: "map_wf cm \<Longrightarrow> recurseConfigMap cm path = Inr g \<Longrightarrow> wf_group g"
proof (induction cm path arbitrary: g rule: recurseConfigMap.induct)
  case (1 cm path)
  obtain c where c: "map_of cm (''[Group]  '' @ path) = Some c"
    using "1.prems"(2) by (subst (asm) recurseConfigMap.simps) (auto split: option.splits)
  obtain v gs vs ps mp where it: "item c = CGroup (ConfigGroup v gs vs ps mp)"
    using "1.prems"(2) c
    by (subst (asm) recurseConfigMap.simps) (auto split: config_item.splits config_group.splits)
  let ?sub = "\<lambda>kg. bind_err (recurseConfigMap cm (path @ ''/'' @ fst kg)) (\<lambda>g. Inr (fst kg, g))"
  obtain gs' vs' ps' where new: "traverse ?sub gs = Inr gs'"
      "traverse (\<lambda>kv. map_value cm path (fst kv)) vs = Inr vs'"
      "traverse (\<lambda>kp. map_policy cm path (fst kp)) ps = Inr ps'"
      "g = fix_group (ConfigGroup v gs' vs' ps' mp) \<or> g = ConfigGroup v gs' vs' ps' mp"
    using "1.prems"(2) unfolding recurseConfigMap.simps [of cm path] c option.case it config_item.case config_group.case
    by (auto simp: result_simps Let_def split: if_splits)
  have keys: "map fst gs' = map fst gs" "map fst vs' = map fst vs" "map fst ps' = map fst ps"
    using new(1-3) by (auto intro!: traverse_keys simp: result_simps map_value_def map_policy_def
        split: option.splits config_item.splits)
  have "wf_group (ConfigGroup v gs vs ps mp)"
    using "1.prems"(1) ranI [of "map_of cm", OF c] it by (metis map_wf_def item_wf.simps(1))
  moreover have "wf_group h" if "h \<in> snd ` set gs'" for h
  proof -
    from that obtain k where "(k, h) \<in> set gs'" by auto
    from traverse_values [OF new(1) this] obtain kg where "kg \<in> set gs" "recurseConfigMap cm (path @ ''/'' @ fst kg) = Inr h"
      by (auto simp: result_simps)
    with "1.IH" [OF c it refl] "1.prems"(1) show ?thesis by blast
  qed
  ultimately have "wf_group (ConfigGroup v gs' vs' ps' mp)" using keys by simp
  with new(4) show ?case by (auto intro: wf_fix_group)
qed

section \<open>Proposals are valid\<close>

lemma groups_equalI:
  "\<forall>(k, g) \<in> set gs. map_of hs k = Some g \<and> group_equal g g \<Longrightarrow> groups_equal gs hs"
  by (induction gs) auto

lemma group_equal_refl: "wf_group g \<Longrightarrow> group_equal g g"
proof (induction g)
  case (ConfigGroup v gs vs ps mp)
  then have "\<forall>(k, g) \<in> set gs. map_of gs k = Some g \<and> group_equal g g" by fastforce
  from groups_equalI [OF this] show ?case by simp
qed

lemma computeUpdateResult_lookup:
  assumes "map_of (computeUpdateResult vi ds) k \<noteq> map_of (configMap vi) k"
  shows "\<exists>val. (k, val) \<in> set ds \<and> map_of (computeUpdateResult vi ds) k = Some val"
proof -
  have "map_of (fold (\<lambda>(k, val). AList.update k val) ds cm) k \<noteq> map_of cm k \<Longrightarrow>
    \<exists>val. (k, val) \<in> set ds \<and> map_of (fold (\<lambda>(k, val). AList.update k val) ds cm) k = Some val" for cm
  proof (induction ds arbitrary: cm)
    case (Cons d ds)
    obtain k' val where d: "d = (k', val)" by (cases d)
    let ?cm = "AList.update k' val cm"
    show ?case
    proof (cases "map_of (fold (\<lambda>(k, val). AList.update k val) ds ?cm) k = map_of ?cm k")
      case True
      with Cons.prems d have "k' = k" by (auto simp: update_conv' split: if_splits)
      with True d show ?thesis by (simp add: update_conv')
    next
      case False
      with Cons.IH d show ?thesis by auto
    qed
  qed simp
  with assms show ?thesis by (simp add: computeUpdateResult_def)
qed

lemma computeUpdateResult_wf:
  assumes "map_wf (configMap vi)" "\<forall>(k, val) \<in> set ds. item_wf (item val)"
  shows "map_wf (computeUpdateResult vi ds)"
  using assms unfolding computeUpdateResult_def
  by (induction ds arbitrary: vi rule: rev_induct) (auto simp: map_wf_update)

text \<open>What the checks of the delta set have established.\<close>

definition authorized_change ::
    "'id msp \<Rightarrow> validator \<Rightarrow> signed_data list \<Rightarrow> string \<Rightarrow> comparable \<Rightarrow> bool" where
  "authorized_change m vi sds key val \<longleftrightarrow>
     validateModPolicy (modPolicy val) = None \<and>
     (case map_of (configMap vi) key of
        None \<Rightarrow> version val = 0
      | Some existing \<Rightarrow> version val = version existing + 1 \<and>
          (\<exists>p. policyForItem vi existing = Ret (Some p) \<and> EvaluateSignedData m p sds = None))"

lemma verify_delta_Cons:
  assumes "verify_delta m vi sds ((key, val) # rest) = Ret None"
  shows "authorized_change m vi sds key val \<and> verify_delta m vi sds rest = Ret None"
proof -
  have ok: "validateModPolicy (modPolicy val) = None"
    using assms by (simp split: option.splits)
  show ?thesis
  proof (cases "map_of (configMap vi) key")
    case None
    with assms ok show ?thesis by (simp add: authorized_change_def split: if_splits)
  next
    case (Some existing)
    with assms ok obtain p where "policyForItem vi existing = Ret (Some p)" "EvaluateSignedData m p sds = None"
        "version val = version existing + 1" "verify_delta m vi sds rest = Ret None"
      by (cases "policyForItem vi existing") (auto split: if_splits option.splits)
    with Some ok show ?thesis by (simp add: authorized_change_def)
  qed
qed

lemma verify_delta_sound:
  "verify_delta m vi sds ds = Ret None \<Longrightarrow> (key, val) \<in> set ds \<Longrightarrow> authorized_change m vi sds key val"
proof (induction ds)
  case (Cons d ds)
  obtain k v where d: "d = (k, v)" by (cases d)
  from verify_delta_Cons [OF Cons.prems(1) [unfolded d]] Cons.IH Cons.prems(2) d show ?case by auto
qed simp

lemma authorizeUpdate_facts:
  assumes "authorizeUpdate c cc m vi (Some env) = Ret (Inr cm)"
  obtains update readSet writeSet sds where
    "unmarshalConfigUpdate cc (CueConfigUpdate env) = Some update" "CuChannelId update = channelID vi"
    "mapConfig (CuReadSet update) (namespace vi) = Inr readSet"
    "mapConfig (CuWriteSet update) (namespace vi) = Inr writeSet"
    "verifyReadSet vi readSet = None" "ConfigUpdateEnvelopeAsSignedData c env = Inr sds"
    "computeDeltaSet readSet writeSet \<noteq> []"
    "verify_delta m vi sds (computeDeltaSet readSet writeSet) = Ret None"
    "cm = computeUpdateResult vi (computeDeltaSet readSet writeSet)"
    "verifyFullProposedConfig writeSet cm = None"
proof -
  have wrap: "wrap_err msg r = Inr x \<longleftrightarrow> r = Inr x" for msg and r :: "error + config_map" and x
    by (cases r) auto
  show thesis
    using assms that
    by (auto simp: authorizeUpdate_def result_simps wrap Let_def UnmarshalConfigUpdate_def verifyDeltaSet_def
        split: if_splits option.splits)
qed

lemma authorizeUpdate_changes:
  assumes "authorizeUpdate c cc m vi (Some env) = Ret (Inr cm)"
  shows "\<exists>sds. ConfigUpdateEnvelopeAsSignedData c env = Inr sds \<and>
    (\<forall>key. map_of cm key = map_of (configMap vi) key \<or>
       (\<exists>val. map_of cm key = Some val \<and> authorized_change m vi sds key val))"
proof -
  obtain readSet writeSet sds where facts: "ConfigUpdateEnvelopeAsSignedData c env = Inr sds"
      "verify_delta m vi sds (computeDeltaSet readSet writeSet) = Ret None"
      "cm = computeUpdateResult vi (computeDeltaSet readSet writeSet)"
    by (rule authorizeUpdate_facts [OF assms]) blast
  have "map_of cm key = map_of (configMap vi) key \<or>
       (\<exists>val. map_of cm key = Some val \<and> authorized_change m vi sds key val)" for key
    using computeUpdateResult_lookup [of vi _ key] verify_delta_sound [OF facts(2)] facts(3) by blast
  with facts(1) show ?thesis by blast
qed

lemma authorizeUpdate_wf:
  assumes "authorizeUpdate c cc m vi (Some env) = Ret (Inr cm)" "map_wf (configMap vi)"
    and "\<And>data u. unmarshalConfigUpdate cc data = Some u \<Longrightarrow> opt_wf (CuWriteSet u)"
  shows "map_wf cm"
proof (rule authorizeUpdate_facts [OF assms(1)])
  fix u readSet writeSet
  assume u: "unmarshalConfigUpdate cc (CueConfigUpdate env) = Some u"
    and ws: "mapConfig (CuWriteSet u) (namespace vi) = Inr writeSet"
    and cm: "cm = computeUpdateResult vi (computeDeltaSet readSet writeSet)"
  have "distinct (map fst (enter cs r))" if "distinct (map fst r)" for cs and r :: config_map
    using that by (induction cs arbitrary: r) (simp_all add: distinct_update)
  then have dist: "distinct (map fst writeSet)"
    using ws by (auto simp: mapConfig_def recurseConfig_iff split: option.splits)
  have "map_wf writeSet" using mapConfig_wf [OF ws] assms(3) [OF u] by simp
  with dist have "\<forall>(k, val) \<in> set (computeDeltaSet readSet writeSet). item_wf (item val)"
    by (auto simp: computeDeltaSet_def map_wf_def ran_def)
  with cm computeUpdateResult_wf assms(2) show ?thesis by blast
qed

lemma proposeConfigUpdate_facts:
  assumes "proposeConfigUpdate c cc m vi configtx = Ret (Inr ce)"
  obtains env cm g where "EnvelopeToConfigUpdate c cc configtx = Inr env"
    "authorizeUpdate c cc m vi (Some env) = Ret (Inr cm)" "configMapToConfig cm (namespace vi) = Inr g"
    "ce = \<lparr>CeConfig = Some \<lparr>CfgSequence = sequence vi + 1, CfgChannelGroup = Some g\<rparr>,
           CeLastUpdate = Some configtx\<rparr>"
proof -
  obtain env where env: "EnvelopeToConfigUpdate c cc configtx = Inr env"
    using assms by (auto simp: proposeConfigUpdate_def split: sum.splits)
  obtain cm where cm: "authorizeUpdate c cc m vi (Some env) = Ret (Inr cm)"
    using assms env by (cases "authorizeUpdate c cc m vi (Some env)")
      (auto simp: proposeConfigUpdate_def split: sum.splits)
  show thesis
    using assms env cm that by (auto simp: proposeConfigUpdate_def split: sum.splits)
qed

lemma Validate_propose:
  assumes "proposeConfigUpdate c cc m vi configtx = Ret (Inr ce)" "map_wf (configMap vi)"
    and "\<And>data u. unmarshalConfigUpdate cc data = Some u \<Longrightarrow> opt_wf (CuWriteSet u)"
  shows "Validate c cc m vi (Some ce) = Ret None"
proof (rule proposeConfigUpdate_facts [OF assms(1)])
  fix env cm g
  assume facts: "EnvelopeToConfigUpdate c cc configtx = Inr env"
    "authorizeUpdate c cc m vi (Some env) = Ret (Inr cm)" "configMapToConfig cm (namespace vi) = Inr g"
    "ce = \<lparr>CeConfig = Some \<lparr>CfgSequence = sequence vi + 1, CfgChannelGroup = Some g\<rparr>,
           CeLastUpdate = Some configtx\<rparr>"
  have "map_wf cm" by (rule authorizeUpdate_wf [OF facts(2) assms(2,3)])
  then have "wf_group g" using facts(3) recurseConfigMap_wf by (auto simp: configMapToConfig_def)
  with facts show ?thesis by (simp add: Validate_def group_equal_refl)
qed

section \<open>What an accepted update changes\<close>

lemma map_of_keys: "map fst xs = map fst ys \<Longrightarrow> map_of xs k = None \<longleftrightarrow> map_of ys k = None"
  by (metis map_of_eq_None_iff image_set)

text \<open>An element of the rebuilt configuration is an entry of the map, up to the repair of empty modification
  policies; of a group, the version, the modification policy and the keys of its members.\<close>

fun rebuilt_as :: "config_item \<Rightarrow> config_item \<Rightarrow> bool" where
  "rebuilt_as (CValue x') (CValue x) \<longleftrightarrow> x' = x \<or> x' = x\<lparr>CvModPolicy := fix_mod (CvModPolicy x)\<rparr>"
| "rebuilt_as (CPolicy x') (CPolicy x) \<longleftrightarrow> x' = x \<or> x' = x\<lparr>CpModPolicy := fix_mod (CpModPolicy x)\<rparr>"
| "rebuilt_as (CGroup g') (CGroup g) \<longleftrightarrow> CgVersion g' = CgVersion g \<and> CgModPolicy g' \<in> {CgModPolicy g, fix_mod (CgModPolicy g)} \<and>
     map fst (CgGroups g') = map fst (CgGroups g) \<and> map fst (CgValues g') = map fst (CgValues g) \<and>
     map fst (CgPolicies g') = map fst (CgPolicies g)"
| "rebuilt_as _ _ \<longleftrightarrow> False"

lemma map_value_iff:
  "map_value cm path a = Inr (k, x) \<longleftrightarrow> a = k \<and> (\<exists>c. map_of cm (''[Value]  '' @ path @ ''/'' @ k) = Some c \<and> item c = CValue x)"
  unfolding map_value_def by (cases "map_of cm (''[Value]  '' @ path @ ''/'' @ a)") (auto split: config_item.splits)

lemma map_policy_iff:
  "map_policy cm path a = Inr (k, x) \<longleftrightarrow> a = k \<and> (\<exists>c. map_of cm (''[Policy] '' @ path @ ''/'' @ k) = Some c \<and> item c = CPolicy x)"
  unfolding map_policy_def by (cases "map_of cm (''[Policy] '' @ path @ ''/'' @ a)") (auto split: config_item.splits)

lemma recurseConfigMap_cases:
  assumes "recurseConfigMap cm path = Inr g"
  obtains c v gs vs ps mp where "map_of cm (''[Group]  '' @ path) = Some c" "item c = CGroup (ConfigGroup v gs vs ps mp)"
    "rebuilt_as (CGroup g) (CGroup (ConfigGroup v gs vs ps mp))"
    "\<And>k x'. map_of (CgValues g) k = Some x' \<Longrightarrow> \<exists>c. map_of cm (''[Value]  '' @ path @ ''/'' @ k) = Some c \<and> rebuilt_as (CValue x') (item c)"
    "\<And>k x'. map_of (CgPolicies g) k = Some x' \<Longrightarrow> \<exists>c. map_of cm (''[Policy] '' @ path @ ''/'' @ k) = Some c \<and> rebuilt_as (CPolicy x') (item c)"
    "\<And>k gk. map_of (CgGroups g) k = Some gk \<Longrightarrow> recurseConfigMap cm (path @ ''/'' @ k) = Inr gk"
    "traverse (\<lambda>kg. bind_err (recurseConfigMap cm (path @ ''/'' @ fst kg)) (\<lambda>g. Inr (fst kg, g))) gs = Inr (CgGroups g)"
proof -
  obtain c where c: "map_of cm (''[Group]  '' @ path) = Some c"
    using assms by (subst (asm) recurseConfigMap.simps) (auto split: option.splits)
  obtain v gs vs ps mp where it: "item c = CGroup (ConfigGroup v gs vs ps mp)"
    using assms c by (subst (asm) recurseConfigMap.simps) (auto split: config_item.splits config_group.splits)
  obtain gs' vs' ps' where new: "traverse (\<lambda>kg. bind_err (recurseConfigMap cm (path @ ''/'' @ fst kg)) (\<lambda>g. Inr (fst kg, g))) gs = Inr gs'"
      "traverse (\<lambda>kv. map_value cm path (fst kv)) vs = Inr vs'"
      "traverse (\<lambda>kp. map_policy cm path (fst kp)) ps = Inr ps'"
      "g = fix_group (ConfigGroup v gs' vs' ps' mp) \<or> g = ConfigGroup v gs' vs' ps' mp"
    using assms unfolding recurseConfigMap.simps [of cm path] c option.case it config_item.case config_group.case
    by (auto simp: result_simps Let_def split: if_splits)
  have keys: "map fst gs' = map fst gs" "map fst vs' = map fst vs" "map fst ps' = map fst ps"
    using new(1-3) by (auto intro!: traverse_keys simp: result_simps map_value_def map_policy_def
        split: option.splits config_item.splits)
  have fixed: "CgGroups g = gs'" "map fst (CgValues g) = map fst vs'" "map fst (CgPolicies g) = map fst ps'"
    using new(4) by (auto simp: fix_group_def)
  have vals: "\<exists>c. map_of cm (''[Value]  '' @ path @ ''/'' @ k) = Some c \<and> rebuilt_as (CValue x') (item c)"
    if look: "map_of (CgValues g) k = Some x'" for k x'
  proof -
    obtain x where x: "(k, x) \<in> set vs'" "x' = x \<or> x' = x\<lparr>CvModPolicy := fix_mod (CvModPolicy x)\<rparr>"
      using map_of_SomeD [OF look] new(4) by (auto simp: fix_group_def)
    from traverse_values [OF new(2) x(1)] obtain c where "map_of cm (''[Value]  '' @ path @ ''/'' @ k) = Some c" "item c = CValue x"
      unfolding map_value_iff by blast
    with x(2) show ?thesis by auto
  qed
  have pols: "\<exists>c. map_of cm (''[Policy] '' @ path @ ''/'' @ k) = Some c \<and> rebuilt_as (CPolicy x') (item c)"
    if look: "map_of (CgPolicies g) k = Some x'" for k x'
  proof -
    obtain x where x: "(k, x) \<in> set ps'" "x' = x \<or> x' = x\<lparr>CpModPolicy := fix_mod (CpModPolicy x)\<rparr>"
      using map_of_SomeD [OF look] new(4) by (auto simp: fix_group_def)
    from traverse_values [OF new(3) x(1)] obtain c where "map_of cm (''[Policy] '' @ path @ ''/'' @ k) = Some c" "item c = CPolicy x"
      unfolding map_policy_iff by blast
    with x(2) show ?thesis by auto
  qed
  have subs: "recurseConfigMap cm (path @ ''/'' @ k) = Inr gk" if "map_of (CgGroups g) k = Some gk" for k gk
  proof -
    have "(k, gk) \<in> set gs'" using map_of_SomeD [OF that] fixed(1) by simp
    from traverse_values [OF new(1) this] show ?thesis by (auto simp: result_simps)
  qed
  have grp: "rebuilt_as (CGroup g) (CGroup (ConfigGroup v gs vs ps mp))"
    using keys new(4) by (auto simp: fix_group_def)
  show thesis by (rule that [OF c it grp vals pols subs]) (simp_all only: new(1) fixed(1))
qed

lemma traverse_lookup:
  assumes "traverse (\<lambda>kg. bind_err (f (fst kg)) (\<lambda>g. Inr (fst kg, g))) gs = Inr gs'"
  shows "map_of gs k \<noteq> None \<Longrightarrow> \<exists>g. map_of gs' k = Some g \<and> f k = Inr g"
  using assms by (induction gs arbitrary: gs') (auto simp: result_simps split: if_splits)

lemma group_elements_sub: "(k, g) \<in> set gs \<Longrightarrow> set (elements (path @ [k]) g) \<subseteq> set (group_elements path gs)"
  by (induction gs) auto

text \<open>An element that rebuilding drops: the entry of a group on the way to it has changed.\<close>

lemma dropped_by_group:
  assumes "recurseConfigMap cm (group_path path) = Inr g'" "path \<noteq> []"
    and "\<forall>c \<in> set (elements path g). map_of cm0 (fq_path c) = Some c"
    and "item_at g kind s \<noteq> None" "item_at g' kind s = None"
  shows "\<exists>t k u. s = t @ k # u \<and> map_of cm (''[Group]  '' @ group_path (path @ t)) \<noteq> None \<and>
    map_of cm (''[Group]  '' @ group_path (path @ t)) \<noteq> map_of cm0 (''[Group]  '' @ group_path (path @ t))"
  using assms
proof (induction s arbitrary: path g g')
  case Nil
  then show ?case by (auto split: if_splits)
next
  case (Cons k s)
  obtain c v gs vs ps mp where c: "map_of cm (''[Group]  '' @ group_path path) = Some c" "item c = CGroup (ConfigGroup v gs vs ps mp)"
    and same_keys: "rebuilt_as (CGroup g') (CGroup (ConfigGroup v gs vs ps mp))"
    and sub: "traverse (\<lambda>kg. bind_err (recurseConfigMap cm (group_path path @ ''/'' @ fst kg)) (\<lambda>g. Inr (fst kg, g))) gs = Inr (CgGroups g')"
    by (rule recurseConfigMap_cases [OF Cons.prems(1)]) blast
  from same_keys have keys: "map fst (CgValues g') = map fst vs" "map fst (CgPolicies g') = map fst ps" by simp_all
  show ?case
  proof (cases "map_of cm (''[Group]  '' @ group_path path) = map_of cm0 (''[Group]  '' @ group_path path)")
    case False
    with c(1) have "k # s = [] @ k # s \<and> map_of cm (''[Group]  '' @ group_path (path @ [])) \<noteq> None \<and>
      map_of cm (''[Group]  '' @ group_path (path @ [])) \<noteq> map_of cm0 (''[Group]  '' @ group_path (path @ []))" by simp
    then show ?thesis by blast
  next
    case True
    obtain v0 gs0 vs0 ps0 mp0 where g: "g = ConfigGroup v0 gs0 vs0 ps0 mp0" by (cases g)
    let ?head = "\<lparr>item = CGroup g, ckey = last path, cpath = butlast path\<rparr>"
    have "map_of cm0 (fq_path ?head) = Some ?head" using Cons.prems(3) by (simp add: g)
    then have "map_of cm0 (''[Group]  '' @ group_path path) = Some ?head"
      using Cons.prems(2) by (simp add: fq_path_full full_path_def group_path_def)
    with True c g have same: "gs = gs0" "vs = vs0" "ps = ps0" by auto
    have vals: "map_of (CgValues g') k = None \<longleftrightarrow> map_of vs0 k = None" "map_of (CgPolicies g') k = None \<longleftrightarrow> map_of ps0 k = None"
      using map_of_keys [OF keys(1)] map_of_keys [OF keys(2)] by (simp_all only: same)
    have val: "item_at h kind (k # s) = map_option CValue (map_of (CgValues h) k)" if "s = [] \<and> kind = ''[Value]  ''" for h
      using that by (simp only: item_at.simps if_True simp_thms)
    have pol: "item_at h kind (k # s) = map_option CPolicy (map_of (CgPolicies h) k)" if "s = [] \<and> kind = ''[Policy] ''" for h
      using that by simp
    have "(item_at g kind (k # s) = None) = (item_at g' kind (k # s) = None)" if "s = [] \<and> kind = ''[Value]  ''"
      unfolding val [OF that] using vals(1) by (simp add: g)
    moreover have "(item_at g kind (k # s) = None) = (item_at g' kind (k # s) = None)" if "s = [] \<and> kind = ''[Policy] ''"
      unfolding pol [OF that] using vals(2) by (simp add: g)
    ultimately have grp: "\<not> (s = [] \<and> kind = ''[Value]  '')" "\<not> (s = [] \<and> kind = ''[Policy] '')"
      using Cons.prems(4,5) by blast+
    have at: "item_at h kind (k # s) = (case map_of (CgGroups h) k of None \<Rightarrow> None | Some h' \<Rightarrow> item_at h' kind s)" for h
      by (simp only: item_at.simps grp if_False)
    obtain gk where gk: "map_of gs0 k = Some gk" "item_at gk kind s \<noteq> None"
      using Cons.prems(4) unfolding at g by (cases "map_of gs0 k") simp_all
    obtain gk' where gk': "map_of (CgGroups g') k = Some gk'" "recurseConfigMap cm (group_path path @ ''/'' @ k) = Inr gk'"
      using traverse_lookup [OF sub, of k] gk(1) same by auto
    have gone: "item_at gk' kind s = None" using Cons.prems(5) gk'(1) unfolding at by simp
    have rec: "recurseConfigMap cm (group_path (path @ [k])) = Inr gk'"
      using gk'(2) Cons.prems(2) by (simp add: group_path_def join_snoc)
    have els: "\<forall>c \<in> set (elements (path @ [k]) gk). map_of cm0 (fq_path c) = Some c"
      using Cons.prems(3) group_elements_sub [OF map_of_SomeD [OF gk(1)], of path] by (auto simp: g)
    obtain t k' u where "s = t @ k' # u" "map_of cm (''[Group]  '' @ group_path ((path @ [k]) @ t)) \<noteq> None"
        "map_of cm (''[Group]  '' @ group_path ((path @ [k]) @ t)) \<noteq> map_of cm0 (''[Group]  '' @ group_path ((path @ [k]) @ t))"
      using Cons.IH [OF rec _ els gk(2) gone] by blast
    then have "k # s = (k # t) @ k' # u \<and> map_of cm (''[Group]  '' @ group_path (path @ k # t)) \<noteq> None \<and>
      map_of cm (''[Group]  '' @ group_path (path @ k # t)) \<noteq> map_of cm0 (''[Group]  '' @ group_path (path @ k # t))" by simp
    then show ?thesis by blast
  qed
qed

lemma rebuilt_from_map:
  assumes "recurseConfigMap cm (group_path path) = Inr g'" "path \<noteq> []" "item_at g' kind s = Some it'"
  shows "\<exists>c. map_of cm (kind @ group_path (path @ s)) = Some c \<and> rebuilt_as it' (item c)"
  using assms
proof (induction s arbitrary: path g')
  case Nil
  then obtain c v gs vs ps mp where "map_of cm (''[Group]  '' @ group_path path) = Some c" "item c = CGroup (ConfigGroup v gs vs ps mp)"
    "rebuilt_as (CGroup g') (CGroup (ConfigGroup v gs vs ps mp))"
    by (elim recurseConfigMap_cases) auto
  with Nil show ?case by (auto split: if_splits)
next
  case (Cons k s)
  have sub: "group_path (path @ k # s) = group_path ((path @ [k]) @ s)" by simp
  have leaf: "group_path (path @ [k]) = group_path path @ ''/'' @ k" using Cons.prems(2) by (simp add: group_path_def join_snoc)
  obtain c v gs vs ps mp where c: "map_of cm (''[Group]  '' @ group_path path) = Some c" "item c = CGroup (ConfigGroup v gs vs ps mp)"
    and vals: "\<And>k x'. map_of (CgValues g') k = Some x' \<Longrightarrow>
      \<exists>c. map_of cm (''[Value]  '' @ group_path path @ ''/'' @ k) = Some c \<and> rebuilt_as (CValue x') (item c)"
    and pols: "\<And>k x'. map_of (CgPolicies g') k = Some x' \<Longrightarrow>
      \<exists>c. map_of cm (''[Policy] '' @ group_path path @ ''/'' @ k) = Some c \<and> rebuilt_as (CPolicy x') (item c)"
    and gs: "\<And>k gk. map_of (CgGroups g') k = Some gk \<Longrightarrow> recurseConfigMap cm (group_path path @ ''/'' @ k) = Inr gk"
    by (rule recurseConfigMap_cases [OF Cons.prems(1)]) blast
  consider (val) x where "s = []" "kind = ''[Value]  ''" "map_of (CgValues g') k = Some x" "it' = CValue x"
    | (pol) x where "s = []" "kind = ''[Policy] ''" "map_of (CgPolicies g') k = Some x" "it' = CPolicy x"
    | (grp) gk where "map_of (CgGroups g') k = Some gk" "item_at gk kind s = Some it'"
    using Cons.prems(3) by (auto split: if_splits option.splits)
  then show ?case
  proof cases
    case val
    with vals [OF val(3)] leaf show ?thesis by simp
  next
    case pol
    with pols [OF pol(3)] leaf show ?thesis by simp
  next
    case grp
    show ?thesis unfolding sub
      by (rule Cons.IH [OF _ _ grp(2)]) (use gs [OF grp(1)] leaf in simp_all)
  qed
qed

lemma proposed_changes:
  assumes "proposeConfigUpdate c cc m vi configtx = Ret (Inr ce)"
    and "mapConfig (Some g) (namespace vi) = Inr (configMap vi)" "wf_group g"
  obtains env sds g' where "EnvelopeToConfigUpdate c cc configtx = Inr env" "ConfigUpdateEnvelopeAsSignedData c env = Inr sds"
    "CeConfig ce = Some \<lparr>CfgSequence = sequence vi + 1, CfgChannelGroup = Some g'\<rparr>"
    "\<And>kind s it'. item_at g' kind s = Some it' \<Longrightarrow> \<exists>x. rebuilt_as it' (item x) \<and>
       (map_of (configMap vi) (kind @ group_path (namespace vi # s)) = Some x \<or>
        authorized_change m vi sds (kind @ group_path (namespace vi # s)) x)"
    "\<And>kind s. item_at g kind s \<noteq> None \<Longrightarrow> item_at g' kind s = None \<Longrightarrow>
       \<exists>t k u x. s = t @ k # u \<and> authorized_change m vi sds (''[Group]  '' @ group_path (namespace vi # t)) x"
proof (rule proposeConfigUpdate_facts [OF assms(1)])
  fix env cm g'
  assume facts: "EnvelopeToConfigUpdate c cc configtx = Inr env"
    "authorizeUpdate c cc m vi (Some env) = Ret (Inr cm)" "configMapToConfig cm (namespace vi) = Inr g'"
    "ce = \<lparr>CeConfig = Some \<lparr>CfgSequence = sequence vi + 1, CfgChannelGroup = Some g'\<rparr>, CeLastUpdate = Some configtx\<rparr>"
  obtain sds where sds: "ConfigUpdateEnvelopeAsSignedData c env = Inr sds"
    and auth: "\<And>key. map_of cm key = map_of (configMap vi) key \<or>
       (\<exists>val. map_of cm key = Some val \<and> authorized_change m vi sds key val)"
    using authorizeUpdate_changes [OF facts(2)] by blast
  have rec: "recurseConfigMap cm (group_path [namespace vi]) = Inr g'"
    using facts(3) by (simp add: configMapToConfig_def group_path_def)
  have lookup: "\<forall>x \<in> set (elements [namespace vi] g). map_of (configMap vi) (fq_path x) = Some x"
    using mapConfig_lookup [OF assms(2,3)] by blast
  have kept: "\<exists>x. rebuilt_as it' (item x) \<and> (map_of (configMap vi) (kind @ group_path (namespace vi # s)) = Some x \<or>
      authorized_change m vi sds (kind @ group_path (namespace vi # s)) x)" if it: "item_at g' kind s = Some it'" for kind s it'
  proof -
    obtain x where "map_of cm (kind @ group_path ([namespace vi] @ s)) = Some x" "rebuilt_as it' (item x)"
      using rebuilt_from_map [OF rec _ it] by blast
    with auth [of "kind @ group_path ([namespace vi] @ s)"] show ?thesis by auto
  qed
  have dropped: "\<exists>t k u x. s = t @ k # u \<and> authorized_change m vi sds (''[Group]  '' @ group_path (namespace vi # t)) x"
    if gone: "item_at g kind s \<noteq> None" "item_at g' kind s = None" for kind s
  proof -
    obtain t k u where t: "s = t @ k # u" "map_of cm (''[Group]  '' @ group_path ([namespace vi] @ t)) \<noteq>
        map_of (configMap vi) (''[Group]  '' @ group_path ([namespace vi] @ t))"
      using dropped_by_group [OF rec _ lookup gone] by blast
    with auth [of "''[Group]  '' @ group_path ([namespace vi] @ t)"] show ?thesis by auto
  qed
  show thesis by (rule that [OF facts(1) sds _ kept dropped]) (simp_all add: facts(4))
qed

section \<open>Properties\<close>

text \<open>A channel configuration with one value, and an update of that value signed by the identity
  that its modification policy requires.\<close>

definition sample_value :: "u64 \<Rightarrow> byte \<Rightarrow> config_value" where
  "sample_value ver b = \<lparr>CvVersion = ver, CvValue = [b], CvModPolicy = ''A''\<rparr>"

definition sample_group :: "u64 \<Rightarrow> byte \<Rightarrow> config_group" where
  "sample_group ver b = ConfigGroup 0 [] [(''V'', sample_value ver b)] [] ''A''"

definition sample_pm :: manager where
  "sample_pm = ManagerImpl ''C'' [(''A'', SigPolicy (CSignedBy (sample_principal 1)))] []"

definition sample_validator :: validator where
  "sample_validator = \<lparr>channelID = ''ch'', sequence = 7,
     configMap = [(''[Group]  /C'', \<lparr>item = CGroup (sample_group 0 5), ckey = ''C'', cpath = []\<rparr>),
                  (''[Value]  /C/V'', \<lparr>item = CValue (sample_value 0 5), ckey = ''V'', cpath = [''C'']\<rparr>)],
     namespace = ''C'', pm = sample_pm\<rparr>"

definition sample_update :: config_update where
  "sample_update = \<lparr>CuChannelId = ''ch'', CuReadSet = Some (ConfigGroup 0 [] [] [] ''''),
     CuWriteSet = Some (sample_group 1 6)\<rparr>"

definition sample_update_envelope :: config_update_envelope where
  "sample_update_envelope = \<lparr>CueConfigUpdate = [], CueSignatures = [\<lparr>CsSignatureHeader = [], CsSignature = [1]\<rparr>]\<rparr>"

definition sample_config_codec :: config_codec where
  "sample_config_codec = \<lparr>unmarshalConfigEnvelope = (\<lambda>_. None),
     unmarshalConfigUpdateEnvelope = (\<lambda>_. Some sample_update_envelope),
     unmarshalConfigUpdate = (\<lambda>_. Some sample_update)\<rparr>"

definition sample_update_codec :: codec where
  "sample_update_codec = sample_codec\<lparr>
     unmarshalPayload := (\<lambda>_. Some \<lparr>Header = Some \<lparr>ChannelHeaderBytes = Some [], SignatureHeaderBytes = []\<rparr>, Data = []\<rparr>),
     unmarshalChannelHeader := (\<lambda>_. Some \<lparr>HdrType = HeaderType_CONFIG_UPDATE, ChannelId = ''ch'', TxId = ''''\<rparr>),
     unmarshalSignatureHeader := (\<lambda>_. Some \<lparr>Creator = [1], Nonce = []\<rparr>)\<rparr>"

definition sample_configtx :: envelope where
  "sample_configtx = \<lparr>Payload = Some [1], Signature = []\<rparr>"

text \<open>An update of the sample channel that removes its value.\<close>

definition sample_removal :: config_update where
  "sample_removal = \<lparr>CuChannelId = ''ch'', CuReadSet = Some (ConfigGroup 0 [] [] [] ''''),
     CuWriteSet = Some (ConfigGroup 1 [] [] [] ''A'')\<rparr>"

definition sample_removal_codec :: config_codec where
  "sample_removal_codec = sample_config_codec\<lparr>unmarshalConfigUpdate := (\<lambda>_. Some sample_removal)\<rparr>"

lemma sample_removed:
  "proposeConfigUpdate sample_update_codec sample_removal_codec sample_msp sample_validator sample_configtx = Ret (Inr
     \<lparr>CeConfig = Some \<lparr>CfgSequence = 8, CfgChannelGroup = Some (ConfigGroup 1 [] [] [] ''A'')\<rparr>, CeLastUpdate = Some sample_configtx\<rparr>)"
  by code_simp

lemma sample_validator_map: "mapConfig (Some (sample_group 0 5)) (namespace sample_validator) = Inr (configMap sample_validator)"
  by code_simp



text \<open>C19: the configuration envelope that an orderer builds for an accepted update carries the next
  sequence number and the update itself, and a validator in the same state accepts it, provided
  that decoded groups and the current configuration have unique keys.\<close>

theorem proposals_validate:
  assumes "proposeConfigUpdate c cc m vi configtx = Ret (Inr ce)" "map_wf (configMap vi)"
    and "\<And>data u. unmarshalConfigUpdate cc data = Some u \<Longrightarrow> opt_wf (CuWriteSet u)"
  shows "(\<exists>cfg. CeConfig ce = Some cfg \<and> CfgSequence cfg = sequence vi + 1) \<and>
    CeLastUpdate ce = Some configtx \<and> Validate c cc m vi (Some ce) = Ret None"
  by (rule proposeConfigUpdate_facts [OF assms(1)]) (use Validate_propose [OF assms] in simp)

definition sample_config_envelope :: config_envelope where
  "sample_config_envelope =
     \<lparr>CeConfig = Some \<lparr>CfgSequence = 8, CfgChannelGroup = Some (sample_group 1 6)\<rparr>, CeLastUpdate = Some sample_configtx\<rparr>"

lemma sample_propose:
  "proposeConfigUpdate sample_update_codec sample_config_codec sample_msp sample_validator sample_configtx
   = Ret (Inr sample_config_envelope)"
  by code_simp

lemma sample_config_wf:
  "map_wf (configMap sample_validator)"
  "unmarshalConfigUpdate sample_config_codec data = Some u \<Longrightarrow> opt_wf (CuWriteSet u)"
  by (auto simp: map_wf_def ran_def sample_validator_def sample_group_def sample_config_codec_def sample_update_def
      opt_wf_def split: if_splits)

theorem proposals_validate_witness:
  "(\<exists>cfg. CeConfig sample_config_envelope = Some cfg \<and> CfgSequence cfg = sequence sample_validator + 1) \<and>
   CeLastUpdate sample_config_envelope = Some sample_configtx \<and>
   Validate sample_update_codec sample_config_codec sample_msp sample_validator (Some sample_config_envelope) = Ret None"
  by (rule proposals_validate [OF sample_propose sample_config_wf])


definition sample_tree :: config_group where
  "sample_tree = ConfigGroup 3 [(''Orderer'', sample_group 1 2), (''App'', ConfigGroup 0 [] [] [] '''')]
     [(''V'', sample_value 0 9)] [(''P'', \<lparr>CpVersion = 2, CpPolicy = None, CpModPolicy = ''''\<rparr>)] ''A''"

definition sample_capable_tree :: "string \<Rightarrow> config_group" where
  "sample_capable_tree mp = ConfigGroup 3 [(''Orderer'', ConfigGroup 1 [] [(''Capabilities'', sample_value 0 2)] [] mp)]
     [(''V'', sample_value 0 9)] [(''P'', \<lparr>CpVersion = 2, CpPolicy = None, CpModPolicy = mp\<rparr>)] ''A''"

lemma sample_tree_map:
  "case mapConfig (Some sample_tree) ''Channel'' of
     Inl _ \<Rightarrow> False | Inr cm \<Rightarrow> map_of cm hackyFixOrdererCapabilities = None"
  "case mapConfig (Some (sample_capable_tree '''')) ''Channel'' of
     Inl _ \<Rightarrow> False | Inr cm \<Rightarrow> map_of cm hackyFixOrdererCapabilities \<noteq> None"
  by code_simp+


text \<open>C40: an identifier accepted for a configuration element is non-empty, at most 249 characters long,
  not a dot directory, and consists of ASCII letters, digits, dots and dashes; an accepted channel
  name is at most 249 characters of lower-case letters, digits, dots and dashes and starts with
  a letter.\<close>

theorem accepted_names:
  "(validateConfigID s = None \<longrightarrow> s \<noteq> [] \<and> length s \<le> 249 \<and> s \<noteq> ''.'' \<and> s \<noteq> ''..'' \<and> list_all config_char s) \<and>
   (ValidateChannelID s = None \<longrightarrow>
      s \<noteq> [] \<and> length s \<le> 249 \<and> in_range CHR ''a'' CHR ''z'' (hd s) \<and> list_all channel_char s)"
  using validateConfigID_chars ValidateChannelID_chars by blast

theorem accepted_names_witness:
  "list_all config_char ''my-channel.1'' \<and> list_all channel_char ''my-channel.1''"
  using accepted_names [of "''my-channel.1''"]
  by (simp add: validateConfigID_def ValidateChannelID_def find_config_def find_channel_def config_char_def channel_char_def in_range_def)

end
