(* ===== verification/Channel_Config.thy ===== *)
theory Channel_Config
  imports Configtx_Facts Block_Cutter
begin

text \<open>
  The channel configuration, \<^verbatim>\<open>common/channelconfig\<close> and \<^verbatim>\<open>common/capabilities\<close>: parsing a
  channel group into the orderer, application and consortiums sections, validating them, and
  the bundle of resources (\<open>NewBundle\<close>) that the orderer works with.

  The decoders of the single configuration values, the set-up of a membership service
  provider and \<open>time.ParseDuration\<close> are fields of the record \<open>platform\<close>. The handler that
  collects the membership service providers while the organizations are built is threaded
  through the constructors as the association list \<open>idMap\<close>.
\<close>

section \<open>Capabilities\<close>

text \<open>A capabilities message is the list of the names it defines.\<close>

type_synonym caps = "string list"

definition Supported :: "(string \<Rightarrow> bool) \<Rightarrow> caps \<Rightarrow> error option" where
  "Supported hasCapability cs =
     (if list_all hasCapability cs then None else Some (Errorf ''capability is required but not supported''))"

definition channel_HasCapability :: "string \<Rightarrow> bool" where
  "channel_HasCapability cap \<longleftrightarrow>
     cap \<in> set [''V3_0'', ''V2_0'', ''V1_4_3'', ''V1_4_2'', ''V1_3'', ''V1_1'']"

definition MSPVersion :: "caps \<Rightarrow> int" where
  "MSPVersion cs =
     (if ''V3_0'' \<in> set cs then 4
      else if ''V1_4_3'' \<in> set cs \<or> ''V2_0'' \<in> set cs then 3
      else if ''V1_3'' \<in> set cs \<or> ''V1_4_2'' \<in> set cs then 2
      else if ''V1_1'' \<in> set cs then 1
      else 0)"

definition channel_ConsensusTypeMigration :: "caps \<Rightarrow> bool" where
  "channel_ConsensusTypeMigration cs \<longleftrightarrow>
     ''V1_4_2'' \<in> set cs \<or> ''V1_4_3'' \<in> set cs \<or> ''V2_0'' \<in> set cs \<or> ''V3_0'' \<in> set cs"

definition OrgSpecificOrdererEndpoints :: "caps \<Rightarrow> bool" where
  "OrgSpecificOrdererEndpoints cs \<longleftrightarrow>
     ''V1_4_2'' \<in> set cs \<or> ''V1_4_3'' \<in> set cs \<or> ''V2_0'' \<in> set cs \<or> ''V3_0'' \<in> set cs"

definition ConsensusTypeBFT :: "caps \<Rightarrow> bool" where
  "ConsensusTypeBFT cs \<longleftrightarrow> ''V3_0'' \<in> set cs"

definition orderer_HasCapability :: "string \<Rightarrow> bool" where
  "orderer_HasCapability cap \<longleftrightarrow> cap \<in> set [''V1_1'', ''V1_4_2'', ''V2_0'']"

definition ExpirationCheck :: "caps \<Rightarrow> bool" where
  "ExpirationCheck cs \<longleftrightarrow> ''V1_1'' \<in> set cs \<or> ''V1_4_2'' \<in> set cs \<or> ''V2_0'' \<in> set cs"

definition orderer_ConsensusTypeMigration :: "caps \<Rightarrow> bool" where
  "orderer_ConsensusTypeMigration cs \<longleftrightarrow> ''V1_4_2'' \<in> set cs \<or> ''V2_0'' \<in> set cs"

definition ACLs :: "caps \<Rightarrow> bool" where
  "ACLs cs \<longleftrightarrow> ''V1_2'' \<in> set cs \<or> ''V1_3'' \<in> set cs \<or> ''V1_4_2'' \<in> set cs \<or> ''V2_0'' \<in> set cs \<or> ''V2_5'' \<in> set cs"

section \<open>The platform\<close>

text \<open>A consenter of the channel (\<open>cb.Consenter\<close>, and \<open>etcdraft.Consenter\<close> without identity).\<close>

record consenter =
  CnId :: u32
  CnHost :: string
  CnPort :: u32
  CnMspId :: string
  CnIdentity :: bytes
  CnClientTlsCert :: bytes
  CnServerTlsCert :: bytes

record msp_config =
  McType :: int
  McConfig :: bytes

text \<open>Decoders of configuration values; a consensus type is its type, metadata and state.\<close>

record value_codec =
  unmarshalName :: "bytes \<Rightarrow> string option"
  unmarshalWidth :: "bytes \<Rightarrow> u32 option"
  unmarshalAddresses :: "bytes \<Rightarrow> string list option"
  unmarshalOrderers :: "bytes \<Rightarrow> consenter list option"
  unmarshalCapabilities :: "bytes \<Rightarrow> caps option"
  unmarshalConsensusType :: "bytes \<Rightarrow> (string \<times> bytes \<times> int) option"
  unmarshalBatchSize :: "bytes \<Rightarrow> batch_size option"
  unmarshalMaxCount :: "bytes \<Rightarrow> u64 option"
  unmarshalMSPConfig :: "bytes \<Rightarrow> msp_config option"
  unmarshalAnchorPeers :: "bytes \<Rightarrow> (string \<times> int) list option"
  unmarshalACLs :: "bytes \<Rightarrow> (string \<times> string) list option"
  unmarshalPolicy :: "bytes \<Rightarrow> policy_proto option"
  unmarshalSignaturePolicy :: "bytes \<Rightarrow> (int \<times> signature_policy \<times> principal list) option"
  unmarshalImplicitMeta :: "bytes \<Rightarrow> (implicit_rule \<times> string) option"

record 'id platform =
  pCodec :: codec
  pConfigCodec :: config_codec
  pValueCodec :: value_codec
  MSPSetup :: "int \<Rightarrow> msp_config \<Rightarrow> error + string"
  MSPManagerSetup :: "(string \<times> msp_config) list \<Rightarrow> error option"
  MSPManager :: "(string \<times> msp_config) list \<Rightarrow> 'id msp"
  ParseDuration :: "string \<Rightarrow> int option"

section \<open>Deserialising the values of a group\<close>

text \<open>The fields of a structure of messages, by name: each decodes its value into the structure.
  A message that no value sets keeps its zero value.\<close>

type_synonym 'p fields = "(string \<times> (bytes \<Rightarrow> 'p \<Rightarrow> 'p option)) list"

definition set_field :: "(bytes \<Rightarrow> 'v option) \<Rightarrow> ('v \<Rightarrow> 'p \<Rightarrow> 'p) \<Rightarrow> bytes \<Rightarrow> 'p \<Rightarrow> 'p option" where
  "set_field unmarshal upd data p = map_option (\<lambda>v. upd v p) (unmarshal data)"

definition Deserialize :: "'p fields \<Rightarrow> string \<Rightarrow> bytes \<Rightarrow> 'p \<Rightarrow> error + 'p" where
  "Deserialize lookup key value p =
     (case map_of lookup key of
        None \<Rightarrow> Inl (Errorf ''Unexpected key'')
      | Some f \<Rightarrow> (case f value p of None \<Rightarrow> Inl (Errorf ''proto'') | Some p' \<Rightarrow> Inr p'))"

definition DeserializeProtoValuesFromGroup :: "'p fields \<Rightarrow> config_group \<Rightarrow> 'p \<Rightarrow> error + 'p" where
  "DeserializeProtoValuesFromGroup lookup g = for_each (\<lambda>(key, value). Deserialize lookup key (CvValue value)) (CgValues g)"

section \<open>Membership service providers\<close>

type_synonym msps = "(string \<times> msp_config) list"

definition ProposeMSP :: "('id, 'x) platform_scheme \<Rightarrow> int \<Rightarrow> msp_config \<Rightarrow> msps \<Rightarrow> error + string \<times> msps" where
  "ProposeMSP e ver mspConfig idMap =
     (if McType mspConfig \<noteq> 0 \<and> McType mspConfig \<noteq> 1 then Inl (Errorf ''Setup error: unsupported msp type'')
      else bind_err (wrap_err ''setting up the MSP manager failed'' (MSPSetup e ver mspConfig)) (\<lambda>mspID.
        case map_of idMap mspID of
          Some existing \<Rightarrow>
            if existing \<noteq> mspConfig then Inl (Errorf ''Attempted to define two different versions of MSP'')
            else Inr (mspID, idMap)
        | None \<Rightarrow> Inr (mspID, AList.update mspID mspConfig idMap)))"

text \<open>\<open>OrganizationConfig.validateMSP\<close>: the identifier of the organization's provider.\<close>

definition validateMSP :: "('id, 'x) platform_scheme \<Rightarrow> int \<Rightarrow> msp_config \<Rightarrow> msps \<Rightarrow> error + string \<times> msps" where
  "validateMSP e ver mspConfig idMap =
     bind_err (ProposeMSP e ver mspConfig idMap) (\<lambda>(mspID, idMap').
       if mspID = '''' then Inl (Errorf ''MSP for org has empty MSP ID'') else Inr (mspID, idMap'))"

definition zero_msp :: msp_config where
  "zero_msp = \<lparr>McType = 0, McConfig = []\<rparr>"

section \<open>Organizations\<close>

record org =
  OrgName :: string
  OrgMSPID :: string

definition NewOrganizationConfig ::
    "('id, 'x) platform_scheme \<Rightarrow> int \<Rightarrow> string \<Rightarrow> config_group \<Rightarrow> msps \<Rightarrow> error + org \<times> msps" where
  "NewOrganizationConfig e ver name orgGroup idMap =
     (if 0 < length (CgGroups orgGroup) then Inl (Errorf ''organizations do not support sub-groups'')
      else bind_err (wrap_err ''failed to deserialize values''
             (DeserializeProtoValuesFromGroup
                [(''MSP'', set_field (unmarshalMSPConfig (pValueCodec e)) (\<lambda>v _. v))] orgGroup zero_msp)) (\<lambda>mc.
           bind_err (validateMSP e ver mc idMap) (\<lambda>(mspID, idMap').
             Inr (\<lparr>OrgName = name, OrgMSPID = mspID\<rparr>, idMap'))))"

record orderer_org = org +
  Endpoints :: "string list"

definition NewOrdererOrgConfig ::
    "('id, 'x) platform_scheme \<Rightarrow> int \<Rightarrow> caps \<Rightarrow> string \<Rightarrow> config_group \<Rightarrow> msps \<Rightarrow> error + orderer_org \<times> msps" where
  "NewOrdererOrgConfig e ver chCaps orgName orgGroup idMap =
     (if 0 < length (CgGroups orgGroup) then Inl (Errorf ''OrdererOrg config does not allow sub-groups'')
      else if \<not> OrgSpecificOrdererEndpoints chCaps \<and> map_of (CgValues orgGroup) ''Endpoints'' \<noteq> None
        then Inl (Errorf ''Orderer Org cannot contain endpoints value until V1_4_2+ capabilities have been enabled'')
      else bind_err (wrap_err ''failed to deserialize values''
             (DeserializeProtoValuesFromGroup
                [(''Endpoints'', set_field (unmarshalAddresses (pValueCodec e)) (\<lambda>v (_, mc). (v, mc))),
                 (''MSP'', set_field (unmarshalMSPConfig (pValueCodec e)) (\<lambda>v (eps, _). (eps, v)))]
                orgGroup ([], zero_msp))) (\<lambda>(eps, mc).
           bind_err (validateMSP e ver mc idMap) (\<lambda>(mspID, idMap').
             Inr (\<lparr>OrgName = orgName, OrgMSPID = mspID, Endpoints = eps\<rparr>, idMap'))))"

record application_org = org +
  AnchorPeers :: "(string \<times> int) list"

definition NewApplicationOrgConfig ::
    "('id, 'x) platform_scheme \<Rightarrow> int \<Rightarrow> string \<Rightarrow> config_group \<Rightarrow> msps \<Rightarrow> error + application_org \<times> msps" where
  "NewApplicationOrgConfig e ver orgName orgGroup idMap =
     (if 0 < length (CgGroups orgGroup) then Inl (Errorf ''ApplicationOrg config does not allow sub-groups'')
      else bind_err (wrap_err ''failed to deserialize values''
             (DeserializeProtoValuesFromGroup
                [(''AnchorPeers'', set_field (unmarshalAnchorPeers (pValueCodec e)) (\<lambda>v (_, mc). (v, mc))),
                 (''MSP'', set_field (unmarshalMSPConfig (pValueCodec e)) (\<lambda>v (ap, _). (ap, v)))]
                orgGroup ([], zero_msp))) (\<lambda>(ap, mc).
           bind_err (validateMSP e ver mc idMap) (\<lambda>(mspID, idMap').
             Inr (\<lparr>OrgName = orgName, OrgMSPID = mspID, AnchorPeers = ap\<rparr>, idMap'))))"

text \<open>The loops over the sub-groups of a section.\<close>

fun new_orgs ::
    "(string \<Rightarrow> config_group \<Rightarrow> msps \<Rightarrow> error + 'o \<times> msps) \<Rightarrow> (string \<times> config_group) list \<Rightarrow> msps
      \<Rightarrow> error + (string \<times> 'o) list \<times> msps" where
  "new_orgs mk [] idMap = Inr ([], idMap)"
| "new_orgs mk ((name, g) # rest) idMap =
     bind_err (mk name g idMap) (\<lambda>(o1, idMap1).
     bind_err (new_orgs mk rest idMap1) (\<lambda>(os, idMap2). Inr ((name, o1) # os, idMap2)))"

section \<open>The orderer section\<close>

abbreviation (input) "STATE_NORMAL \<equiv> (0 :: int)"
abbreviation (input) "STATE_MAINTENANCE \<equiv> (1 :: int)"

record orderer_config =
  ConsensusType :: string
  ConsensusMetadata :: bytes
  ConsensusState :: int
  BatchSize :: batch_size
  BatchTimeoutString :: string
  BatchTimeout :: int
  KafkaBrokers :: "string list"
  MaxChannelsCount :: u64
  Consenters :: "consenter list"
  OrdererCapabilities :: caps
  OrdererOrgs :: "(string \<times> orderer_org) list"

definition zero_orderer :: orderer_config where
  "zero_orderer = \<lparr>ConsensusType = '''', ConsensusMetadata = [], ConsensusState = STATE_NORMAL,
     BatchSize = \<lparr>MaxMessageCount = 0, AbsoluteMaxBytes = 0, PreferredMaxBytes = 0\<rparr>,
     BatchTimeoutString = '''', BatchTimeout = 0, KafkaBrokers = [], MaxChannelsCount = 0,
     Consenters = [], OrdererCapabilities = [], OrdererOrgs = []\<rparr>"

definition orderer_fields :: "value_codec \<Rightarrow> orderer_config fields" where
  "orderer_fields vc =
     [(''ConsensusType'', set_field (unmarshalConsensusType vc)
         (\<lambda>(t, m, s) p. p\<lparr>ConsensusType := t, ConsensusMetadata := m, ConsensusState := s\<rparr>)),
      (''BatchSize'', set_field (unmarshalBatchSize vc) (\<lambda>v p. p\<lparr>BatchSize := v\<rparr>)),
      (''BatchTimeout'', set_field (unmarshalName vc) (\<lambda>v p. p\<lparr>BatchTimeoutString := v\<rparr>)),
      (''KafkaBrokers'', set_field (unmarshalAddresses vc) (\<lambda>v p. p\<lparr>KafkaBrokers := v\<rparr>)),
      (''ChannelRestrictions'', set_field (unmarshalMaxCount vc) (\<lambda>v p. p\<lparr>MaxChannelsCount := v\<rparr>)),
      (''Orderers'', set_field (unmarshalOrderers vc) (\<lambda>v p. p\<lparr>Consenters := v\<rparr>)),
      (''Capabilities'', set_field (unmarshalCapabilities vc) (\<lambda>v p. p\<lparr>OrdererCapabilities := v\<rparr>))]"

definition validateBatchSize :: "batch_size \<Rightarrow> error option" where
  "validateBatchSize bz =
     (if MaxMessageCount bz = 0 then Some (Errorf ''invalid max message count: 0'')
      else if AbsoluteMaxBytes bz = 0 then Some (Errorf ''invalid absolute max bytes: 0'')
      else if PreferredMaxBytes bz = 0 then Some (Errorf ''invalid preferred max bytes: 0'')
      else if AbsoluteMaxBytes bz < PreferredMaxBytes bz
        then Some (Errorf ''preferred max bytes greater than the absolute max bytes'')
      else None)"

definition validateBatchTimeout :: "('id, 'x) platform_scheme \<Rightarrow> orderer_config \<Rightarrow> error + orderer_config" where
  "validateBatchTimeout e oc =
     (case ParseDuration e (BatchTimeoutString oc) of
        None \<Rightarrow> Inl (Errorf ''Attempted to set the batch timeout to a invalid value'')
      | Some d \<Rightarrow>
          if d \<le> 0 then Inl (Errorf ''Attempted to set the batch timeout to a non-positive value'')
          else Inr (oc\<lparr>BatchTimeout := d\<rparr>))"

definition validateAllOrgsHaveEndpoints :: "orderer_config \<Rightarrow> error option" where
  "validateAllOrgsHaveEndpoints oc =
     (if list_all (\<lambda>(_, og). length (Endpoints og) \<noteq> 0) (OrdererOrgs oc) then None
      else Some (Errorf ''some orderer organizations endpoints are empty''))"

definition NewOrdererConfig ::
    "('id, 'x) platform_scheme \<Rightarrow> int \<Rightarrow> caps \<Rightarrow> config_group \<Rightarrow> msps \<Rightarrow> error + orderer_config \<times> msps" where
  "NewOrdererConfig e ver chCaps g idMap =
     bind_err (wrap_err ''failed to deserialize values''
       (DeserializeProtoValuesFromGroup (orderer_fields (pValueCodec e)) g zero_orderer)) (\<lambda>oc.
     case validateBatchSize (BatchSize oc) of
       Some er \<Rightarrow> Inl er
     | None \<Rightarrow>
       bind_err (validateBatchTimeout e oc) (\<lambda>oc.
       bind_err (new_orgs (NewOrdererOrgConfig e ver chCaps) (CgGroups g) idMap) (\<lambda>(os, idMap').
         let oc = oc\<lparr>OrdererOrgs := os\<rparr> in
         if ConsensusTypeBFT chCaps then
           (case validateAllOrgsHaveEndpoints oc of Some er \<Rightarrow> Inl er | None \<Rightarrow> Inr (oc, idMap'))
         else Inr (oc, idMap'))))"

section \<open>The application and consortiums sections\<close>

record application_config =
  AppACLs :: "(string \<times> string) list"
  AppCapabilities :: caps
  AppOrgs :: "(string \<times> application_org) list"

definition NewApplicationConfig ::
    "('id, 'x) platform_scheme \<Rightarrow> int \<Rightarrow> config_group \<Rightarrow> msps \<Rightarrow> error + application_config \<times> msps" where
  "NewApplicationConfig e ver g idMap =
     bind_err (wrap_err ''failed to deserialize values''
       (DeserializeProtoValuesFromGroup
          [(''ACLs'', set_field (unmarshalACLs (pValueCodec e)) (\<lambda>v p. p\<lparr>AppACLs := v\<rparr>)),
           (''Capabilities'', set_field (unmarshalCapabilities (pValueCodec e)) (\<lambda>v p. p\<lparr>AppCapabilities := v\<rparr>))]
          g \<lparr>AppACLs = [], AppCapabilities = [], AppOrgs = []\<rparr>)) (\<lambda>ac.
     if \<not> ACLs (AppCapabilities ac) \<and> map_of (CgValues g) ''ACLs'' \<noteq> None
     then Inl (Errorf ''ACLs may not be specified without the required capability'')
     else bind_err (new_orgs (NewApplicationOrgConfig e ver) (CgGroups g) idMap) (\<lambda>(os, idMap').
       Inr (ac\<lparr>AppOrgs := os\<rparr>, idMap')))"

text \<open>\<open>newAPIsProvider\<close>: relative policy references become absolute, empty ones are dropped.\<close>

fun newAPIsProvider :: "(string \<times> string) list \<Rightarrow> (string \<times> string) list" where
  "newAPIsProvider [] = []"
| "newAPIsProvider ((key, ref) # rest) =
     (if length ref = 0 then newAPIsProvider rest
      else (key, if hd ref \<noteq> CHR ''/'' then ''/Channel/Application/'' @ ref else ref) # newAPIsProvider rest)"

definition PolicyRefForAPI :: "(string \<times> string) list \<Rightarrow> string \<Rightarrow> string" where
  "PolicyRefForAPI refs name = (case map_of refs name of None \<Rightarrow> '''' | Some r \<Rightarrow> r)"

record consortium_config =
  ChannelCreationPolicy :: policy_proto
  ConsortiumOrgs :: "(string \<times> org) list"

definition NewConsortiumConfig ::
    "('id, 'x) platform_scheme \<Rightarrow> int \<Rightarrow> string \<Rightarrow> config_group \<Rightarrow> msps \<Rightarrow> error + consortium_config \<times> msps" where
  "NewConsortiumConfig e ver name g idMap =
     bind_err (wrap_err ''failed to deserialize values''
       (DeserializeProtoValuesFromGroup
          [(''ChannelCreationPolicy'', set_field (unmarshalPolicy (pValueCodec e)) (\<lambda>v _. v))]
          g \<lparr>PpType = 0, PpValue = []\<rparr>)) (\<lambda>pol.
     bind_err (new_orgs (NewOrganizationConfig e ver) (CgGroups g) idMap) (\<lambda>(os, idMap').
       Inr (\<lparr>ChannelCreationPolicy = pol, ConsortiumOrgs = os\<rparr>, idMap')))"

definition NewConsortiumsConfig ::
    "('id, 'x) platform_scheme \<Rightarrow> int \<Rightarrow> config_group \<Rightarrow> msps \<Rightarrow> error + (string \<times> consortium_config) list \<times> msps" where
  "NewConsortiumsConfig e ver g idMap = new_orgs (NewConsortiumConfig e ver) (CgGroups g) idMap"

section \<open>The channel\<close>

record channel_config =
  HashingAlgorithm :: string
  BlockDataHashingStructureWidth :: u32
  OrdererAddresses :: "string list"
  ChannelOrderers :: "consenter list"
  ConsortiumName :: string
  ChannelCapabilities :: caps
  MSPs :: msps
  appConfig :: "application_config option"
  ordererConfig :: "orderer_config option"
  consortiumsConfig :: "(string \<times> consortium_config) list option"

definition channel_fields :: "value_codec \<Rightarrow> channel_config fields" where
  "channel_fields vc =
     [(''HashingAlgorithm'', set_field (unmarshalName vc) (\<lambda>v p. p\<lparr>HashingAlgorithm := v\<rparr>)),
      (''BlockDataHashingStructure'', set_field (unmarshalWidth vc) (\<lambda>v p. p\<lparr>BlockDataHashingStructureWidth := v\<rparr>)),
      (''OrdererAddresses'', set_field (unmarshalAddresses vc) (\<lambda>v p. p\<lparr>OrdererAddresses := v\<rparr>)),
      (''Orderers'', set_field (unmarshalOrderers vc) (\<lambda>v p. p\<lparr>ChannelOrderers := v\<rparr>)),
      (''Consortium'', set_field (unmarshalName vc) (\<lambda>v p. p\<lparr>ConsortiumName := v\<rparr>)),
      (''Capabilities'', set_field (unmarshalCapabilities vc) (\<lambda>v p. p\<lparr>ChannelCapabilities := v\<rparr>))]"

definition zero_channel :: channel_config where
  "zero_channel = \<lparr>HashingAlgorithm = '''', BlockDataHashingStructureWidth = 0, OrdererAddresses = [],
     ChannelOrderers = [], ConsortiumName = '''', ChannelCapabilities = [], MSPs = [],
     appConfig = None, ordererConfig = None, consortiumsConfig = None\<rparr>"

definition validate_channel :: "channel_config \<Rightarrow> error option" where
  "validate_channel cc =
     (if HashingAlgorithm cc \<noteq> ''SHA256'' \<and> HashingAlgorithm cc \<noteq> ''SHA3_256''
        then Some (Errorf ''Unknown hashing algorithm type'')
      else if BlockDataHashingStructureWidth cc \<noteq> - 1
        then Some (Errorf ''BlockDataHashStructure width only supported at MaxUint32 in this version'')
      else if \<not> OrgSpecificOrdererEndpoints (ChannelCapabilities cc) \<and> length (OrdererAddresses cc) = 0
        then Some (Errorf ''Must set some OrdererAddresses'')
      else if ConsensusTypeBFT (ChannelCapabilities cc) \<and> 0 < length (OrdererAddresses cc)
        then Some (Errorf ''global OrdererAddresses are not allowed with V3_0 capability'')
      else None)"

text \<open>One round of the loop over the groups of the channel.\<close>

definition channel_group ::
    "('id, 'x) platform_scheme \<Rightarrow> string \<times> config_group \<Rightarrow> channel_config \<Rightarrow> error + channel_config" where
  "channel_group e ng cc =
     (let ver = MSPVersion (ChannelCapabilities cc); (name, g) = ng; msg = ''could not create channel sub-group config''
      in if name = ''Application'' then
           bind_err (wrap_err msg (NewApplicationConfig e ver g (MSPs cc))) (\<lambda>(ac, idMap).
             Inr (cc\<lparr>appConfig := Some ac, MSPs := idMap\<rparr>))
         else if name = ''Orderer'' then
           bind_err (wrap_err msg (NewOrdererConfig e ver (ChannelCapabilities cc) g (MSPs cc))) (\<lambda>(oc, idMap).
             Inr (cc\<lparr>ordererConfig := Some oc, MSPs := idMap\<rparr>))
         else if name = ''Consortiums'' then
           bind_err (wrap_err msg (NewConsortiumsConfig e ver g (MSPs cc))) (\<lambda>(cs, idMap).
             Inr (cc\<lparr>consortiumsConfig := Some cs, MSPs := idMap\<rparr>))
         else Inl (Errorf ''Disallowed channel group''))"

definition NewChannelConfig :: "('id, 'x) platform_scheme \<Rightarrow> config_group \<Rightarrow> error + channel_config" where
  "NewChannelConfig e g =
     bind_err (wrap_err ''failed to deserialize values''
       (DeserializeProtoValuesFromGroup (channel_fields (pValueCodec e)) g zero_channel)) (\<lambda>cc.
     case validate_channel cc of
       Some er \<Rightarrow> Inl er
     | None \<Rightarrow>
       bind_err (for_each (channel_group e) (CgGroups g) cc) (\<lambda>cc.
         case MSPManagerSetup e (MSPs cc) of Some er \<Rightarrow> Inl er | None \<Rightarrow> Inr cc))"

section \<open>The bundle\<close>

record Bundle =
  policyManager :: manager
  channelConfig :: channel_config
  configtxManager :: validator

definition OrdererConfig :: "Bundle \<Rightarrow> orderer_config option" where
  "OrdererConfig b = ordererConfig (channelConfig b)"

abbreviation (input) "RootGroupKey \<equiv> ''Channel''"

definition preValidate :: "config_proto option \<Rightarrow> error option" where
  "preValidate config =
     (case config of
        None \<Rightarrow> Some (Errorf ''channelconfig Config cannot be nil'')
      | Some cfg \<Rightarrow>
        (case CfgChannelGroup cfg of
           None \<Rightarrow> Some (Errorf ''config must contain a channel group'')
         | Some cg \<Rightarrow>
           (case map_of (CgGroups cg) ''Orderer'' of
              None \<Rightarrow> None
            | Some og \<Rightarrow>
                if map_of (CgValues og) ''Capabilities'' = None then
                  (if map_of (CgValues cg) ''Capabilities'' \<noteq> None
                   then Some (Errorf ''cannot enable channel capabilities without orderer support first'')
                   else (case map_of (CgGroups cg) ''Application'' of
                           None \<Rightarrow> None
                         | Some ag \<Rightarrow>
                             if map_of (CgValues ag) ''Capabilities'' \<noteq> None
                             then Some (Errorf ''cannot enable application capabilities without orderer support first'')
                             else None))
                else None)))"

definition NewBundle :: "('id, 'x) platform_scheme \<Rightarrow> string \<Rightarrow> config_proto option \<Rightarrow> (error + Bundle) go" where
  "NewBundle e chan config =
     (case preValidate config of
        Some er \<Rightarrow> Ret (Inl er)
      | None \<Rightarrow>
        (case Option.bind config CfgChannelGroup of
           None \<Rightarrow> Panic ''nil pointer dereference''
         | Some cg \<Rightarrow>
           bind_res (Ret (wrap_err ''initializing channelconfig failed'' (NewChannelConfig e cg))) (\<lambda>cc.
           bind_res (bind_go (NewManagerImpl (unmarshalImplicitMeta (pValueCodec e)) RootGroupKey
                        [(Policy_SIGNATURE, NewPolicy (unmarshalSignaturePolicy (pValueCodec e)))] cg)
                      (\<lambda>r. Ret (wrap_err ''initializing policymanager failed'' r))) (\<lambda>mgr.
           bind_res (Ret (wrap_err ''initializing configtx manager failed''
                        (NewValidatorImpl chan config RootGroupKey mgr))) (\<lambda>vi.
             Ret (Inr \<lparr>policyManager = mgr, channelConfig = cc, configtxManager = vi\<rparr>))))))"

text \<open>\<open>ValidateNew\<close>: an organization that stays keeps its membership service provider.\<close>

definition same_msp :: "(string \<times> 'o) list \<Rightarrow> (string \<times> 'o) list \<Rightarrow> ('o \<Rightarrow> string) \<Rightarrow> bool" where
  "same_msp orgs norgs mspID =
     list_all (\<lambda>(name, og). case map_of norgs name of None \<Rightarrow> True | Some norg \<Rightarrow> mspID og = mspID norg) orgs"

definition validate_new_orderer :: "channel_config \<Rightarrow> channel_config \<Rightarrow> error option" where
  "validate_new_orderer cc ncc =
     (case ordererConfig cc of
        None \<Rightarrow> None
      | Some oc \<Rightarrow>
        (case ordererConfig ncc of
           None \<Rightarrow> Some (Errorf ''current config has orderer section, but new config does not'')
         | Some noc \<Rightarrow>
             if \<not> channel_ConsensusTypeMigration (ChannelCapabilities cc) \<and> ConsensusType oc \<noteq> ConsensusType noc
               then Some (Errorf ''attempted to change consensus type'')
             else if \<not> ConsensusTypeBFT (ChannelCapabilities cc) \<and> ConsensusTypeBFT (ChannelCapabilities ncc) \<and>
                     \<not> list_all (\<lambda>(_, og). length (Endpoints og) \<noteq> 0) (OrdererOrgs noc)
               then Some (Errorf ''illegal orderer config update detected: endpoints of org are missing'')
             else if \<not> same_msp (OrdererOrgs oc) (OrdererOrgs noc) OrgMSPID
               then Some (Errorf ''orderer org attempted to change MSP ID'')
             else None))"

definition validate_new_application :: "channel_config \<Rightarrow> channel_config \<Rightarrow> error option" where
  "validate_new_application cc ncc =
     (case appConfig cc of
        None \<Rightarrow> None
      | Some ac \<Rightarrow>
        (case appConfig ncc of
           None \<Rightarrow> Some (Errorf ''current config has application section, but new config does not'')
         | Some nac \<Rightarrow>
             if same_msp (AppOrgs ac) (AppOrgs nac) OrgMSPID then None
             else Some (Errorf ''application org attempted to change MSP ID'')))"

definition validate_new_consortiums :: "channel_config \<Rightarrow> channel_config \<Rightarrow> error option" where
  "validate_new_consortiums cc ncc =
     (case consortiumsConfig cc of
        None \<Rightarrow> if consortiumsConfig ncc \<noteq> None
                then Some (Errorf ''current config has no consortiums section, but new config does'') else None
      | Some cs \<Rightarrow>
        (case consortiumsConfig ncc of
           None \<Rightarrow> Some (Errorf ''current config has consortiums section, but new config does not'')
         | Some ncs \<Rightarrow>
             if list_all (\<lambda>(name, c). case map_of ncs name of
                                         None \<Rightarrow> True
                                       | Some nc \<Rightarrow> same_msp (ConsortiumOrgs c) (ConsortiumOrgs nc) OrgMSPID) cs
             then None else Some (Errorf ''consortium org attempted to change MSP ID'')))"

definition ValidateNew :: "Bundle \<Rightarrow> Bundle \<Rightarrow> error option" where
  "ValidateNew b nb =
     first_error [validate_new_orderer (channelConfig b) (channelConfig nb),
                  validate_new_application (channelConfig b) (channelConfig nb),
                  validate_new_consortiums (channelConfig b) (channelConfig nb)]"

text \<open>\<open>checkResources\<close> of \<^verbatim>\<open>orderer/common/multichannel/ledger_resources.go\<close>.\<close>

definition checkResources :: "Bundle \<Rightarrow> error option" where
  "checkResources b =
     (case OrdererConfig b of
        None \<Rightarrow> Some (Errorf ''config does not contain orderer config'')
      | Some oc \<Rightarrow>
        (case Supported orderer_HasCapability (OrdererCapabilities oc) of
           Some er \<Rightarrow> Some (WithMessage er ''config requires unsupported orderer capabilities'')
         | None \<Rightarrow>
           (case Supported channel_HasCapability (ChannelCapabilities (channelConfig b)) of
              Some er \<Rightarrow> Some (WithMessage er ''config requires unsupported channel capabilities'')
            | None \<Rightarrow> None)))"

text \<open>\<open>configResources.Update\<close> and \<open>BundleSource.Update\<close>: the new current bundle.\<close>

definition Update :: "Bundle \<Rightarrow> Bundle go" where
  "Update nb = (case checkResources nb of Some er \<Rightarrow> Panic ''incompatible resources'' | None \<Rightarrow> Ret nb)"

section \<open>What a constructed configuration satisfies\<close>

text \<open>An organization has a non-empty identifier that the channel's providers know.\<close>

definition registered :: "msps \<Rightarrow> 'a org_scheme \<Rightarrow> bool" where
  "registered m og \<longleftrightarrow> OrgMSPID og \<noteq> '''' \<and> map_of m (OrgMSPID og) \<noteq> None"

lemma registered_mono: "registered m og \<Longrightarrow> map_of m \<subseteq>\<^sub>m map_of m' \<Longrightarrow> registered m' og"
  by (auto simp: registered_def map_le_def dom_def)

lemma validateMSP_registers:
  "validateMSP e ver mc m = Inr (i, m') \<Longrightarrow> i \<noteq> '''' \<and> map_of m' i \<noteq> None \<and> map_of m \<subseteq>\<^sub>m map_of m'"
  by (auto simp: validateMSP_def ProposeMSP_def result_simps map_le_def update_conv' split: option.splits if_splits)

lemma new_orgs_inv:
  assumes "new_orgs mk gs m = Inr (os, m')"
    and "\<And>name g m og m'. mk name g m = Inr (og, m') \<Longrightarrow> map_of m \<subseteq>\<^sub>m map_of m' \<and> P m' og"
    and "\<And>m og m'. P m og \<Longrightarrow> map_of m \<subseteq>\<^sub>m map_of m' \<Longrightarrow> P m' og"
  shows "map_of m \<subseteq>\<^sub>m map_of m' \<and> (\<forall>(name, og) \<in> set os. P m' og)"
  using assms(1)
proof (induction gs arbitrary: m os)
  case (Cons ng gs)
  obtain name g where ng: "ng = (name, g)" by (cases ng)
  from Cons.prems ng obtain og m1 os' where
      step: "mk name g m = Inr (og, m1)" "new_orgs mk gs m1 = Inr (os', m')" "os = (name, og) # os'"
    by (auto simp: result_simps)
  note IH = Cons.IH [OF step(2)]
  from assms(2) [OF step(1)] IH show ?case
    using assms(3) [of m1 og m'] step(3) map_le_trans by fastforce
qed simp

lemma NewOrganizationConfig_registers:
  "NewOrganizationConfig e ver name g m = Inr (og, m') \<Longrightarrow> map_of m \<subseteq>\<^sub>m map_of m' \<and> registered m' og"
  by (auto simp: NewOrganizationConfig_def result_simps registered_def dest!: validateMSP_registers split: if_splits)

lemma NewOrdererOrgConfig_registers:
  "NewOrdererOrgConfig e ver cs name g m = Inr (og, m') \<Longrightarrow> map_of m \<subseteq>\<^sub>m map_of m' \<and> registered m' og"
  by (auto simp: NewOrdererOrgConfig_def result_simps registered_def dest!: validateMSP_registers split: if_splits)

lemma NewApplicationOrgConfig_registers:
  "NewApplicationOrgConfig e ver name g m = Inr (og, m') \<Longrightarrow> map_of m \<subseteq>\<^sub>m map_of m' \<and> registered m' og"
  by (auto simp: NewApplicationOrgConfig_def result_simps registered_def dest!: validateMSP_registers split: if_splits)

definition orderer_valid :: "msps \<Rightarrow> orderer_config \<Rightarrow> bool" where
  "orderer_valid m oc \<longleftrightarrow>
     0 < MaxMessageCount (BatchSize oc) \<and> 0 < PreferredMaxBytes (BatchSize oc) \<and>
     PreferredMaxBytes (BatchSize oc) \<le> AbsoluteMaxBytes (BatchSize oc) \<and> 0 < BatchTimeout oc \<and>
     (\<forall>(name, og) \<in> set (OrdererOrgs oc). registered m og)"

definition application_valid :: "msps \<Rightarrow> application_config \<Rightarrow> bool" where
  "application_valid m ac \<longleftrightarrow> (\<forall>(name, og) \<in> set (AppOrgs ac). registered m og)"

definition consortiums_valid :: "msps \<Rightarrow> (string \<times> consortium_config) list \<Rightarrow> bool" where
  "consortiums_valid m cs \<longleftrightarrow>
     (\<forall>(name, c) \<in> set cs. \<forall>(name, og) \<in> set (ConsortiumOrgs c). registered m og)"

lemma wrap_err_Inr [simp]: "wrap_err msg r = Inr x \<longleftrightarrow> r = Inr x"
  by (cases r) simp_all

lemma NewOrdererConfig_valid:
  assumes "NewOrdererConfig e ver cs g m = Inr (oc, m')"
  shows "map_of m \<subseteq>\<^sub>m map_of m' \<and> orderer_valid m' oc"
proof -
  from assms obtain oc1 oc2 os where
      bz: "validateBatchSize (BatchSize oc1) = None" and bt: "validateBatchTimeout e oc1 = Inr oc2"
      and os: "new_orgs (NewOrdererOrgConfig e ver cs) (CgGroups g) m = Inr (os, m')"
      and oc: "oc = oc2\<lparr>OrdererOrgs := os\<rparr>"
    by (auto simp: NewOrdererConfig_def result_simps Let_def split: option.splits if_splits)
  have "BatchSize oc2 = BatchSize oc1 \<and> 0 < BatchTimeout oc2"
    using bt by (auto simp: validateBatchTimeout_def split: option.splits if_splits)
  moreover have "map_of m \<subseteq>\<^sub>m map_of m' \<and> (\<forall>(name, og) \<in> set os. registered m' og)"
    using os NewOrdererOrgConfig_registers registered_mono by (rule new_orgs_inv)
  ultimately show ?thesis
    using bz oc by (auto simp: orderer_valid_def validateBatchSize_def word_neq_0_conv split: if_splits)
qed

lemma NewApplicationConfig_valid:
  assumes "NewApplicationConfig e ver g m = Inr (ac, m')"
  shows "map_of m \<subseteq>\<^sub>m map_of m' \<and> application_valid m' ac"
proof -
  from assms obtain ac1 os where os: "new_orgs (NewApplicationOrgConfig e ver) (CgGroups g) m = Inr (os, m')"
      and ac: "ac = ac1\<lparr>AppOrgs := os\<rparr>"
    by (auto simp: NewApplicationConfig_def result_simps split: if_splits)
  have "map_of m \<subseteq>\<^sub>m map_of m' \<and> (\<forall>(name, og) \<in> set os. registered m' og)"
    using os NewApplicationOrgConfig_registers registered_mono by (rule new_orgs_inv)
  with ac show ?thesis by (simp add: application_valid_def)
qed

lemma NewConsortiumsConfig_valid:
  assumes "NewConsortiumsConfig e ver g m = Inr (cs, m')"
  shows "map_of m \<subseteq>\<^sub>m map_of m' \<and> consortiums_valid m' cs"
proof -
  have one: "map_of m \<subseteq>\<^sub>m map_of m' \<and> (\<forall>(name, og) \<in> set (ConsortiumOrgs c). registered m' og)"
    if "NewConsortiumConfig e ver name g m = Inr (c, m')" for name g m c m'
  proof -
    from that obtain os where os: "new_orgs (NewOrganizationConfig e ver) (CgGroups g) m = Inr (os, m')"
        and "ConsortiumOrgs c = os"
      by (auto simp: NewConsortiumConfig_def result_simps)
    moreover have "map_of m \<subseteq>\<^sub>m map_of m' \<and> (\<forall>(name, og) \<in> set os. registered m' og)"
      using os NewOrganizationConfig_registers registered_mono by (rule new_orgs_inv)
    ultimately show ?thesis by simp
  qed
  have mono: "\<forall>(name, og) \<in> set (ConsortiumOrgs c). registered m' og"
    if "\<forall>(name, og) \<in> set (ConsortiumOrgs c). registered m og" "map_of m \<subseteq>\<^sub>m map_of m'" for m c m'
    using that registered_mono by blast
  show ?thesis
    unfolding consortiums_valid_def
    using assms [unfolded NewConsortiumsConfig_def] one mono by (rule new_orgs_inv)
qed

definition channel_valid :: "channel_config \<Rightarrow> bool" where
  "channel_valid cc \<longleftrightarrow>
     (\<forall>oc. ordererConfig cc = Some oc \<longrightarrow> orderer_valid (MSPs cc) oc) \<and>
     (\<forall>ac. appConfig cc = Some ac \<longrightarrow> application_valid (MSPs cc) ac) \<and>
     (\<forall>cs. consortiumsConfig cc = Some cs \<longrightarrow> consortiums_valid (MSPs cc) cs)"

lemma orderer_valid_mono: "orderer_valid m oc \<Longrightarrow> map_of m \<subseteq>\<^sub>m map_of m' \<Longrightarrow> orderer_valid m' oc"
  using registered_mono by (fastforce simp: orderer_valid_def)

lemma application_valid_mono: "application_valid m ac \<Longrightarrow> map_of m \<subseteq>\<^sub>m map_of m' \<Longrightarrow> application_valid m' ac"
  using registered_mono by (fastforce simp: application_valid_def)

lemma consortiums_valid_mono: "consortiums_valid m cs \<Longrightarrow> map_of m \<subseteq>\<^sub>m map_of m' \<Longrightarrow> consortiums_valid m' cs"
  using registered_mono by (fastforce simp: consortiums_valid_def)

lemmas valid_monos = orderer_valid_mono application_valid_mono consortiums_valid_mono

lemma channel_group_valid:
  assumes "channel_group e ng cc = Inr cc'" "channel_valid cc"
  shows "channel_valid cc'"
proof -
  obtain name g where ng: "ng = (name, g)" by (cases ng)
  let ?ver = "MSPVersion (ChannelCapabilities cc)"
  from assms(1) ng consider
      ac m where "NewApplicationConfig e ?ver g (MSPs cc) = Inr (ac, m)" "cc' = cc\<lparr>appConfig := Some ac, MSPs := m\<rparr>"
    | oc m where "NewOrdererConfig e ?ver (ChannelCapabilities cc) g (MSPs cc) = Inr (oc, m)"
        "cc' = cc\<lparr>ordererConfig := Some oc, MSPs := m\<rparr>"
    | cs m where "NewConsortiumsConfig e ?ver g (MSPs cc) = Inr (cs, m)"
        "cc' = cc\<lparr>consortiumsConfig := Some cs, MSPs := m\<rparr>"
    by (auto simp: channel_group_def Let_def result_simps split: if_splits)
  then show ?thesis
  proof cases
    case 1
    with NewApplicationConfig_valid [OF 1(1)] assms(2) show ?thesis by (auto simp: channel_valid_def intro: valid_monos)
  next
    case 2
    with NewOrdererConfig_valid [OF 2(1)] assms(2) show ?thesis by (auto simp: channel_valid_def intro: valid_monos)
  next
    case 3
    with NewConsortiumsConfig_valid [OF 3(1)] assms(2) show ?thesis by (auto simp: channel_valid_def intro: valid_monos)
  qed
qed

lemma channel_fields_sections:
  assumes "DeserializeProtoValuesFromGroup (channel_fields vc) g zero_channel = Inr cc"
  shows "ordererConfig cc = None \<and> appConfig cc = None \<and> consortiumsConfig cc = None"
  using assms unfolding DeserializeProtoValuesFromGroup_def
proof (rule for_each_inv)
  show "ordererConfig zero_channel = None \<and> appConfig zero_channel = None \<and> consortiumsConfig zero_channel = None"
    by (simp add: zero_channel_def)
next
  fix x s t
  assume "ordererConfig s = None \<and> appConfig s = None \<and> consortiumsConfig s = None"
    and "(case x of (key, value) \<Rightarrow> Deserialize (channel_fields vc) key (CvValue value)) s = Inr t"
  then show "ordererConfig t = None \<and> appConfig t = None \<and> consortiumsConfig t = None"
    by (auto simp: Deserialize_def channel_fields_def set_field_def split: if_splits option.splits prod.splits)
qed

lemma NewChannelConfig_valid: "NewChannelConfig e g = Inr cc \<Longrightarrow> channel_valid cc"
proof -
  assume "NewChannelConfig e g = Inr cc"
  then obtain cc0 where cc0: "DeserializeProtoValuesFromGroup (channel_fields (pValueCodec e)) g zero_channel = Inr cc0"
      and loop: "for_each (channel_group e) (CgGroups g) cc0 = Inr cc"
    by (auto simp: NewChannelConfig_def result_simps split: option.splits)
  from loop show ?thesis
  proof (rule for_each_inv)
    show "channel_valid cc0" using channel_fields_sections [OF cc0] by (simp add: channel_valid_def)
  qed (rule channel_group_valid)
qed

definition bundle_valid :: "string \<Rightarrow> config_proto \<Rightarrow> Bundle \<Rightarrow> bool" where
  "bundle_valid chan cfg b \<longleftrightarrow> channel_valid (channelConfig b) \<and>
     channelID (configtxManager b) = chan \<and> ValidateChannelID chan = None \<and>
     sequence (configtxManager b) = CfgSequence cfg \<and> namespace (configtxManager b) = RootGroupKey \<and>
     pm (configtxManager b) = policyManager b \<and> mgr_path (policyManager b) = RootGroupKey \<and>
     mapConfig (CfgChannelGroup cfg) RootGroupKey = Inr (configMap (configtxManager b))"

lemma NewManagerImpl_path: "NewManagerImpl um path provs g = Ret (Inr mgr) \<Longrightarrow> mgr_path mgr = path"
  by (cases g) (auto simp: result_simps split: if_splits)

lemma NewBundle_valid:
  assumes "NewBundle e chan config = Ret (Inr b)"
  obtains cfg where "config = Some cfg" "bundle_valid chan cfg b"
proof -
  have wrap: "bind_go r (\<lambda>x. Ret (wrap_err msg x)) = Ret (Inr y) \<longleftrightarrow> r = Ret (Inr y)"
    for r :: "(error + manager) go" and msg y
    by (cases r) auto
  from assms obtain cfg cg cc mgr vi where cfg: "config = Some cfg" "CfgChannelGroup cfg = Some cg"
      and cc: "NewChannelConfig e cg = Inr cc"
      and mgr: "NewManagerImpl (unmarshalImplicitMeta (pValueCodec e)) RootGroupKey
        [(Policy_SIGNATURE, NewPolicy (unmarshalSignaturePolicy (pValueCodec e)))] cg = Ret (Inr mgr)"
      and vi: "NewValidatorImpl chan config RootGroupKey mgr = Inr vi"
      and b: "b = \<lparr>policyManager = mgr, channelConfig = cc, configtxManager = vi\<rparr>"
    by (auto simp: NewBundle_def result_simps wrap Option.bind_eq_Some_conv split: option.splits)
  have "channel_valid cc" by (rule NewChannelConfig_valid [OF cc])
  moreover have "mgr_path mgr = RootGroupKey" by (rule NewManagerImpl_path [OF mgr])
  ultimately have "bundle_valid chan cfg b"
    using vi cfg b by (auto simp: bundle_valid_def NewValidatorImpl_def split: if_splits sum.splits)
  with cfg(1) that show thesis by blast
qed

section \<open>The checks of the sections\<close>

text \<open>What the constructors check beyond \<^const>\<open>bundle_valid\<close>: no organization has sub-groups, endpoints are set
  only with the capability for them and by every organization of a channel with BFT consensus, access
  control lists need their capability, the channel values are the supported ones, and no section but
  the orderer's comes first with capabilities.\<close>

definition flat_orgs :: "config_group \<Rightarrow> bool" where
  "flat_orgs g \<longleftrightarrow> (\<forall>(name, og) \<in> set (CgGroups g). CgGroups og = [])"

definition section_flat :: "string \<Rightarrow> config_group \<Rightarrow> bool" where
  "section_flat name g \<longleftrightarrow>
     name = ''Application'' \<and> flat_orgs g \<or> name = ''Orderer'' \<and> flat_orgs g \<or>
     name = ''Consortiums'' \<and> (\<forall>(name, c) \<in> set (CgGroups g). flat_orgs c)"

definition orderer_checked :: "('id, 'x) platform_scheme \<Rightarrow> caps \<Rightarrow> orderer_config \<Rightarrow> bool" where
  "orderer_checked e chCaps oc \<longleftrightarrow>
     ParseDuration e (BatchTimeoutString oc) = Some (BatchTimeout oc) \<and>
     (ConsensusTypeBFT chCaps \<longrightarrow> (\<forall>(name, og) \<in> set (OrdererOrgs oc). Endpoints og \<noteq> [])) \<and>
     (\<not> OrgSpecificOrdererEndpoints chCaps \<longrightarrow> (\<forall>(name, og) \<in> set (OrdererOrgs oc). Endpoints og = []))"

definition application_checked :: "application_config \<Rightarrow> bool" where
  "application_checked ac \<longleftrightarrow> ACLs (AppCapabilities ac) \<or> AppACLs ac = []"

definition channel_checked :: "('id, 'x) platform_scheme \<Rightarrow> config_group \<Rightarrow> channel_config \<Rightarrow> bool" where
  "channel_checked e g cc \<longleftrightarrow>
     HashingAlgorithm cc \<in> {''SHA256'', ''SHA3_256''} \<and> BlockDataHashingStructureWidth cc = - 1 \<and>
     (OrgSpecificOrdererEndpoints (ChannelCapabilities cc) \<or> OrdererAddresses cc \<noteq> []) \<and>
     (ConsensusTypeBFT (ChannelCapabilities cc) \<longrightarrow> OrdererAddresses cc = []) \<and>
     MSPManagerSetup e (MSPs cc) = None \<and> (\<forall>(name, sec) \<in> set (CgGroups g). section_flat name sec) \<and>
     (ordererConfig cc \<noteq> None \<longleftrightarrow> ''Orderer'' \<in> fst ` set (CgGroups g)) \<and>
     (appConfig cc \<noteq> None \<longleftrightarrow> ''Application'' \<in> fst ` set (CgGroups g)) \<and>
     (consortiumsConfig cc \<noteq> None \<longleftrightarrow> ''Consortiums'' \<in> fst ` set (CgGroups g)) \<and>
     (\<forall>oc. ordererConfig cc = Some oc \<longrightarrow> orderer_checked e (ChannelCapabilities cc) oc) \<and>
     (\<forall>ac. appConfig cc = Some ac \<longrightarrow> application_checked ac)"

definition has_capabilities :: "config_group \<Rightarrow> bool" where
  "has_capabilities g \<longleftrightarrow> map_of (CgValues g) ''Capabilities'' \<noteq> None"

definition orderer_capable_first :: "config_group \<Rightarrow> bool" where
  "orderer_capable_first g \<longleftrightarrow>
     (\<forall>og. map_of (CgGroups g) ''Orderer'' = Some og \<and> \<not> has_capabilities og \<longrightarrow>
        \<not> has_capabilities g \<and> (\<forall>ag. map_of (CgGroups g) ''Application'' = Some ag \<longrightarrow> \<not> has_capabilities ag))"

definition bundle_checked :: "('id, 'x) platform_scheme \<Rightarrow> string \<Rightarrow> config_proto \<Rightarrow> Bundle \<Rightarrow> bool" where
  "bundle_checked e chan cfg b \<longleftrightarrow> bundle_valid chan cfg b \<and>
     (\<exists>g. CfgChannelGroup cfg = Some g \<and> orderer_capable_first g \<and> channel_checked e g (channelConfig b))"

text \<open>A field whose key no value of the group has keeps what it was.\<close>

lemma Deserialize_untouched:
  assumes "DeserializeProtoValuesFromGroup fds g p = Inr p'" "map_of (CgValues g) k = None"
    and "\<And>key f data q q'. map_of fds key = Some f \<Longrightarrow> key \<noteq> k \<Longrightarrow> f data q = Some q' \<Longrightarrow> sel q' = sel q"
  shows "sel p' = sel p"
  using assms(1) unfolding DeserializeProtoValuesFromGroup_def
proof (rule for_each_inv)
  fix x s t
  assume x: "x \<in> set (CgValues g)" "sel s = sel p" "(case x of (key, value) \<Rightarrow> Deserialize fds key (CvValue value)) s = Inr t"
  then have "fst x \<noteq> k" using assms(2) by (metis map_of_eq_None_iff image_eqI)
  with x show "sel t = sel p"
    by (auto simp: Deserialize_def split: prod.splits option.splits dest: assms(3))
qed simp

lemma new_orgs_each: "new_orgs mk gs m = Inr (os, m') \<Longrightarrow> (name, g) \<in> set gs \<Longrightarrow> \<exists>m og m'. mk name g m = Inr (og, m')"
proof (induction gs arbitrary: m os)
  case (Cons ng gs)
  then show ?case by (cases ng) (auto simp: result_simps)
qed simp

lemma new_orgs_made: "new_orgs mk gs m = Inr (os, m') \<Longrightarrow> (name, og) \<in> set os \<Longrightarrow> \<exists>g m m'. mk name g m = Inr (og, m')"
proof (induction gs arbitrary: m os)
  case (Cons ng gs)
  then show ?case by (cases ng) (fastforce simp: result_simps)
qed simp

lemma NewOrdererOrg_checked:
  assumes "NewOrdererOrgConfig e ver chCaps name g m = Inr (og, m')"
  shows "CgGroups g = [] \<and> (\<not> OrgSpecificOrdererEndpoints chCaps \<longrightarrow> Endpoints og = [])"
proof -
  from assms obtain eps mc where d: "DeserializeProtoValuesFromGroup
        [(''Endpoints'', set_field (unmarshalAddresses (pValueCodec e)) (\<lambda>v (_, mc). (v, mc))),
         (''MSP'', set_field (unmarshalMSPConfig (pValueCodec e)) (\<lambda>v (eps, _). (eps, v)))] g ([], zero_msp) = Inr (eps, mc)"
      and "Endpoints og = eps" "CgGroups g = []"
      "\<not> OrgSpecificOrdererEndpoints chCaps \<Longrightarrow> map_of (CgValues g) ''Endpoints'' = None"
    by (auto simp: NewOrdererOrgConfig_def result_simps split: if_splits)
  moreover have "eps = []" if "map_of (CgValues g) ''Endpoints'' = None"
  proof -
    have "fst (eps, mc) = fst ([] :: string list, zero_msp)"
      using d that by (rule Deserialize_untouched) (auto simp: set_field_def split: if_splits)
    then show ?thesis by simp
  qed
  ultimately show ?thesis by auto
qed

lemma NewOrdererConfig_checked:
  assumes "NewOrdererConfig e ver chCaps g m = Inr (oc, m')"
  shows "flat_orgs g \<and> orderer_checked e chCaps oc"
proof -
  from assms obtain oc1 oc2 os where bt: "validateBatchTimeout e oc1 = Inr oc2"
      and os: "new_orgs (NewOrdererOrgConfig e ver chCaps) (CgGroups g) m = Inr (os, m')"
      and oc: "oc = oc2\<lparr>OrdererOrgs := os\<rparr>" and eps: "ConsensusTypeBFT chCaps \<Longrightarrow> validateAllOrgsHaveEndpoints oc = None"
    by (auto simp: NewOrdererConfig_def result_simps Let_def split: option.splits if_splits)
  have "\<forall>(name, og) \<in> set (CgGroups g). CgGroups og = []"
    using new_orgs_each [OF os] NewOrdererOrg_checked by fastforce
  moreover have "\<forall>(name, og) \<in> set os. \<not> OrgSpecificOrdererEndpoints chCaps \<longrightarrow> Endpoints og = []"
    using new_orgs_made [OF os] NewOrdererOrg_checked by fastforce
  moreover have "ParseDuration e (BatchTimeoutString oc2) = Some (BatchTimeout oc2)"
    using bt by (auto simp: validateBatchTimeout_def split: option.splits if_splits)
  ultimately show ?thesis
    using eps oc by (auto simp: flat_orgs_def orderer_checked_def validateAllOrgsHaveEndpoints_def list_all_iff split: if_splits)
qed

lemma NewApplicationConfig_checked:
  assumes "NewApplicationConfig e ver g m = Inr (ac, m')"
  shows "flat_orgs g \<and> application_checked ac"
proof -
  from assms obtain ac1 os where d: "DeserializeProtoValuesFromGroup
        [(''ACLs'', set_field (unmarshalACLs (pValueCodec e)) (\<lambda>v p. p\<lparr>AppACLs := v\<rparr>)),
         (''Capabilities'', set_field (unmarshalCapabilities (pValueCodec e)) (\<lambda>v p. p\<lparr>AppCapabilities := v\<rparr>))]
        g \<lparr>AppACLs = [], AppCapabilities = [], AppOrgs = []\<rparr> = Inr ac1"
      and acls: "ACLs (AppCapabilities ac1) \<or> map_of (CgValues g) ''ACLs'' = None"
      and os: "new_orgs (NewApplicationOrgConfig e ver) (CgGroups g) m = Inr (os, m')" and ac: "ac = ac1\<lparr>AppOrgs := os\<rparr>"
    by (auto simp: NewApplicationConfig_def result_simps split: if_splits)
  have "AppACLs ac1 = AppACLs \<lparr>AppACLs = [], AppCapabilities = [], AppOrgs = []\<rparr>" if "map_of (CgValues g) ''ACLs'' = None"
    using d that by (rule Deserialize_untouched) (auto simp: set_field_def split: if_splits)
  with acls ac have "application_checked ac" by (auto simp: application_checked_def)
  moreover have "CgGroups g' = []" if "NewApplicationOrgConfig e ver name g' m1 = Inr (og, m2)" for name g' m1 og m2
    using that by (auto simp: NewApplicationOrgConfig_def split: if_splits)
  then have "flat_orgs g" using new_orgs_each [OF os] by (fastforce simp: flat_orgs_def)
  ultimately show ?thesis by blast
qed

lemma NewConsortiumsConfig_checked:
  assumes "NewConsortiumsConfig e ver g m = Inr (cs, m')"
  shows "\<forall>(name, c) \<in> set (CgGroups g). flat_orgs c"
proof -
  have one: "CgGroups g' = []" if "NewOrganizationConfig e ver name g' m1 = Inr (og, m2)" for name g' m1 og m2
    using that by (auto simp: NewOrganizationConfig_def split: if_splits)
  have "flat_orgs c" if "NewConsortiumConfig e ver name c m1 = Inr (cc, m2)" for name c m1 cc m2
  proof -
    from that obtain os where os: "new_orgs (NewOrganizationConfig e ver) (CgGroups c) m1 = Inr (os, m2)"
      by (auto simp: NewConsortiumConfig_def result_simps)
    show ?thesis using new_orgs_each [OF os] one by (fastforce simp: flat_orgs_def)
  qed
  with new_orgs_each [OF assms [unfolded NewConsortiumsConfig_def]] show ?thesis by fastforce
qed

text \<open>The loop over the sections: the values of the channel are kept, and each section is checked.\<close>

definition same_values :: "channel_config \<Rightarrow> channel_config \<Rightarrow> bool" where
  "same_values cc cc' \<longleftrightarrow> HashingAlgorithm cc' = HashingAlgorithm cc \<and>
     BlockDataHashingStructureWidth cc' = BlockDataHashingStructureWidth cc \<and> OrdererAddresses cc' = OrdererAddresses cc \<and>
     ChannelCapabilities cc' = ChannelCapabilities cc"

definition sections_checked :: "('id, 'x) platform_scheme \<Rightarrow> channel_config \<Rightarrow> bool" where
  "sections_checked e cc \<longleftrightarrow>
     (\<forall>oc. ordererConfig cc = Some oc \<longrightarrow> orderer_checked e (ChannelCapabilities cc) oc) \<and>
     (\<forall>ac. appConfig cc = Some ac \<longrightarrow> application_checked ac)"

definition sections_of :: "channel_config \<Rightarrow> string set" where
  "sections_of cc = (if ordererConfig cc = None then {} else {''Orderer''}) \<union>
     (if appConfig cc = None then {} else {''Application''}) \<union> (if consortiumsConfig cc = None then {} else {''Consortiums''})"

lemma channel_group_checked:
  assumes "channel_group e (name, g) cc = Inr cc'"
  shows "same_values cc cc' \<and> (sections_checked e cc \<longrightarrow> sections_checked e cc') \<and> section_flat name g \<and>
    sections_of cc' = insert name (sections_of cc)"
proof -
  let ?ver = "MSPVersion (ChannelCapabilities cc)"
  from assms consider
      ac m where "name = ''Application''" "NewApplicationConfig e ?ver g (MSPs cc) = Inr (ac, m)" "cc' = cc\<lparr>appConfig := Some ac, MSPs := m\<rparr>"
    | oc m where "name = ''Orderer''" "NewOrdererConfig e ?ver (ChannelCapabilities cc) g (MSPs cc) = Inr (oc, m)"
        "cc' = cc\<lparr>ordererConfig := Some oc, MSPs := m\<rparr>"
    | cs m where "name = ''Consortiums''" "NewConsortiumsConfig e ?ver g (MSPs cc) = Inr (cs, m)"
        "cc' = cc\<lparr>consortiumsConfig := Some cs, MSPs := m\<rparr>"
    by (auto simp: channel_group_def Let_def result_simps split: if_splits)
  then show ?thesis
  proof cases
    case 1
    with NewApplicationConfig_checked [OF 1(2)] show ?thesis
      by (auto simp: same_values_def sections_checked_def section_flat_def sections_of_def)
  next
    case 2
    with NewOrdererConfig_checked [OF 2(2)] show ?thesis
      by (auto simp: same_values_def sections_checked_def section_flat_def sections_of_def)
  next
    case 3
    with NewConsortiumsConfig_checked [OF 3(2)] show ?thesis
      by (auto simp: same_values_def sections_checked_def section_flat_def sections_of_def)
  qed
qed

lemma channel_groups_checked:
  "for_each (channel_group e) gs cc = Inr cc' \<Longrightarrow> sections_checked e cc \<Longrightarrow>
   same_values cc cc' \<and> sections_checked e cc' \<and> (\<forall>(name, g) \<in> set gs. section_flat name g) \<and>
   sections_of cc' = fst ` set gs \<union> sections_of cc"
proof (induction gs arbitrary: cc)
  case (Cons ng gs)
  obtain name g where ng: "ng = (name, g)" by (cases ng)
  from Cons.prems(1) ng obtain cc1 where cc1: "channel_group e (name, g) cc = Inr cc1" "for_each (channel_group e) gs cc1 = Inr cc'"
    by (auto simp: result_simps)
  from channel_group_checked [OF cc1(1)] Cons.IH [OF cc1(2)] Cons.prems(2) ng show ?case by (auto simp: same_values_def)
qed (simp add: same_values_def)

lemma NewChannelConfig_checked: "NewChannelConfig e g = Inr cc \<Longrightarrow> channel_checked e g cc"
proof -
  assume "NewChannelConfig e g = Inr cc"
  then obtain cc0 where cc0: "DeserializeProtoValuesFromGroup (channel_fields (pValueCodec e)) g zero_channel = Inr cc0"
      "validate_channel cc0 = None" and loop: "for_each (channel_group e) (CgGroups g) cc0 = Inr cc"
      and msps: "MSPManagerSetup e (MSPs cc) = None"
    by (auto simp: NewChannelConfig_def result_simps split: option.splits)
  have none: "ordererConfig cc0 = None" "appConfig cc0 = None" "consortiumsConfig cc0 = None"
    using channel_fields_sections [OF cc0(1)] by simp_all
  note ok = channel_groups_checked [OF loop]
  have "same_values cc0 cc" "sections_checked e cc" "\<forall>(name, sec) \<in> set (CgGroups g). section_flat name sec"
    and secs: "sections_of cc = fst ` set (CgGroups g)"
    using ok none by (auto simp: sections_checked_def sections_of_def)
  moreover have "(ordererConfig cc \<noteq> None \<longleftrightarrow> ''Orderer'' \<in> sections_of cc) \<and> (appConfig cc \<noteq> None \<longleftrightarrow> ''Application'' \<in> sections_of cc) \<and>
      (consortiumsConfig cc \<noteq> None \<longleftrightarrow> ''Consortiums'' \<in> sections_of cc)"
    by (simp add: sections_of_def)
  ultimately show ?thesis
    using cc0(2) msps unfolding channel_checked_def secs
    by (auto simp: same_values_def sections_checked_def validate_channel_def split: if_splits)
qed

lemma NewBundle_checked:
  assumes "NewBundle e chan config = Ret (Inr b)"
  obtains cfg where "config = Some cfg" "bundle_checked e chan cfg b"
proof -
  obtain cfg where cfg: "config = Some cfg" "bundle_valid chan cfg b" by (rule NewBundle_valid [OF assms])
  obtain g where g: "CfgChannelGroup cfg = Some g" "NewChannelConfig e g = Inr (channelConfig b)" "preValidate config = None"
    using assms cfg(1) by (auto simp: NewBundle_def result_simps Option.bind_eq_Some_conv split: option.splits)
  have "orderer_capable_first g"
    using g(1,3) cfg(1) by (auto simp: preValidate_def orderer_capable_first_def has_capabilities_def split: option.splits if_splits)
  with cfg g NewChannelConfig_checked [OF g(2)] that show thesis by (auto simp: bundle_checked_def)
qed

end
