(* ===== verification/Bft_Options.thy ===== *)
theory Bft_Options
  imports Prelude
begin

text \<open>
  The options of the BFT consensus, \<^verbatim>\<open>orderer/consensus/smartbft/util/util.go\<close>, and the
  validation of the configuration they give
  (\<^verbatim>\<open>vendor/github.com/hyperledger-labs/SmartBFT/pkg/types/config.go\<close>). Durations are in
  nanoseconds; \<open>parse\<close> is \<open>time.ParseDuration\<close>.
\<close>

record bft_options =
  oRequestBatchMaxCount :: u64
  oRequestBatchMaxBytes :: u64
  oRequestBatchMaxInterval :: string
  oIncomingMessageBufferSize :: u64
  oRequestPoolSize :: u64
  oRequestForwardTimeout :: string
  oRequestComplainTimeout :: string
  oRequestAutoRemoveTimeout :: string
  oViewChangeResendInterval :: string
  oViewChangeTimeout :: string
  oLeaderHeartbeatTimeout :: string
  oLeaderHeartbeatCount :: u64
  oCollectTimeout :: string
  oSyncOnStart :: bool
  oSpeedUpViewChange :: bool
  oLeaderRotationOn :: bool
  oDecisionsPerLeader :: u64
  oRequestMaxBytes :: u64

record configuration =
  SelfID :: u64
  RequestBatchMaxCount :: u64
  RequestBatchMaxBytes :: u64
  RequestBatchMaxInterval :: int
  IncomingMessageBufferSize :: u64
  RequestPoolSize :: u64
  RequestForwardTimeout :: int
  RequestComplainTimeout :: int
  RequestAutoRemoveTimeout :: int
  ViewChangeResendInterval :: int
  ViewChangeTimeout :: int
  LeaderHeartbeatTimeout :: int
  LeaderHeartbeatCount :: u64
  NumOfTicksBehindBeforeSyncing :: u64
  CollectTimeout :: int
  SyncOnStart :: bool
  SpeedUpViewChange :: bool
  LeaderRotation :: bool
  DecisionsPerLeader :: u64
  RequestMaxBytes :: u64
  RequestPoolSubmitTimeout :: int

definition validate_configuration :: "configuration \<Rightarrow> bool" where
  "validate_configuration c \<longleftrightarrow>
     SelfID c \<noteq> 0 \<and> RequestBatchMaxCount c \<noteq> 0 \<and> RequestBatchMaxBytes c \<noteq> 0 \<and>
     \<not> RequestBatchMaxInterval c \<le> 0 \<and> IncomingMessageBufferSize c \<noteq> 0 \<and> RequestPoolSize c \<noteq> 0 \<and>
     \<not> RequestForwardTimeout c \<le> 0 \<and> \<not> RequestComplainTimeout c \<le> 0 \<and> \<not> RequestAutoRemoveTimeout c \<le> 0 \<and>
     \<not> ViewChangeResendInterval c \<le> 0 \<and> \<not> ViewChangeTimeout c \<le> 0 \<and> \<not> LeaderHeartbeatTimeout c \<le> 0 \<and>
     LeaderHeartbeatCount c \<noteq> 0 \<and> NumOfTicksBehindBeforeSyncing c \<noteq> 0 \<and> \<not> CollectTimeout c \<le> 0 \<and>
     \<not> RequestBatchMaxBytes c < RequestBatchMaxCount c \<and>
     \<not> RequestComplainTimeout c < RequestForwardTimeout c \<and>
     \<not> RequestAutoRemoveTimeout c < RequestComplainTimeout c \<and>
     \<not> ViewChangeTimeout c < ViewChangeResendInterval c \<and>
     \<not> (LeaderRotation c \<and> DecisionsPerLeader c = 0) \<and> \<not> (\<not> LeaderRotation c \<and> DecisionsPerLeader c \<noteq> 0) \<and>
     RequestMaxBytes c \<noteq> 0 \<and> \<not> RequestPoolSubmitTimeout c \<le> 0"

definition duration :: "(string \<Rightarrow> int option) \<Rightarrow> string \<Rightarrow> error + int" where
  "duration parse s = (case parse s of None \<Rightarrow> Inl (Errorf ''bad config metadata option'') | Some d \<Rightarrow> Inr d)"

text \<open>Fields that the options do not set keep the values of \<open>DefaultConfig\<close>; the request size is
  validated at its default and replaced afterwards.\<close>

definition checked :: "u64 \<Rightarrow> configuration \<Rightarrow> error + configuration" where
  "checked requestMaxBytes config =
     (if \<not> validate_configuration config then Inl (Errorf ''config validation failed'')
      else Inr (config\<lparr>RequestMaxBytes :=
                  (if requestMaxBytes = 0 then RequestBatchMaxBytes config else requestMaxBytes)\<rparr>))"

definition ConfigFromMetadataOptions ::
    "(string \<Rightarrow> int option) \<Rightarrow> u64 \<Rightarrow> bft_options option \<Rightarrow> error + configuration" where
  "ConfigFromMetadataOptions parse selfID options =
     (case options of
        None \<Rightarrow> Inl (Errorf ''config metadata options field is nil'')
      | Some opt \<Rightarrow>
        bind_err (duration parse (oRequestBatchMaxInterval opt)) (\<lambda>d1.
        bind_err (duration parse (oRequestForwardTimeout opt)) (\<lambda>d2.
        bind_err (duration parse (oRequestComplainTimeout opt)) (\<lambda>d3.
        bind_err (duration parse (oRequestAutoRemoveTimeout opt)) (\<lambda>d4.
        bind_err (duration parse (oViewChangeResendInterval opt)) (\<lambda>d5.
        bind_err (duration parse (oViewChangeTimeout opt)) (\<lambda>d6.
        bind_err (duration parse (oLeaderHeartbeatTimeout opt)) (\<lambda>d7.
        bind_err (duration parse (oCollectTimeout opt)) (\<lambda>d8.
          checked (oRequestMaxBytes opt) \<lparr>SelfID = selfID,
                RequestBatchMaxCount = oRequestBatchMaxCount opt, RequestBatchMaxBytes = oRequestBatchMaxBytes opt,
                RequestBatchMaxInterval = d1, IncomingMessageBufferSize = oIncomingMessageBufferSize opt,
                RequestPoolSize = oRequestPoolSize opt, RequestForwardTimeout = d2, RequestComplainTimeout = d3,
                RequestAutoRemoveTimeout = d4, ViewChangeResendInterval = d5, ViewChangeTimeout = d6,
                LeaderHeartbeatTimeout = d7, LeaderHeartbeatCount = oLeaderHeartbeatCount opt,
                NumOfTicksBehindBeforeSyncing = 10, CollectTimeout = d8, SyncOnStart = oSyncOnStart opt,
                SpeedUpViewChange = oSpeedUpViewChange opt, LeaderRotation = oLeaderRotationOn opt,
                DecisionsPerLeader = (if oLeaderRotationOn opt then oDecisionsPerLeader opt else 0),
                RequestMaxBytes = 10 * 1024, RequestPoolSubmitTimeout = 5 * 10 ^ 9\<rparr>)))))))))"

lemma checked_valid: "checked n c = Inr config \<Longrightarrow> validate_configuration config"
  by (auto simp: checked_def validate_configuration_def split: if_splits)

lemma ConfigFromMetadataOptions_valid:
  "ConfigFromMetadataOptions parse selfID options = Inr config \<Longrightarrow> validate_configuration config"
  by (auto simp: ConfigFromMetadataOptions_def result_simps dest: checked_valid split: option.splits)

end
