(* ===== verification/Msg_Processor.thy ===== *)
theory Msg_Processor
  imports Channel_Config Bft_Options
begin

text \<open>
  The message processor of the orderer, \<^verbatim>\<open>orderer/common/msgprocessor\<close>: the filters that a
  message passes before it is ordered, the classification of messages, the processing of
  configuration updates, and the maintenance filter that guards a migration of the
  consensus type. The configuration that the filters read is the current bundle.

  A message is an \<open>envelope option\<close> because the code receives a pointer: the filters
  dereference it, so that a nil message panics.
\<close>

section \<open>The environment\<close>

text \<open>What the orderer adds to the platform: marshalling and signing, the command-line setting
  \<open>NoExpirationChecks\<close>, the expiry of a certificate (0 is the zero time), and the decoders of
  consensus metadata. \<open>raftConsenters\<close> is what a possibly failing \<open>proto.Unmarshal\<close> leaves in
  the message.\<close>

record builder =
  marshalChannelHeader :: "int \<Rightarrow> channel_header \<Rightarrow> bytes"
  marshalSignatureHeader :: "signature_header \<Rightarrow> bytes"
  marshalPayload :: "payload \<Rightarrow> bytes"
  marshalConfigEnvelope :: "config_envelope \<Rightarrow> bytes"

record signer =
  Serialize :: "error + bytes"
  Sign :: "bytes \<Rightarrow> error + bytes"

record 'id orderer_env = "'id platform" +
  Builder :: builder
  OrdererSigner :: signer
  NoExpirationChecks :: bool
  unmarshalSerializedIdentity :: "bytes \<Rightarrow> (string \<times> bytes) option"
  NotAfter :: "bytes \<Rightarrow> int"
  raftConsenters :: "bytes \<Rightarrow> consenter list"
  unmarshalBFTOptions :: "bytes \<Rightarrow> bft_options option"
  ValidateConsensusMetadata :: "orderer_config \<Rightarrow> orderer_config \<Rightarrow> bool \<Rightarrow> error option"

definition bundle_msp :: "('id, 'a) platform_scheme \<Rightarrow> Bundle \<Rightarrow> 'id msp" where
  "bundle_msp e b = MSPManager e (MSPs (channelConfig b))"

text \<open>\<open>crypto.ExpiresAt\<close>\<close>

definition ExpiresAt :: "'id orderer_env \<Rightarrow> bytes \<Rightarrow> int" where
  "ExpiresAt e identityBytes =
     (case unmarshalSerializedIdentity e identityBytes of
        None \<Rightarrow> 0
      | Some (_, idBytes) \<Rightarrow> NotAfter e idBytes)"

section \<open>Signed envelopes\<close>

definition NewSignatureHeader :: "signer \<Rightarrow> error + bytes \<Rightarrow> error + signature_header" where
  "NewSignatureHeader sg nonce =
     bind_err (Serialize sg) (\<lambda>creator. bind_err nonce (\<lambda>n. Inr \<lparr>Creator = creator, Nonce = n\<rparr>))"

definition MakePayloadHeader :: "builder \<Rightarrow> int \<Rightarrow> channel_header \<Rightarrow> signature_header \<Rightarrow> payload_header" where
  "MakePayloadHeader bld tm ch sh =
     \<lparr>ChannelHeaderBytes = Some (marshalChannelHeader bld tm ch), SignatureHeaderBytes = marshalSignatureHeader bld sh\<rparr>"

definition CreateSignedEnvelope ::
    "builder \<Rightarrow> signer \<Rightarrow> int \<Rightarrow> error + bytes \<Rightarrow> int \<Rightarrow> string \<Rightarrow> bytes \<Rightarrow> error + envelope" where
  "CreateSignedEnvelope bld sg tm nonce txType chan data =
     bind_err (NewSignatureHeader sg nonce) (\<lambda>sh.
       let ch = \<lparr>HdrType = txType, ChannelId = chan, TxId = ''''\<rparr>;
           paylBytes = marshalPayload bld \<lparr>Header = Some (MakePayloadHeader bld tm ch sh), Data = data\<rparr>
       in bind_err (Sign sg paylBytes) (\<lambda>sig. Inr \<lparr>Payload = Some paylBytes, Signature = sig\<rparr>))"

section \<open>Filters\<close>

datatype rule =
    EmptyRejectRule
  | AcceptRule
  | MaxBytesRule
  | ExpirationRejectRule
  | SigFilter string string

definition messageByteSize :: "envelope \<Rightarrow> u32" where
  "messageByteSize m = of_nat (length (slice (Payload m)) + length (Signature m))"

definition apply_expiration :: "'id orderer_env \<Rightarrow> int \<Rightarrow> orderer_config \<Rightarrow> envelope \<Rightarrow> error option" where
  "apply_expiration e now oc msg =
     (if \<not> ExpirationCheck (OrdererCapabilities oc) then None
      else (case EnvelopeAsSignedData (pCodec e) msg of
              Inl _ \<Rightarrow> Some (Errorf ''could not convert message to signedData'')
            | Inr sds \<Rightarrow>
                (let expirationTime = ExpiresAt e (SdIdentity (hd sds))
                 in if expirationTime = 0 \<or> now < expirationTime then None
                    else Some (Errorf ''broadcast client identity expired''))))"

definition apply_sig ::
    "'id orderer_env \<Rightarrow> Bundle \<Rightarrow> string \<Rightarrow> string \<Rightarrow> orderer_config \<Rightarrow> envelope \<Rightarrow> error option go" where
  "apply_sig e b normalPolicyName maintenancePolicyName oc msg =
     (case EnvelopeAsSignedData (pCodec e) msg of
        Inl _ \<Rightarrow> Ret (Some (Errorf ''could not convert message to signedData''))
      | Inr sds \<Rightarrow>
          (let policyName = (if ConsensusState oc = STATE_MAINTENANCE then maintenancePolicyName else normalPolicyName)
           in bind_go (GetPolicy (policyManager b) policyName) (\<lambda>(pol, ok).
                if \<not> ok then Ret (Some (Errorf ''could not find policy''))
                else (case EvaluateSignedData (bundle_msp e b) pol sds of
                        Some _ \<Rightarrow> Ret (Some (WithMessage ErrPermissionDenied ''signature set did not satisfy policy''))
                      | None \<Rightarrow> Ret None))))"

definition Apply :: "'id orderer_env \<Rightarrow> Bundle \<Rightarrow> int \<Rightarrow> rule \<Rightarrow> envelope option \<Rightarrow> error option go" where
  "Apply e b now r message =
     (case r of
        AcceptRule \<Rightarrow> Ret None
      | EmptyRejectRule \<Rightarrow>
          (case message of
             None \<Rightarrow> Panic ''nil pointer dereference''
           | Some m \<Rightarrow> Ret (if Payload m = None then Some ErrEmptyMessage else None))
      | MaxBytesRule \<Rightarrow>
          (case OrdererConfig b of
             None \<Rightarrow> Panic ''Programming error: orderer config not found''
           | Some oc \<Rightarrow>
               (case message of
                  None \<Rightarrow> Panic ''nil pointer dereference''
                | Some m \<Rightarrow>
                    Ret (if AbsoluteMaxBytes (BatchSize oc) < messageByteSize m
                         then Some (Errorf ''message payload exceeds maximum allowed bytes'') else None)))
      | ExpirationRejectRule \<Rightarrow>
          (case OrdererConfig b of
             None \<Rightarrow> Panic ''Programming error: orderer config not found''
           | Some oc \<Rightarrow>
               (case message of
                  None \<Rightarrow> Ret (if ExpirationCheck (OrdererCapabilities oc)
                               then Some (Errorf ''could not convert message to signedData'') else None)
                | Some m \<Rightarrow> Ret (apply_expiration e now oc m)))
      | SigFilter normal maintenance \<Rightarrow>
          (case OrdererConfig b of
             None \<Rightarrow> Panic ''Programming error: orderer config not found''
           | Some oc \<Rightarrow>
               (case message of
                  None \<Rightarrow> Ret (Some (Errorf ''could not convert message to signedData''))
                | Some m \<Rightarrow> apply_sig e b normal maintenance oc m)))"

text \<open>\<open>RuleSet.Apply\<close>: the rules in order, up to the first rejection.\<close>

fun apply_rules :: "'id orderer_env \<Rightarrow> Bundle \<Rightarrow> int \<Rightarrow> rule list \<Rightarrow> envelope option \<Rightarrow> error option go" where
  "apply_rules e b now [] msg = Ret None"
| "apply_rules e b now (r # rs) msg =
     bind_go (Apply e b now r msg) (\<lambda>res.
       case res of Some er \<Rightarrow> Ret (Some er) | None \<Rightarrow> apply_rules e b now rs msg)"

abbreviation (input) "ChannelWriters \<equiv> ''/Channel/Writers''"
abbreviation (input) "ChannelOrdererWriters \<equiv> ''/Channel/Orderer/Writers''"

definition CreateStandardChannelFilters :: "bool \<Rightarrow> rule list" where
  "CreateStandardChannelFilters noExpirationChecks =
     (let rules = [EmptyRejectRule, MaxBytesRule, SigFilter ChannelWriters ChannelOrdererWriters]
      in if \<not> noExpirationChecks then take 2 rules @ [ExpirationRejectRule] @ drop 2 rules else rules)"

definition apply_filters :: "'id orderer_env \<Rightarrow> Bundle \<Rightarrow> int \<Rightarrow> envelope option \<Rightarrow> error option go" where
  "apply_filters e b now msg = apply_rules e b now (CreateStandardChannelFilters (NoExpirationChecks e)) msg"

section \<open>Classification and normal messages\<close>

datatype classification = NormalMsg | ConfigUpdateMsg | ConfigMsg | UnsupportedMsg

definition ClassifyMsg :: "channel_header \<Rightarrow> classification" where
  "ClassifyMsg chdr =
     (if HdrType chdr = HeaderType_CONFIG_UPDATE then ConfigUpdateMsg
      else if HdrType chdr = HeaderType_ORDERER_TRANSACTION then UnsupportedMsg
      else if HdrType chdr = HeaderType_CONFIG then ConfigMsg
      else NormalMsg)"

definition ProcessNormalMsg :: "'id orderer_env \<Rightarrow> Bundle \<Rightarrow> int \<Rightarrow> envelope option \<Rightarrow> (error + u64) go" where
  "ProcessNormalMsg e b now env =
     (case OrdererConfig b of
        None \<Rightarrow> Panic ''Missing orderer config''
      | Some oc \<Rightarrow>
          if orderer_ConsensusTypeMigration (OrdererCapabilities oc) \<and> ConsensusState oc \<noteq> STATE_NORMAL
          then Ret (Inl (WithMessage ErrMaintenanceMode ''normal transactions are rejected''))
          else (let configSeq = sequence (configtxManager b)
                in fail_if (apply_filters e b now env) id (Ret (Inr configSeq))))"

section \<open>The maintenance filter\<close>

text \<open>\<open>ensureConsensusTypeChangeOnly\<close>; reading the groups of a nil write set is a nil dereference.\<close>

definition ensureConsensusTypeChangeOnly :: "'id orderer_env \<Rightarrow> envelope \<Rightarrow> error option go" where
  "ensureConsensusTypeChangeOnly e lastUpdate =
     (case EnvelopeToConfigUpdate (pCodec e) (pConfigCodec e) lastUpdate of
        Inl er \<Rightarrow> Ret (Some (WithMessage er ''envelope to config update unmarshalling error''))
      | Inr configUpdateEnv \<Rightarrow>
        (case UnmarshalConfigUpdate (pConfigCodec e) (CueConfigUpdate configUpdateEnv) of
           Inl er \<Rightarrow> Ret (Some (WithMessage er ''config update unmarshalling error''))
         | Inr configUpdate \<Rightarrow>
           (case CuWriteSet configUpdate of
              None \<Rightarrow> Panic ''nil pointer dereference''
            | Some ws \<Rightarrow> Ret (
                if length (CgGroups ws) = 0 then Some (Errorf ''config update contains no changes'')
                else if 0 < length (CgValues ws) then Some (Errorf ''config update contains changes to values in group'')
                else if 1 < length (CgGroups ws) then Some (Errorf ''config update contains changes to more than one group'')
                else (case map_of (CgGroups ws) ''Orderer'' of
                        None \<Rightarrow> Some (Errorf ''update does not contain the Orderer group'')
                      | Some ordGroup \<Rightarrow>
                          if 0 < length (CgGroups ordGroup)
                            then Some (Errorf ''config update contains changes to groups within the Orderer group'')
                          else if map_of (CgValues ordGroup) ''ConsensusType'' = None
                            then Some (Errorf ''config update does not contain the ConsensusType value'')
                          else if 1 < length (CgValues ordGroup)
                            then Some (Errorf ''config update contain more then just the ConsensusType value'')
                          else None)))))"

definition same_endpoint :: "consenter \<Rightarrow> consenter \<Rightarrow> bool" where
  "same_endpoint r b \<longleftrightarrow> CnPort r = CnPort b \<and> CnHost r = CnHost b \<and>
     CnServerTlsCert r = CnServerTlsCert b \<and> CnClientTlsCert r = CnClientTlsCert b"

definition validateBFTConsenterMapping :: "'id orderer_env \<Rightarrow> orderer_config \<Rightarrow> orderer_config \<Rightarrow> error option" where
  "validateBFTConsenterMapping e current nxt =
     (let raft = raftConsenters e (ConsensusMetadata current); bft = Consenters nxt
      in if length bft = 0 then Some (Errorf ''Invalid new config: bft consenters are missing'')
         else if length raft \<noteq> length bft
           then Some (Errorf ''Invalid new config: the number of bft consenters is not equal to the number of raft consenters'')
         else if list_all (\<lambda>r. list_ex (same_endpoint r) bft) raft then None
         else Some (Errorf ''No suitable BFT consenter for Raft consenter''))"

text \<open>The checks on a change of the consensus type.\<close>

definition inspect_type_change :: "'id orderer_env \<Rightarrow> orderer_config \<Rightarrow> orderer_config \<Rightarrow> error option" where
  "inspect_type_change e oc noc =
     (if ConsensusState oc = STATE_NORMAL
        then Some (Errorf ''current config ConsensusType.State is not in maintenance mode'')
      else if ConsensusState noc = STATE_NORMAL
        then Some (Errorf ''next config ConsensusType.State is not in maintenance mode'')
      else if ConsensusType noc \<noteq> ''BFT'' then Some (Errorf ''transition not supported'')
      else (case unmarshalBFTOptions e (ConsensusMetadata noc) of
              None \<Rightarrow> Some (Errorf ''failed to unmarshal BFT metadata configuration'')
            | Some opts \<Rightarrow>
                (case ConfigFromMetadataOptions (ParseDuration e) 1 (Some opts) of
                   Inl _ \<Rightarrow> Some (Errorf ''invalid BFT metadata configuration'')
                 | Inr _ \<Rightarrow>
                     map_option (\<lambda>er. WithMessage er ''invalid BFT consenter mapping configuration'')
                       (validateBFTConsenterMapping e oc noc))))"

definition inspect :: "'id orderer_env \<Rightarrow> string \<Rightarrow> config_envelope \<Rightarrow> orderer_config \<Rightarrow> error option go" where
  "inspect e chan configEnvelope oc =
     (case CeLastUpdate configEnvelope of
        None \<Rightarrow> Ret (Some (Errorf ''updated config does not include a config update''))
      | Some lastUpdate \<Rightarrow>
        bind_go (NewBundle e chan (CeConfig configEnvelope)) (\<lambda>r.
        case r of
          Inl er \<Rightarrow> Ret (Some (WithMessage er ''failed to parse config''))
        | Inr bdl \<Rightarrow>
          (case OrdererConfig bdl of
             None \<Rightarrow> Ret (Some (Errorf ''next config is missing orderer group''))
           | Some noc \<Rightarrow>
             if \<not> orderer_ConsensusTypeMigration (OrdererCapabilities oc) then
               (if ConsensusState noc \<noteq> STATE_NORMAL
                  then Ret (Some (Errorf ''next config attempted to change ConsensusType.State, but capability is disabled''))
                else if ConsensusType oc \<noteq> ConsensusType noc
                  then Ret (Some (Errorf ''next config attempted to change ConsensusType.Type, but capability is disabled''))
                else Ret None)
             else
               bind_go (if ConsensusState oc \<noteq> ConsensusState noc then
                          bind_go (ensureConsensusTypeChangeOnly e lastUpdate) (\<lambda>er.
                            case er of
                              Some er \<Rightarrow> Ret (Some er)
                            | None \<Rightarrow>
                                if ConsensusType oc \<noteq> ConsensusType noc
                                  then Ret (Some (Errorf ''attempted to change ConsensusType.Type, but ConsensusType.State is changing''))
                                else if ConsensusMetadata noc \<noteq> ConsensusMetadata oc
                                  then Ret (Some (Errorf ''attempted to change ConsensusType.Metadata, but ConsensusType.State is changing''))
                                else Ret None)
                        else Ret None) (\<lambda>er.
                 case er of
                   Some er \<Rightarrow> Ret (Some er)
                 | None \<Rightarrow>
                     if ConsensusType oc \<noteq> ConsensusType noc then Ret (inspect_type_change e oc noc)
                     else Ret None))))"

definition MaintenanceFilter_Apply :: "'id orderer_env \<Rightarrow> Bundle \<Rightarrow> envelope \<Rightarrow> error option go" where
  "MaintenanceFilter_Apply e b message =
     (case OrdererConfig b of
        None \<Rightarrow> Panic ''Programming error: orderer config not found''
      | Some oc \<Rightarrow>
        (case UnmarshalEnvelopeOfType (pCodec e) (unmarshalConfigEnvelope (pConfigCodec e)) message HeaderType_CONFIG of
           Inl er \<Rightarrow> Ret (Some (WithMessage er ''envelope unmarshalling failed''))
         | Inr (_, configEnvelope) \<Rightarrow>
             bind_go (inspect e (channelID (configtxManager b)) configEnvelope oc) (\<lambda>r.
               Ret (map_option (\<lambda>er. WithMessage er ''config transaction inspection failed'') r))))"

section \<open>Configuration messages\<close>

text \<open>\<open>ChainSupport.ProposeConfigUpdate\<close> of \<^verbatim>\<open>orderer/common/multichannel/chainsupport.go\<close>.\<close>

definition ProposeConfigUpdate :: "'id orderer_env \<Rightarrow> Bundle \<Rightarrow> envelope \<Rightarrow> (error + config_envelope) go" where
  "ProposeConfigUpdate e b configtx =
     bind_res (proposeConfigUpdate (pCodec e) (pConfigCodec e) (bundle_msp e b) (configtxManager b) configtx) (\<lambda>env.
     bind_res (NewBundle e (channelID (configtxManager b)) (CeConfig env)) (\<lambda>bdl.
     fail_if (Ret (checkResources bdl)) (\<lambda>er. WithMessage er ''config update is not compatible'') (
     fail_if (Ret (ValidateNew b bdl)) id (
     case OrdererConfig b of
       None \<Rightarrow> Panic ''old config is missing orderer group''
     | Some oldOrdererConfig \<Rightarrow>
       (case OrdererConfig bdl of
          None \<Rightarrow> Panic ''new config is missing orderer group''
        | Some newOrdererConfig \<Rightarrow>
            fail_if (Ret (ValidateConsensusMetadata e oldOrdererConfig newOrdererConfig False))
              (\<lambda>er. WithMessage er ''consensus metadata update for channel config update is invalid'')
              (Ret (Inr env)))))))"

text \<open>\<open>clk i\<close> is the \<open>i\<close>-th reading of the clock in the call, \<open>nonce\<close> the random bytes drawn.\<close>

definition ProcessConfigUpdateMsg ::
    "'id orderer_env \<Rightarrow> Bundle \<Rightarrow> (nat \<Rightarrow> int) \<Rightarrow> error + bytes \<Rightarrow> envelope option \<Rightarrow> (error + envelope \<times> u64) go" where
  "ProcessConfigUpdateMsg e b clk nonce env =
     (let sq = sequence (configtxManager b) in
      fail_if (apply_filters e b (clk 0) env)
        (\<lambda>er. WithMessage er ''config update for existing channel did not pass initial checks'') (
      case env of
        None \<Rightarrow> Panic ''nil pointer dereference''
      | Some configtx \<Rightarrow>
      bind_res (bind_go (ProposeConfigUpdate e b configtx)
                  (\<lambda>r. Ret (wrap_err ''error applying config update to existing channel'' r))) (\<lambda>configEnvelope.
      bind_res (Ret (CreateSignedEnvelope (Builder e) (OrdererSigner e) (clk 1) nonce HeaderType_CONFIG
                       (channelID (configtxManager b)) (marshalConfigEnvelope (Builder e) configEnvelope))) (\<lambda>config.
      fail_if (apply_filters e b (clk 2) (Some config))
        (\<lambda>er. WithMessage er ''config update for existing channel did not pass final checks'') (
      fail_if (MaintenanceFilter_Apply e b config)
        (\<lambda>er. WithMessage er ''config update for existing channel did not pass maintenance checks'') (
      Ret (Inr (config, sq))))))))"

definition ProcessConfigMsg ::
    "'id orderer_env \<Rightarrow> Bundle \<Rightarrow> (nat \<Rightarrow> int) \<Rightarrow> error + bytes \<Rightarrow> envelope \<Rightarrow> (error + envelope \<times> u64) go" where
  "ProcessConfigMsg e b clk nonce env =
     (case UnmarshalEnvelopeOfType (pCodec e) (unmarshalConfigEnvelope (pConfigCodec e)) env HeaderType_CONFIG of
        Inl er \<Rightarrow> Ret (Inl er)
      | Inr (_, configEnvelope) \<Rightarrow> ProcessConfigUpdateMsg e b clk nonce (CeLastUpdate configEnvelope))"

section \<open>What an admitted message satisfies\<close>

lemma apply_rules_append:
  "apply_rules e b now (rs @ rs') msg =
     bind_go (apply_rules e b now rs msg) (\<lambda>res. case res of Some er \<Rightarrow> Ret (Some er) | None \<Rightarrow> apply_rules e b now rs' msg)"
proof (induction rs)
  case (Cons r rs)
  show ?case by (cases "Apply e b now r msg") (auto simp: Cons split: option.splits)
qed simp

lemma apply_rules_accept: "apply_rules e b now rs msg = Ret None \<longleftrightarrow> (\<forall>r \<in> set rs. Apply e b now r msg = Ret None)"
proof (induction rs)
  case (Cons r rs)
  show ?case by (cases "Apply e b now r msg") (auto simp: Cons split: option.splits)
qed simp

lemma apply_rules_returns:
  "\<forall>r \<in> set rs. \<exists>x. Apply e b now r msg = Ret x \<Longrightarrow> \<exists>x. apply_rules e b now rs msg = Ret x"
proof (induction rs)
  case (Cons r rs)
  then obtain x y where "Apply e b now r msg = Ret x" "apply_rules e b now rs msg = Ret y" by auto
  then show ?case by (cases x) auto
qed simp

lemma standard_filters:
  "set (CreateStandardChannelFilters ne) =
     {EmptyRejectRule, MaxBytesRule, SigFilter ChannelWriters ChannelOrdererWriters} \<union> (if ne then {} else {ExpirationRejectRule})"
  by (auto simp: CreateStandardChannelFilters_def Let_def)

text \<open>The policy that must be satisfied depends on the state of the consensus type.\<close>

definition writers_policy :: "orderer_config \<Rightarrow> string" where
  "writers_policy oc = (if ConsensusState oc = STATE_MAINTENANCE then ChannelOrdererWriters else ChannelWriters)"

definition admitted :: "'id orderer_env \<Rightarrow> Bundle \<Rightarrow> int \<Rightarrow> envelope \<Rightarrow> bool" where
  "admitted e b now m \<longleftrightarrow> (\<exists>oc sd pol.
     OrdererConfig b = Some oc \<and> Payload m \<noteq> None \<and> messageByteSize m \<le> AbsoluteMaxBytes (BatchSize oc) \<and>
     EnvelopeAsSignedData (pCodec e) m = Inr [sd] \<and> SdData sd = slice (Payload m) \<and> SdSignature sd = Signature m \<and>
     (\<not> NoExpirationChecks e \<and> ExpirationCheck (OrdererCapabilities oc) \<longrightarrow>
        ExpiresAt e (SdIdentity sd) = 0 \<or> now < ExpiresAt e (SdIdentity sd)) \<and>
     GetPolicy (policyManager b) (writers_policy oc) = Ret (pol, True) \<and>
     EvaluateSignedData (bundle_msp e b) pol [sd] = None)"

lemma EnvelopeAsSignedData_single:
  "EnvelopeAsSignedData c m = Inr sds \<Longrightarrow> \<exists>sd. sds = [sd] \<and> SdData sd = slice (Payload m) \<and> SdSignature sd = Signature m"
  by (auto simp: EnvelopeAsSignedData_def split: option.splits)

lemma apply_sig_accept:
  assumes "apply_sig e b ChannelWriters ChannelOrdererWriters oc m = Ret None"
  obtains sd pol where "EnvelopeAsSignedData (pCodec e) m = Inr [sd]" "SdData sd = slice (Payload m)"
    "SdSignature sd = Signature m" "GetPolicy (policyManager b) (writers_policy oc) = Ret (pol, True)"
    "EvaluateSignedData (bundle_msp e b) pol [sd] = None"
proof -
  obtain sds where sds: "EnvelopeAsSignedData (pCodec e) m = Inr sds"
    using assms by (auto simp: apply_sig_def split: sum.splits)
  then obtain sd where sd: "sds = [sd]" "SdData sd = slice (Payload m)" "SdSignature sd = Signature m"
    using EnvelopeAsSignedData_single by blast
  obtain pol ok where "GetPolicy (policyManager b) (writers_policy oc) = Ret (pol, ok)"
    using assms sds by (cases "GetPolicy (policyManager b) (writers_policy oc)")
      (auto simp: apply_sig_def writers_policy_def Let_def)
  with assms sds sd that show thesis
    by (auto simp: apply_sig_def writers_policy_def Let_def split: if_splits option.splits)
qed

lemma apply_filters_admitted:
  assumes "apply_filters e b now (Some m) = Ret None"
  shows "admitted e b now m"
proof -
  have rule: "r \<in> set (CreateStandardChannelFilters (NoExpirationChecks e)) \<Longrightarrow> Apply e b now r (Some m) = Ret None" for r
    using assms by (simp add: apply_filters_def apply_rules_accept)
  have empty: "Payload m \<noteq> None"
    using rule [of EmptyRejectRule] by (auto simp: standard_filters Apply_def split: if_splits)
  obtain oc where oc: "OrdererConfig b = Some oc" "messageByteSize m \<le> AbsoluteMaxBytes (BatchSize oc)"
    using rule [of MaxBytesRule] by (auto simp: standard_filters Apply_def split: option.splits if_splits)
  have "apply_sig e b ChannelWriters ChannelOrdererWriters oc m = Ret None"
    using rule [of "SigFilter ChannelWriters ChannelOrdererWriters"] oc by (simp add: standard_filters Apply_def)
  then obtain sd pol where sd: "EnvelopeAsSignedData (pCodec e) m = Inr [sd]" "SdData sd = slice (Payload m)"
      "SdSignature sd = Signature m" "GetPolicy (policyManager b) (writers_policy oc) = Ret (pol, True)"
      "EvaluateSignedData (bundle_msp e b) pol [sd] = None"
    by (rule apply_sig_accept)
  have "apply_expiration e now oc m = None" if "\<not> NoExpirationChecks e"
    using rule [of ExpirationRejectRule] oc that by (simp add: standard_filters Apply_def)
  then have "\<not> NoExpirationChecks e \<and> ExpirationCheck (OrdererCapabilities oc) \<longrightarrow>
      ExpiresAt e (SdIdentity sd) = 0 \<or> now < ExpiresAt e (SdIdentity sd)"
    using sd(1) by (auto simp: apply_expiration_def Let_def split: if_splits)
  with empty oc sd show ?thesis by (auto simp: admitted_def)
qed

lemma ProcessNormalMsg_admits:
  assumes "ProcessNormalMsg e b now (Some m) = Ret (Inr sq)"
  shows "sq = sequence (configtxManager b) \<and> admitted e b now m \<and>
    (\<forall>oc. OrdererConfig b = Some oc \<and> orderer_ConsensusTypeMigration (OrdererCapabilities oc) \<longrightarrow>
       ConsensusState oc = STATE_NORMAL)"
  using assms by (auto simp: ProcessNormalMsg_def Let_def result_simps dest: apply_filters_admitted
      split: option.splits if_splits)

lemma writers_policy_returns:
  "mgr_path mgr = RootGroupKey \<Longrightarrow> \<exists>x. GetPolicy mgr (writers_policy oc) = Ret x"
  by (auto simp: GetPolicy_def writers_policy_def Let_def split: option.splits)

lemma apply_filters_returns:
  assumes "bundle_valid chan cfg b" "OrdererConfig b = Some oc"
  shows "\<exists>x. apply_filters e b now (Some m) = Ret x"
  unfolding apply_filters_def
proof (rule apply_rules_returns, rule ballI)
  fix r assume r: "r \<in> set (CreateStandardChannelFilters (NoExpirationChecks e))"
  have "mgr_path (policyManager b) = RootGroupKey" using assms(1) by (simp add: bundle_valid_def)
  then obtain pol ok where pol: "GetPolicy (policyManager b) (writers_policy oc) = Ret (pol, ok)"
    using writers_policy_returns [of "policyManager b" oc] by auto
  have "\<exists>x. apply_sig e b ChannelWriters ChannelOrdererWriters oc m = Ret x"
    using pol by (auto simp: apply_sig_def writers_policy_def Let_def split: sum.splits option.splits)
  with r assms(2) show "\<exists>x. Apply e b now r (Some m) = Ret x"
    by (auto simp: standard_filters Apply_def split: if_splits)
qed

lemma ProcessNormalMsg_returns:
  assumes "bundle_valid chan cfg b" "OrdererConfig b \<noteq> None"
  shows "\<exists>r. ProcessNormalMsg e b now (Some m) = Ret r"
proof -
  obtain oc where oc: "OrdererConfig b = Some oc" using assms(2) by auto
  obtain x where "apply_filters e b now (Some m) = Ret x" using apply_filters_returns [OF assms(1) oc] by blast
  with oc show ?thesis by (cases x) (auto simp: ProcessNormalMsg_def Let_def)
qed

section \<open>Migration of the consensus type\<close>

text \<open>The transitions that the maintenance filter allows.\<close>

definition allowed_transition :: "'id orderer_env \<Rightarrow> orderer_config \<Rightarrow> orderer_config \<Rightarrow> bool" where
  "allowed_transition e oc noc \<longleftrightarrow>
     (ConsensusState oc \<noteq> ConsensusState noc \<longrightarrow> ConsensusType noc = ConsensusType oc \<and>
        (orderer_ConsensusTypeMigration (OrdererCapabilities oc) \<longrightarrow> ConsensusMetadata noc = ConsensusMetadata oc)) \<and>
     (ConsensusType oc \<noteq> ConsensusType noc \<longrightarrow>
        orderer_ConsensusTypeMigration (OrdererCapabilities oc) \<and>
        ConsensusState oc \<noteq> STATE_NORMAL \<and> ConsensusState noc \<noteq> STATE_NORMAL \<and> ConsensusType noc = ''BFT'' \<and>
        validateBFTConsenterMapping e oc noc = None)"

lemma inspect_type_change_accept:
  "inspect_type_change e oc noc = None \<Longrightarrow>
   ConsensusState oc \<noteq> STATE_NORMAL \<and> ConsensusState noc \<noteq> STATE_NORMAL \<and> ConsensusType noc = ''BFT'' \<and>
   validateBFTConsenterMapping e oc noc = None"
  by (auto simp: inspect_type_change_def split: if_splits option.splits sum.splits)

lemma inspect_accept:
  assumes "inspect e chan ce oc = Ret None"
  obtains bdl noc lastUpdate where "NewBundle e chan (CeConfig ce) = Ret (Inr bdl)" "OrdererConfig bdl = Some noc"
    "CeLastUpdate ce = Some lastUpdate" "allowed_transition e oc noc"
proof -
  obtain lastUpdate where lu: "CeLastUpdate ce = Some lastUpdate"
    using assms by (auto simp: inspect_def split: option.splits)
  obtain bdl where bdl: "NewBundle e chan (CeConfig ce) = Ret (Inr bdl)"
    using assms lu by (cases "NewBundle e chan (CeConfig ce)") (auto simp: inspect_def split: sum.splits)
  obtain noc where noc: "OrdererConfig bdl = Some noc"
    using assms lu bdl by (auto simp: inspect_def split: option.splits)
  have "allowed_transition e oc noc"
  proof (cases "orderer_ConsensusTypeMigration (OrdererCapabilities oc)")
    case False
    with assms lu bdl noc show ?thesis
      by (auto simp: inspect_def allowed_transition_def split: if_splits)
  next
    case True
    show ?thesis
    proof (cases "ConsensusState oc = ConsensusState noc")
      case same: True
      with True assms lu bdl noc show ?thesis
        by (auto simp: inspect_def allowed_transition_def dest: inspect_type_change_accept split: if_splits)
    next
      case False
      with True assms lu bdl noc show ?thesis
        by (cases "ensureConsensusTypeChangeOnly e lastUpdate")
          (auto simp: inspect_def allowed_transition_def split: if_splits option.splits)
    qed
  qed
  with that lu bdl noc show thesis by blast
qed

text \<open>When the endpoints of the Raft consenters are pairwise different, an accepted mapping pairs
  them off with the BFT consenters.\<close>

lemma same_endpoint_inj:
  "same_endpoint r b \<Longrightarrow> same_endpoint r' b \<Longrightarrow> same_endpoint r r'"
  by (simp add: same_endpoint_def)

definition distinct_endpoints :: "consenter list \<Rightarrow> bool" where
  "distinct_endpoints cs \<longleftrightarrow> (\<forall>i < length cs. \<forall>j < length cs. i \<noteq> j \<longrightarrow> \<not> same_endpoint (cs ! i) (cs ! j))"

lemma matching_covers:
  assumes len: "length raft = length bft" and ex: "\<forall>r \<in> set raft. \<exists>b \<in> set bft. same_endpoint r b"
    and "distinct_endpoints raft" and b: "b \<in> set bft"
  shows "\<exists>r \<in> set raft. same_endpoint r b"
proof -
  have "\<exists>k < length bft. same_endpoint (raft ! i) (bft ! k)" if i: "i < length raft" for i
  proof -
    obtain b where "b \<in> set bft" "same_endpoint (raft ! i) b" using ex nth_mem [OF i] by blast
    then show ?thesis by (auto simp: in_set_conv_nth)
  qed
  then have "\<forall>i. \<exists>k. i < length raft \<longrightarrow> k < length bft \<and> same_endpoint (raft ! i) (bft ! k)" by blast
  from choice [OF this] obtain f
    where f: "\<And>i. i < length raft \<Longrightarrow> f i < length bft \<and> same_endpoint (raft ! i) (bft ! (f i))" by blast
  have inj: "inj_on f {..<length raft}"
  proof (rule inj_onI, rule ccontr)
    fix i j assume "i \<in> {..<length raft}" "j \<in> {..<length raft}" "f i = f j" "i \<noteq> j"
    then have "i < length raft" "j < length raft" "same_endpoint (raft ! i) (raft ! j)"
      using f [of i] f [of j] same_endpoint_inj [of "raft ! i" "bft ! (f i)" "raft ! j"] by simp_all
    with assms(3) \<open>i \<noteq> j\<close> show False by (simp add: distinct_endpoints_def)
  qed
  have "f ` {..<length raft} = {..<length bft}"
  proof (rule card_subset_eq)
    show "f ` {..<length raft} \<subseteq> {..<length bft}" using f by auto
    show "card (f ` {..<length raft}) = card {..<length bft}" unfolding card_image [OF inj] using len by simp
  qed simp
  moreover obtain k where "k < length bft" "b = bft ! k" using b by (auto simp: in_set_conv_nth)
  ultimately have "k \<in> f ` {..<length raft}" by simp
  then obtain i where "i < length raft" "k = f i" by auto
  with f [of i] \<open>b = bft ! k\<close> have "raft ! i \<in> set raft" "same_endpoint (raft ! i) b" by simp_all
  then show ?thesis by blast
qed

lemma validateBFTConsenterMapping_covers:
  assumes "validateBFTConsenterMapping e oc noc = None" "distinct_endpoints (raftConsenters e (ConsensusMetadata oc))"
    and "b \<in> set (Consenters noc)"
  shows "\<exists>r \<in> set (raftConsenters e (ConsensusMetadata oc)). same_endpoint r b"
proof (rule matching_covers [OF _ _ assms(2,3)])
  show "length (raftConsenters e (ConsensusMetadata oc)) = length (Consenters noc)"
    using assms(1) by (simp add: validateBFTConsenterMapping_def Let_def split: if_splits)
  show "\<forall>r \<in> set (raftConsenters e (ConsensusMetadata oc)). \<exists>b \<in> set (Consenters noc). same_endpoint r b"
    using assms(1) by (simp add: validateBFTConsenterMapping_def Let_def list_all_iff list_ex_iff split: if_splits)
qed

section \<open>Accepted configuration updates\<close>

lemma CreateSignedEnvelope_facts:
  assumes "CreateSignedEnvelope bld sg tm nonce t chan data = Inr env"
  obtains sh where "Payload env = Some (marshalPayload bld \<lparr>Header = Some
      (MakePayloadHeader bld tm \<lparr>HdrType = t, ChannelId = chan, TxId = ''''\<rparr> sh), Data = data\<rparr>)"
  using assms by (auto simp: CreateSignedEnvelope_def result_simps Let_def)

lemma ProposeConfigUpdate_facts:
  assumes "ProposeConfigUpdate e b tx = Ret (Inr ce)"
  obtains bdl oc noc where
    "proposeConfigUpdate (pCodec e) (pConfigCodec e) (bundle_msp e b) (configtxManager b) tx = Ret (Inr ce)"
    "NewBundle e (channelID (configtxManager b)) (CeConfig ce) = Ret (Inr bdl)" "checkResources bdl = None"
    "ValidateNew b bdl = None" "OrdererConfig b = Some oc" "OrdererConfig bdl = Some noc"
  using assms that by (auto simp: ProposeConfigUpdate_def result_simps split: option.splits)

lemma ProcessConfigUpdateMsg_facts:
  assumes "ProcessConfigUpdateMsg e b clk nonce env = Ret (Inr (config, sq))"
  obtains tx ce where "env = Some tx" "admitted e b (clk 0) tx" "ProposeConfigUpdate e b tx = Ret (Inr ce)"
    "CreateSignedEnvelope (Builder e) (OrdererSigner e) (clk 1) nonce HeaderType_CONFIG
       (channelID (configtxManager b)) (marshalConfigEnvelope (Builder e) ce) = Inr config"
    "admitted e b (clk 2) config" "MaintenanceFilter_Apply e b config = Ret None" "sq = sequence (configtxManager b)"
proof -
  have wrap: "bind_go r (\<lambda>x. Ret (wrap_err msg x)) = Ret (Inr y) \<longleftrightarrow> r = Ret (Inr y)"
    for r :: "(error + config_envelope) go" and msg y
    by (cases r) auto
  show thesis
    using assms that
    by (auto simp: ProcessConfigUpdateMsg_def Let_def result_simps wrap dest: apply_filters_admitted split: option.splits)
qed

end
