(* ===== verification/Sample_Channel.thy ===== *)
theory Sample_Channel
  imports Msg_Processor
begin

text \<open>A channel with an orderer section, one client identity that writes and administers it, and
  an update of the batch size that the client signs. The codecs and the membership service
  are concrete functions.\<close>

definition sample_val :: "u64 \<Rightarrow> byte \<Rightarrow> config_value" where
  "sample_val ver b = \<lparr>CvVersion = ver, CvValue = [b], CvModPolicy = ''/Channel/Admins''\<rparr>"

definition sample_pol :: config_policy where
  "sample_pol = \<lparr>CpVersion = 0, CpPolicy = Some \<lparr>PpType = Policy_SIGNATURE, PpValue = []\<rparr>, CpModPolicy = ''/Channel/Admins''\<rparr>"

definition sample_channel_group :: "u64 \<Rightarrow> byte \<Rightarrow> config_group" where
  "sample_channel_group ver count = ConfigGroup 0
     [(''Orderer'', ConfigGroup 0 [] [(''BatchSize'', sample_val ver count), (''BatchTimeout'', sample_val 0 0)] [] ''/Channel/Admins'')]
     [(''HashingAlgorithm'', sample_val 0 0), (''BlockDataHashingStructure'', sample_val 0 0),
      (''OrdererAddresses'', sample_val 0 0)]
     [(''Writers'', sample_pol), (''Admins'', sample_pol)] ''/Channel/Admins''"

definition sample_values :: value_codec where
  "sample_values = \<lparr>unmarshalName = (\<lambda>_. Some ''SHA256''), unmarshalWidth = (\<lambda>_. Some (- 1)),
     unmarshalAddresses = (\<lambda>_. Some [''orderer:7050'']), unmarshalOrderers = (\<lambda>_. None), unmarshalCapabilities = (\<lambda>_. None),
     unmarshalConsensusType = (\<lambda>_. None),
     unmarshalBatchSize = (\<lambda>bs. case bs of
         [b] \<Rightarrow> Some \<lparr>MaxMessageCount = of_nat (unat b), AbsoluteMaxBytes = 1000, PreferredMaxBytes = 100\<rparr> | _ \<Rightarrow> None),
     unmarshalMaxCount = (\<lambda>_. None), unmarshalMSPConfig = (\<lambda>_. None), unmarshalAnchorPeers = (\<lambda>_. None),
     unmarshalACLs = (\<lambda>_. None), unmarshalPolicy = (\<lambda>_. None),
     unmarshalSignaturePolicy = (\<lambda>_. Some (0, SignedBy 0, [sample_principal 1])), unmarshalImplicitMeta = (\<lambda>_. None)\<rparr>"

definition sample_builder :: builder where
  "sample_builder = \<lparr>
     marshalChannelHeader = (\<lambda>tm ch. put_items [[of_int (HdrType ch)], bytes_of_string (ChannelId ch), bytes_of_string (TxId ch)]),
     marshalSignatureHeader = (\<lambda>sh. put_items [Creator sh, Nonce sh]),
     marshalPayload = (\<lambda>p. case Header p of
         None \<Rightarrow> put_items [Data p]
       | Some h \<Rightarrow> put_items [slice (ChannelHeaderBytes h), SignatureHeaderBytes h, Data p]),
     marshalConfigEnvelope = (\<lambda>_. [])\<rparr>"

definition sample_orderer :: signer where
  "sample_orderer = \<lparr>Serialize = Inr [1], Sign = (\<lambda>_. Inr [1])\<rparr>"

definition sample_message :: "int \<Rightarrow> envelope" where
  "sample_message t = (case CreateSignedEnvelope sample_builder sample_orderer 0 (Inr [9]) t ''ch'' [] of
     Inl _ \<Rightarrow> \<lparr>Payload = None, Signature = []\<rparr> | Inr env \<Rightarrow> env)"

definition sample_channel_update :: config_update where
  "sample_channel_update = \<lparr>CuChannelId = ''ch'',
     CuReadSet = Some (ConfigGroup 0 [(''Orderer'', ConfigGroup 0 [] [] [] '''')] [] [] ''''),
     CuWriteSet = Some (ConfigGroup 0 [(''Orderer'', ConfigGroup 0 [] [(''BatchSize'', sample_val 1 20)] [] '''')] [] [] '''')\<rparr>"

definition sample_update_signature :: config_signature where
  "sample_update_signature = \<lparr>CsSignatureHeader = put_items [[1], [9]], CsSignature = [1]\<rparr>"

definition sample_config :: "u64 \<Rightarrow> u64 \<Rightarrow> byte \<Rightarrow> config_proto" where
  "sample_config sq ver count = \<lparr>CfgSequence = sq, CfgChannelGroup = Some (sample_channel_group ver count)\<rparr>"

definition sample_new_config :: config_envelope where
  "sample_new_config = \<lparr>CeConfig = Some (sample_config 8 1 20), CeLastUpdate = Some (sample_message HeaderType_CONFIG_UPDATE)\<rparr>"

definition sample_env :: "bytes orderer_env" where
  "sample_env = \<lparr>pCodec = sample_codec,
     pConfigCodec = \<lparr>unmarshalConfigEnvelope = (\<lambda>_. Some sample_new_config),
       unmarshalConfigUpdateEnvelope = (\<lambda>_. Some \<lparr>CueConfigUpdate = [], CueSignatures = [sample_update_signature]\<rparr>),
       unmarshalConfigUpdate = (\<lambda>_. Some sample_channel_update)\<rparr>,
     pValueCodec = sample_values,
     MSPSetup = (\<lambda>_ _. Inr ''Org1''), MSPManagerSetup = (\<lambda>_. None), MSPManager = (\<lambda>_. sample_msp), ParseDuration = (\<lambda>_. Some 2),
     Builder = sample_builder, OrdererSigner = sample_orderer, NoExpirationChecks = True,
     unmarshalSerializedIdentity = (\<lambda>_. None), NotAfter = (\<lambda>_. 0), raftConsenters = (\<lambda>_. []),
     unmarshalBFTOptions = (\<lambda>_. None), ValidateConsensusMetadata = (\<lambda>_ _ _. None)\<rparr>"

definition sample_oc :: "byte \<Rightarrow> orderer_config" where
  "sample_oc count = zero_orderer\<lparr>BatchSize := \<lparr>MaxMessageCount = of_nat (unat count), AbsoluteMaxBytes = 1000, PreferredMaxBytes = 100\<rparr>,
     BatchTimeoutString := ''SHA256'', BatchTimeout := 2\<rparr>"

definition sample_cc :: "byte \<Rightarrow> channel_config" where
  "sample_cc count = zero_channel\<lparr>HashingAlgorithm := ''SHA256'', BlockDataHashingStructureWidth := - 1,
     OrdererAddresses := [''orderer:7050''], ordererConfig := Some (sample_oc count)\<rparr>"

definition sample_mgr :: manager where
  "sample_mgr = ManagerImpl ''Channel''
     [(''Writers'', SigPolicy (CSignedBy (sample_principal 1))), (''Admins'', SigPolicy (CSignedBy (sample_principal 1)))]
     [(''Orderer'', ManagerImpl ''Channel/Orderer'' [] [])]"

definition sample_map :: "u64 \<Rightarrow> byte \<Rightarrow> config_map" where
  "sample_map ver count = (case mapConfig (Some (sample_channel_group ver count)) ''Channel'' of Inl _ \<Rightarrow> [] | Inr cm \<Rightarrow> cm)"

definition sample_bundle :: "u64 \<Rightarrow> u64 \<Rightarrow> byte \<Rightarrow> Bundle" where
  "sample_bundle sq ver count = \<lparr>policyManager = sample_mgr, channelConfig = sample_cc count,
     configtxManager = \<lparr>channelID = ''ch'', sequence = sq, configMap = sample_map ver count, namespace = ''Channel'', pm = sample_mgr\<rparr>\<rparr>"

lemmas sample_parts = sample_channel_group_def sample_val_def sample_pol_def sample_env_def sample_values_def

lemma sample_channel_config:
  "(ucast count :: u32) \<noteq> 0 \<Longrightarrow> NewChannelConfig sample_env (sample_channel_group ver count) = Inr (sample_cc count)"
  by (simp add: sample_parts sample_cc_def sample_oc_def NewChannelConfig_def DeserializeProtoValuesFromGroup_def
      Deserialize_def channel_fields_def set_field_def zero_channel_def validate_channel_def OrgSpecificOrdererEndpoints_def
      ConsensusTypeBFT_def channel_group_def MSPVersion_def NewOrdererConfig_def orderer_fields_def zero_orderer_def
      validateBatchSize_def validateBatchTimeout_def)

lemma sample_manager:
  "NewManagerImpl (unmarshalImplicitMeta (pValueCodec sample_env)) ''Channel''
    [(Policy_SIGNATURE, NewPolicy (unmarshalSignaturePolicy (pValueCodec sample_env)))] (sample_channel_group ver count)
   = Ret (Inr sample_mgr)"
  by (simp add: sample_parts sample_mgr_def NewPolicy_def new_policy_def overlay_policies_def)

lemma sample_map: "mapConfig (Some (sample_channel_group ver count)) ''Channel'' = Inr (sample_map ver count)"
  by (simp add: sample_map_def mapConfig_def sample_parts addToMap_def validateConfigID_def find_config_def config_char_def
      in_range_def)

lemma sample_NewBundle:
  assumes "(ucast count :: u32) \<noteq> 0"
  shows "NewBundle sample_env ''ch'' (Some (sample_config sq ver count)) = Ret (Inr (sample_bundle sq ver count))"
proof -
  have "preValidate (Some (sample_config sq ver count)) = None"
    by (simp add: preValidate_def sample_config_def sample_channel_group_def)
  moreover have "NewValidatorImpl ''ch'' (Some (sample_config sq ver count)) ''Channel'' sample_mgr
      = Inr (configtxManager (sample_bundle sq ver count))"
    by (simp add: sample_map NewValidatorImpl_def sample_config_def sample_bundle_def ValidateChannelID_def
      find_channel_def channel_char_def in_range_def)
  ultimately show ?thesis
    using sample_channel_config [OF assms] sample_manager
    by (simp add: NewBundle_def sample_config_def sample_bundle_def)
qed

lemma sample_message:
  "sample_message t = \<lparr>Payload = Some (put_items [put_items [[of_int t], bytes_of_string ''ch'', []], put_items [[1], [9]], []]),
     Signature = [1]\<rparr>"
  by (simp add: sample_message_def CreateSignedEnvelope_def NewSignatureHeader_def MakePayloadHeader_def sample_orderer_def
      sample_builder_def bytes_of_string_def slice_def)

lemma sample_payload:
  "unmarshalPayload sample_codec (put_items [a, b, d]) =
     Some \<lparr>Header = Some \<lparr>ChannelHeaderBytes = Some a, SignatureHeaderBytes = b\<rparr>, Data = d\<rparr>"
  "unmarshalSignatureHeader sample_codec (put_items [a, b]) = Some \<lparr>Creator = a, Nonce = b\<rparr>"
  "unmarshalChannelHeader sample_codec (put_items [a, b, d]) =
     Some \<lparr>HdrType = int (be_val a), ChannelId = string_of_bytes b, TxId = string_of_bytes d\<rparr>"
  by (simp_all add: sample_codec_def)

lemma sample_admits: "apply_filters sample_env (sample_bundle sq ver count) now (Some (sample_message t)) = Ret None"
proof -
  have policy: "GetPolicy sample_mgr ''/Channel/Writers'' = Ret (PolicyLogger (SigPolicy (CSignedBy (sample_principal 1))) ''/Channel/Writers'', True)"
    by code_simp
  have sds: "EnvelopeAsSignedData sample_codec (sample_message t) =
      Inr [\<lparr>SdData = slice (Payload (sample_message t)), SdIdentity = [1], SdSignature = [1]\<rparr>]"
    by (simp add: EnvelopeAsSignedData_def sample_message sample_payload slice_def)
  have accepts: "EvaluateSignedData sample_msp (PolicyLogger (SigPolicy (CSignedBy (sample_principal 1))) ''/Channel/Writers'')
      [\<lparr>SdData = d, SdIdentity = [1], SdSignature = [1]\<rparr>] = None" for d
    by (simp add: SignatureSetToValidIdentities_def sample_msp_def sample_principal_def)
  have size: "messageByteSize (sample_message t) \<le> 1000"
    by (simp add: messageByteSize_def sample_message put_items_def bytes_of_string_def slice_def)
  show ?thesis
    using policy sds accepts size
    by (simp add: apply_filters_def CreateStandardChannelFilters_def Apply_def sample_env_def OrdererConfig_def sample_bundle_def
        sample_cc_def sample_oc_def zero_orderer_def apply_sig_def bundle_msp_def sample_message)
qed

lemma sample_proposal:
  "proposeConfigUpdate sample_codec (pConfigCodec sample_env) sample_msp (configtxManager (sample_bundle 7 0 10))
     (sample_message HeaderType_CONFIG_UPDATE) = Ret (Inr sample_new_config)"
  by code_simp

lemma sample_orderer_config: "OrdererConfig (sample_bundle sq ver count) = Some (sample_oc count)"
  by (simp add: OrdererConfig_def sample_bundle_def sample_cc_def)

lemma sample_ProposeConfigUpdate:
  "ProposeConfigUpdate sample_env (sample_bundle 7 0 10) (sample_message HeaderType_CONFIG_UPDATE) = Ret (Inr sample_new_config)"
proof -
  have resources: "checkResources (sample_bundle 8 1 20) = None"
    by (simp add: checkResources_def sample_orderer_config Supported_def)
      (simp add: sample_oc_def zero_orderer_def sample_bundle_def sample_cc_def zero_channel_def)
  have valid: "ValidateNew (sample_bundle 7 0 10) (sample_bundle 8 1 20) = None"
    by (simp add: ValidateNew_def validate_new_orderer_def validate_new_application_def validate_new_consortiums_def same_msp_def
        sample_bundle_def sample_cc_def sample_oc_def zero_orderer_def zero_channel_def)
  have "pCodec sample_env = sample_codec" "bundle_msp sample_env (sample_bundle 7 0 10) = sample_msp"
    "ValidateConsensusMetadata sample_env = (\<lambda>_ _ _. None)" "channelID (configtxManager (sample_bundle 7 0 10)) = ''ch''"
    "CeConfig sample_new_config = Some (sample_config 8 1 20)"
    by (simp_all add: sample_env_def bundle_msp_def sample_bundle_def sample_new_config_def)
  with resources valid show ?thesis
    by (simp add: ProposeConfigUpdate_def sample_proposal sample_NewBundle sample_orderer_config)
qed

lemma sample_maintenance:
  "MaintenanceFilter_Apply sample_env (sample_bundle 7 0 10) (sample_message HeaderType_CONFIG) = Ret None"
proof -
  have "UnmarshalEnvelopeOfType (pCodec sample_env) (unmarshalConfigEnvelope (pConfigCodec sample_env))
      (sample_message HeaderType_CONFIG) HeaderType_CONFIG
    = Inr (\<lparr>HdrType = 1, ChannelId = ''ch'', TxId = ''''\<rparr>, sample_new_config)"
    by code_simp
  moreover have "channelID (configtxManager (sample_bundle 7 0 10)) = ''ch''" "CeConfig sample_new_config = Some (sample_config 8 1 20)"
    "CeLastUpdate sample_new_config = Some (sample_message 2)"
    by (simp_all add: sample_bundle_def sample_new_config_def)
  moreover have "\<not> orderer_ConsensusTypeMigration (OrdererCapabilities (sample_oc count))" "ConsensusState (sample_oc count) = 0"
    "ConsensusType (sample_oc count) = ''''" for count
    by (simp_all add: sample_oc_def zero_orderer_def orderer_ConsensusTypeMigration_def)
  ultimately show ?thesis
    by (simp add: MaintenanceFilter_Apply_def sample_orderer_config inspect_def sample_NewBundle)
qed

lemma sample_config_update:
  "ProcessConfigUpdateMsg sample_env (sample_bundle 7 0 10) (\<lambda>_. 0) (Inr [9]) (Some (sample_message HeaderType_CONFIG_UPDATE))
   = Ret (Inr (sample_message HeaderType_CONFIG, 7))"
proof -
  have "CreateSignedEnvelope (Builder sample_env) (OrdererSigner sample_env) 0 (Inr [9]) HeaderType_CONFIG ''ch''
      (marshalConfigEnvelope (Builder sample_env) sample_new_config) = Inr (sample_message HeaderType_CONFIG)"
    by code_simp
  moreover have "channelID (configtxManager (sample_bundle 7 0 10)) = ''ch''" "sequence (configtxManager (sample_bundle 7 0 10)) = 7"
    by (simp_all add: sample_bundle_def)
  ultimately show ?thesis
    by (simp add: ProcessConfigUpdateMsg_def Let_def sample_admits sample_ProposeConfigUpdate sample_maintenance)
qed

end
