(* ===== verification/Admission.thy ===== *)
theory Admission
  imports Sample_Channel
begin

text \<open>
  What the orderer guarantees about the messages and the configurations it admits: the
  properties of the channel configuration (\<^verbatim>\<open>common/channelconfig\<close>), of the message processor
  (\<^verbatim>\<open>orderer/common/msgprocessor\<close>) and of its composition with the block cutter.
\<close>

section \<open>Bundles\<close>

text \<open>C33: A bundle that can be built from a configuration has passed the checks of all its sections. Channel: the
  hash algorithm and the hashing structure are the supported ones, global orderer addresses are set
  when organizations cannot have their own and are not set with BFT consensus, the groups are the known
  sections, each in the bundle exactly when it is in the configuration, and the membership services
  could be set up. Orderer: the batch limits are positive with the preferred size at most the absolute one,
  the timeout is the positive duration that the configuration states, with BFT consensus every
  organization has endpoints, and without the capability for them none has. Application: access control
  lists only with their capability. Organizations: no sub-groups, and a membership service that the
  bundle registers. Capabilities: if the orderer has none, then neither the channel nor the application
  has any. The channel name is valid, and the managers of policies and configurations have the root, the
  sequence number and the map of the configuration.\<close>

theorem bundle_well_formed:
  assumes "NewBundle e chan config = Ret (Inr b)"
  shows "\<exists>cfg. config = Some cfg \<and> bundle_checked e chan cfg b"
  using NewBundle_checked [OF assms] by blast

theorem bundle_well_formed_witness:
  "NewBundle sample_env ''ch'' (Some (sample_config 7 0 10)) = Ret (Inr (sample_bundle 7 0 10)) \<and>
   bundle_checked sample_env ''ch'' (sample_config 7 0 10) (sample_bundle 7 0 10)"
proof -
  have "NewBundle sample_env ''ch'' (Some (sample_config 7 0 10)) = Ret (Inr (sample_bundle 7 0 10))"
    by (rule sample_NewBundle) simp
  with bundle_well_formed [OF this] show ?thesis by simp
qed

section \<open>Normal messages\<close>

lemma admitted_apply_filters:
  assumes "admitted e b now m"
  shows "apply_filters e b now (Some m) = Ret None"
proof -
  obtain oc sd pol where ad: "OrdererConfig b = Some oc" "Payload m \<noteq> None" "messageByteSize m \<le> AbsoluteMaxBytes (BatchSize oc)"
      "EnvelopeAsSignedData (pCodec e) m = Inr [sd]"
      "\<not> NoExpirationChecks e \<and> ExpirationCheck (OrdererCapabilities oc) \<longrightarrow>
        ExpiresAt e (SdIdentity sd) = 0 \<or> now < ExpiresAt e (SdIdentity sd)"
      "GetPolicy (policyManager b) (writers_policy oc) = Ret (pol, True)" "EvaluateSignedData (bundle_msp e b) pol [sd] = None"
    using assms by (auto simp: admitted_def)
  then have "Apply e b now r (Some m) = Ret None" if "r \<in> set (CreateStandardChannelFilters (NoExpirationChecks e))" for r
    using that by (auto simp: standard_filters Apply_def apply_sig_def apply_expiration_def writers_policy_def Let_def
        not_less split: if_splits)
  then show ?thesis by (simp add: apply_filters_def apply_rules_accept)
qed

lemma apply_filters_iff: "apply_filters e b now (Some m) = Ret None \<longleftrightarrow> admitted e b now m"
  using apply_filters_admitted admitted_apply_filters by blast

definition normal_mode :: "Bundle \<Rightarrow> bool" where
  "normal_mode b \<longleftrightarrow> (case OrdererConfig b of None \<Rightarrow> False | Some oc \<Rightarrow>
     \<not> orderer_ConsensusTypeMigration (OrdererCapabilities oc) \<or> ConsensusState oc = STATE_NORMAL)"

text \<open>C20: A normal message is accepted exactly when the channel is not in maintenance mode and the message is
  admitted: it has a payload, is within the absolute size limit, its certificate has not expired, and
  its signature over the payload satisfies the writers policy of the channel. The result is the
  sequence number of the configuration it was checked against. With a bundle that was built from a
  configuration with an orderer section, the call never panics.\<close>

theorem normal_message_accepted_iff:
  "(ProcessNormalMsg e b now (Some m) = Ret (Inr sq) \<longleftrightarrow>
     normal_mode b \<and> admitted e b now m \<and> sq = sequence (configtxManager b)) \<and>
   (NewBundle e chan config = Ret (Inr b) \<and> OrdererConfig b \<noteq> None \<longrightarrow> (\<exists>r. ProcessNormalMsg e b now (Some m) = Ret r))"
proof -
  have "ProcessNormalMsg e b now (Some m) = Ret (Inr sq) \<longleftrightarrow>
      normal_mode b \<and> apply_filters e b now (Some m) = Ret None \<and> sq = sequence (configtxManager b)"
    by (auto simp: ProcessNormalMsg_def normal_mode_def Let_def result_simps split: option.splits)
  moreover have "\<exists>r. ProcessNormalMsg e b now (Some m) = Ret r" if "NewBundle e chan config = Ret (Inr b)" "OrdererConfig b \<noteq> None"
    using NewBundle_valid [OF that(1)] ProcessNormalMsg_returns [OF _ that(2)] by metis
  ultimately show ?thesis by (simp add: apply_filters_iff)
qed

theorem normal_message_accepted_iff_witness:
  "(ProcessNormalMsg sample_env (sample_bundle 7 0 10) 0 (Some (sample_message 3)) = Ret (Inr 7) \<longleftrightarrow>
     normal_mode (sample_bundle 7 0 10) \<and> admitted sample_env (sample_bundle 7 0 10) 0 (sample_message 3)) \<and>
   ProcessNormalMsg sample_env (sample_bundle 7 0 10) 0 (Some (sample_message 3)) = Ret (Inr 7) \<and>
   (\<exists>r. ProcessNormalMsg sample_env (sample_bundle 7 0 10) 0 (Some \<lparr>Payload = None, Signature = []\<rparr>) = Ret r)"
proof -
  have b: "NewBundle sample_env ''ch'' (Some (sample_config 7 0 10)) = Ret (Inr (sample_bundle 7 0 10))"
    by (rule sample_NewBundle) simp
  have oc: "OrdererConfig (sample_bundle 7 0 10) \<noteq> None" by (simp add: sample_orderer_config)
  have sq: "sequence (configtxManager (sample_bundle 7 0 10)) = 7" by (simp add: sample_bundle_def)
  then have "ProcessNormalMsg sample_env (sample_bundle 7 0 10) 0 (Some (sample_message 3)) = Ret (Inr 7)"
    using sample_admits by (simp add: ProcessNormalMsg_def sample_orderer_config sample_oc_def zero_orderer_def)
  with b oc normal_message_accepted_iff [of sample_env "sample_bundle 7 0 10" 0 "sample_message 3" 7 "''ch''" "Some (sample_config 7 0 10)"]
    normal_message_accepted_iff [of sample_env "sample_bundle 7 0 10" 0 "\<lparr>Payload = None, Signature = []\<rparr>" 7 "''ch''" "Some (sample_config 7 0 10)"]
  show ?thesis by (simp add: sq)
qed

section \<open>Admission and the block cutter\<close>

lemma messageByteSize_small: "msg_bytes m < 2 ^ 32 \<Longrightarrow> unat (messageByteSize m) = msg_bytes m"
proof -
  assume "msg_bytes m < 2 ^ 32"
  moreover have "messageByteSize m = of_nat (msg_bytes m)" by (simp only: messageByteSize_def msg_bytes_def)
  ultimately show ?thesis by (simp add: unat_of_nat take_bit_nat_eq_self)
qed

text \<open>C23: Batches of admitted messages respect the limits of the channel: when every message that the block
  cutter is given was admitted under a bundle that was built from a configuration, each batch it cuts
  has at least one and at most \<open>MaxMessageCount\<close> messages and at most \<open>AbsoluteMaxBytes\<close> bytes.\<close>

theorem admitted_batches_within_absolute_limit:
  assumes "NewBundle e chan config = Ret (Inr b)" "OrdererConfig b = Some oc" "unat (PreferredMaxBytes (BatchSize oc)) < 2 ^ 31"
    and "\<forall>(clk, m) \<in> set ms. msg_bytes m < 2 ^ 32 \<and> (\<exists>now. admitted e b now m)"
    and "ordered_seq (BatchSize oc) ms NewReceiverImpl = Ret (bss, r)"
  shows "\<forall>batch \<in> set bss. 0 < length batch \<and> length batch \<le> unat (MaxMessageCount (BatchSize oc)) \<and>
    batch_bytes batch \<le> unat (AbsoluteMaxBytes (BatchSize oc))"
proof
  let ?bz = "BatchSize oc"
  fix batch assume batch: "batch \<in> set bss"
  obtain cfg where "bundle_valid chan cfg b" using NewBundle_valid [OF assms(1)] by blast
  with assms(2) have oc: "0 < MaxMessageCount ?bz" "PreferredMaxBytes ?bz \<le> AbsoluteMaxBytes ?bz"
    by (auto simp: bundle_valid_def channel_valid_def orderer_valid_def OrdererConfig_def)
  have "\<forall>(clk, m) \<in> set ms. msg_bytes m < 2 ^ 32" using assms(4) by auto
  from ordered_seq_bounds [OF assms(3) this pending_ok_init [OF oc(1)] assms(5)] batch
  have ok: "batch_ok ?bz batch" by (simp add: list_all_iff)
  have "batch_bytes batch \<le> unat (AbsoluteMaxBytes ?bz)"
  proof (cases "length batch = 1")
    case True
    then obtain m where m: "batch = [m]" by (auto simp: length_Suc_conv)
    obtain bss' r' where "ordered_seq ?bz ms NewReceiverImpl = Ret (bss', r')" "concat bss' @ pendingBatch r' = map snd ms"
      using cutter_queue by blast
    with assms(5) have "set (concat bss) \<subseteq> set (map snd ms)" by (metis Pair_inject Un_upper1 go.inject(1) set_append)
    moreover have "m \<in> set (concat bss)" using batch m by (metis UN_I list.set_intros(1) set_concat)
    ultimately have "m \<in> snd ` set ms" by auto
    with assms(4) obtain now where "msg_bytes m < 2 ^ 32" "admitted e b now m" by auto
    with assms(2) m show ?thesis using messageByteSize_small [of m] by (auto simp: admitted_def word_le_nat_alt batch_bytes_def)
  next
    case False
    with ok oc(2) show ?thesis by (auto simp: batch_ok_def word_le_nat_alt)
  qed
  with ok show "0 < length batch \<and> length batch \<le> unat (MaxMessageCount ?bz) \<and> batch_bytes batch \<le> unat (AbsoluteMaxBytes ?bz)"
    by (simp add: batch_ok_def)
qed

theorem admitted_batches_within_absolute_limit_witness:
  "\<exists>bss r. ordered_seq (BatchSize (sample_oc 1)) [(\<lambda>_. 0, sample_message 3)] NewReceiverImpl = Ret (bss, r) \<and> bss \<noteq> [] \<and>
     (\<forall>batch \<in> set bss. 0 < length batch \<and> length batch \<le> 1 \<and> batch_bytes batch \<le> 1000)"
proof -
  let ?ms = "[(\<lambda>_. 0, sample_message 3)] :: ((nat \<Rightarrow> int) \<times> envelope) list"
  have b: "NewBundle sample_env ''ch'' (Some (sample_config 7 0 1)) = Ret (Inr (sample_bundle 7 0 1))" by (rule sample_NewBundle) simp
  have bz: "MaxMessageCount (BatchSize (sample_oc 1)) = 1" "PreferredMaxBytes (BatchSize (sample_oc 1)) = 100"
      "AbsoluteMaxBytes (BatchSize (sample_oc 1)) = 1000"
    by (simp_all add: sample_oc_def)
  obtain bss r where run: "ordered_seq (BatchSize (sample_oc 1)) ?ms NewReceiverImpl = Ret (bss, r)"
      "concat bss @ pendingBatch r = map snd ?ms"
    using cutter_queue by blast
  have small: "msg_bytes (sample_message 3) < 2 ^ 32"
    by (simp add: msg_bytes_def sample_message put_items_def bytes_of_string_def slice_def)
  then have ms: "\<forall>(clk, m) \<in> set ?ms. msg_bytes m < 2 ^ 32 \<and> (\<exists>now. admitted sample_env (sample_bundle 7 0 1) now m)"
    using sample_admits by (auto simp: apply_filters_iff)
  have pref: "unat (PreferredMaxBytes (BatchSize (sample_oc 1))) < 2 ^ 31" by (simp add: bz)
  have "pending_ok (BatchSize (sample_oc 1)) r"
    using ordered_seq_bounds [OF pref _ pending_ok_init run(1)] small by (simp add: bz)
  then have "pendingBatch r = []" by (simp add: pending_ok_def bz)
  with run(2) have "bss \<noteq> []" by auto
  moreover have "\<forall>batch \<in> set bss. 0 < length batch \<and> length batch \<le> 1 \<and> batch_bytes batch \<le> 1000"
    using admitted_batches_within_absolute_limit [OF b sample_orderer_config pref ms run(1)] by (simp add: bz)
  ultimately show ?thesis using run(1) by blast
qed

section \<open>Migration of the consensus type\<close>

text \<open>C22: A configuration that passes the maintenance filter is one that a bundle can be built from, and it
  changes the consensus type only as a migration may: the state of the consensus type does not change
  together with the type, and the type changes only to BFT, with the capability enabled, while the
  channel is in maintenance mode before and after, and with a mapping of the consenters.\<close>

theorem maintenance_filter_transitions:
  assumes "MaintenanceFilter_Apply e b message = Ret None"
  shows "\<exists>oc ch ce bdl noc. OrdererConfig b = Some oc \<and>
    UnmarshalEnvelopeOfType (pCodec e) (unmarshalConfigEnvelope (pConfigCodec e)) message HeaderType_CONFIG = Inr (ch, ce) \<and>
    NewBundle e (channelID (configtxManager b)) (CeConfig ce) = Ret (Inr bdl) \<and> OrdererConfig bdl = Some noc \<and>
    allowed_transition e oc noc"
proof -
  obtain oc where oc: "OrdererConfig b = Some oc" using assms by (auto simp: MaintenanceFilter_Apply_def split: option.splits)
  obtain ch ce where ce: "UnmarshalEnvelopeOfType (pCodec e) (unmarshalConfigEnvelope (pConfigCodec e)) message HeaderType_CONFIG
      = Inr (ch, ce)"
    using assms oc by (auto simp: MaintenanceFilter_Apply_def split: sum.splits)
  have "inspect e (channelID (configtxManager b)) ce oc = Ret None"
    using assms oc ce by (auto simp: MaintenanceFilter_Apply_def result_simps)
  then show ?thesis by (rule inspect_accept) (use oc ce in blast)
qed

theorem maintenance_filter_transitions_witness:
  "\<exists>oc ch ce bdl noc. OrdererConfig (sample_bundle 7 0 10) = Some oc \<and>
    UnmarshalEnvelopeOfType (pCodec sample_env) (unmarshalConfigEnvelope (pConfigCodec sample_env)) (sample_message HeaderType_CONFIG)
      HeaderType_CONFIG = Inr (ch, ce) \<and>
    NewBundle sample_env (channelID (configtxManager (sample_bundle 7 0 10))) (CeConfig ce) = Ret (Inr bdl) \<and>
    OrdererConfig bdl = Some noc \<and> allowed_transition sample_env oc noc"
  by (rule maintenance_filter_transitions [OF sample_maintenance])

text \<open>C34: In an accepted migration from Raft to BFT the consenters stay the same: when the Raft consenters have
  pairwise different endpoints, every BFT consenter has the host, the port and the certificates of
  exactly one Raft consenter, and every Raft consenter those of a BFT consenter.\<close>

theorem consenter_mapping_complete:
  assumes "validateBFTConsenterMapping e oc noc = None" "distinct_endpoints (raftConsenters e (ConsensusMetadata oc))"
  shows "(\<forall>b \<in> set (Consenters noc). \<exists>!i. i < length (raftConsenters e (ConsensusMetadata oc)) \<and>
      same_endpoint (raftConsenters e (ConsensusMetadata oc) ! i) b) \<and>
    (\<forall>r \<in> set (raftConsenters e (ConsensusMetadata oc)). \<exists>b \<in> set (Consenters noc). same_endpoint r b)"
proof -
  let ?raft = "raftConsenters e (ConsensusMetadata oc)"
  have "\<exists>!i. i < length ?raft \<and> same_endpoint (?raft ! i) b" if b: "b \<in> set (Consenters noc)" for b
  proof -
    obtain i where i: "i < length ?raft" "same_endpoint (?raft ! i) b"
      using validateBFTConsenterMapping_covers [OF assms b] by (auto simp: in_set_conv_nth)
    moreover have "j = i" if "j < length ?raft" "same_endpoint (?raft ! j) b" for j
      using assms(2) same_endpoint_inj [OF that(2) i(2)] that(1) i(1) by (auto simp: distinct_endpoints_def)
    ultimately show ?thesis by blast
  qed
  moreover have "\<forall>r \<in> set ?raft. \<exists>b \<in> set (Consenters noc). same_endpoint r b"
    using assms(1) by (simp add: validateBFTConsenterMapping_def Let_def list_all_iff list_ex_iff split: if_splits)
  ultimately show ?thesis by blast
qed

definition sample_consenter :: "u32 \<Rightarrow> string \<Rightarrow> consenter" where
  "sample_consenter i h = \<lparr>CnId = i, CnHost = h, CnPort = 7050, CnMspId = ''Org1'', CnIdentity = [], CnClientTlsCert = [1],
     CnServerTlsCert = [2]\<rparr>"

definition sample_raft_env :: "bytes orderer_env" where
  "sample_raft_env = sample_env\<lparr>raftConsenters := (\<lambda>_. [sample_consenter 0 ''a'', sample_consenter 0 ''b''])\<rparr>"

theorem consenter_mapping_complete_witness:
  "\<exists>!i. i < length (raftConsenters sample_raft_env []) \<and>
     same_endpoint (raftConsenters sample_raft_env [] ! i) (sample_consenter 1 ''b'')"
proof -
  let ?oc = "zero_orderer" and ?noc = "zero_orderer\<lparr>Consenters := [sample_consenter 1 ''b'', sample_consenter 2 ''a'']\<rparr>"
  have "validateBFTConsenterMapping sample_raft_env ?oc ?noc = None"
    by (simp add: validateBFTConsenterMapping_def sample_raft_env_def sample_consenter_def same_endpoint_def)
  moreover have "distinct_endpoints (raftConsenters sample_raft_env (ConsensusMetadata ?oc))"
    by (auto simp: distinct_endpoints_def sample_raft_env_def sample_consenter_def same_endpoint_def less_Suc_eq)
  ultimately show ?thesis using consenter_mapping_complete [of sample_raft_env ?oc ?noc] by (simp add: zero_orderer_def)
qed

section \<open>Configuration updates\<close>

text \<open>C21: An accepted configuration update yields a message that is itself admitted, signed by the orderer, and
  checked against the current configuration, whose sequence number is returned. The configuration it
  carries is the proposal of the configuration manager for the update: it has the next sequence
  number, a bundle with supported capabilities can be built from it, no organisation that stays
  changes its membership service, and the update that the client signed is kept in it.\<close>

theorem config_update_accepted:
  assumes "ProcessConfigUpdateMsg e b clk nonce env = Ret (Inr (config, sq))"
  shows "\<exists>tx ce cfg bdl. env = Some tx \<and> admitted e b (clk 0) tx \<and> admitted e b (clk 2) config \<and>
    sq = sequence (configtxManager b) \<and>
    CreateSignedEnvelope (Builder e) (OrdererSigner e) (clk 1) nonce HeaderType_CONFIG (channelID (configtxManager b))
      (marshalConfigEnvelope (Builder e) ce) = Inr config \<and>
    CeConfig ce = Some cfg \<and> CfgSequence cfg = sq + 1 \<and> CeLastUpdate ce = Some tx \<and>
    NewBundle e (channelID (configtxManager b)) (Some cfg) = Ret (Inr bdl) \<and> checkResources bdl = None \<and> ValidateNew b bdl = None"
proof (rule ProcessConfigUpdateMsg_facts [OF assms])
  fix tx ce
  assume f: "env = Some tx" "admitted e b (clk 0) tx" "ProposeConfigUpdate e b tx = Ret (Inr ce)"
    "CreateSignedEnvelope (Builder e) (OrdererSigner e) (clk 1) nonce HeaderType_CONFIG
       (channelID (configtxManager b)) (marshalConfigEnvelope (Builder e) ce) = Inr config"
    "admitted e b (clk 2) config" "sq = sequence (configtxManager b)"
  show ?thesis
  proof (rule ProposeConfigUpdate_facts [OF f(3)])
    fix bdl
    assume p: "proposeConfigUpdate (pCodec e) (pConfigCodec e) (bundle_msp e b) (configtxManager b) tx = Ret (Inr ce)"
      "NewBundle e (channelID (configtxManager b)) (CeConfig ce) = Ret (Inr bdl)" "checkResources bdl = None" "ValidateNew b bdl = None"
    obtain cfg where "CeConfig ce = Some cfg" "CfgSequence cfg = sequence (configtxManager b) + 1" "CeLastUpdate ce = Some tx"
      by (rule proposeConfigUpdate_facts [OF p(1)]) auto
    with f p show ?thesis by auto
  qed
qed

theorem config_update_accepted_witness:
  "\<exists>cfg bdl. admitted sample_env (sample_bundle 7 0 10) 0 (sample_message HeaderType_CONFIG) \<and> CfgSequence cfg = 8 \<and>
     NewBundle sample_env ''ch'' (Some cfg) = Ret (Inr bdl) \<and> checkResources bdl = None"
proof -
  have "channelID (configtxManager (sample_bundle 7 0 10)) = ''ch''" by (simp add: sample_bundle_def)
  with config_update_accepted [OF sample_config_update] show ?thesis by auto
qed

end
