(* ===== verification/Block_Serialization.thy ===== *)
theory Block_Serialization
  imports Protoutil
begin

text \<open>
  The on-disk form of a block, \<^verbatim>\<open>common/ledger/blkstorage/block_serialization.go\<close> and
  \<^verbatim>\<open>protobuf_util.go\<close>: the header, the transactions and the metadata as a sequence of
  varints and length-prefixed byte strings, together with the position of every transaction
  in it. The identifier of a transaction comes from \<^verbatim>\<open>protoutil/txutils.go\<close>.
\<close>

section \<open>Transaction identifiers\<close>

definition hex_digit :: "nat \<Rightarrow> char" where
  "hex_digit n = ''0123456789abcdef'' ! n"

definition hex_EncodeToString :: "bytes \<Rightarrow> string" where
  "hex_EncodeToString bs = concat (map (\<lambda>b. [hex_digit (unat b div 16), hex_digit (unat b mod 16)]) bs)"

definition ComputeTxID :: "codec \<Rightarrow> bytes \<Rightarrow> bytes \<Rightarrow> string" where
  "ComputeTxID c nonce creator = hex_EncodeToString (sha256 c (nonce @ creator))"

definition GetOrComputeTxIDFromEnvelope :: "codec \<Rightarrow> bytes \<Rightarrow> error + string" where
  "GetOrComputeTxIDFromEnvelope c txEnvelopBytes =
     (case unmarshalEnvelope c txEnvelopBytes of
        None \<Rightarrow> Inl (Errorf ''error getting txID from envelope'')
      | Some txEnvelope \<Rightarrow>
          bind_err (wrap_err ''error getting txID from payload'' (UnmarshalPayload c (slice (Payload txEnvelope)))) (\<lambda>txPayload.
          case Header txPayload of
            None \<Rightarrow> Inl (Errorf ''error getting txID from header: payload header is nil'')
          | Some h \<Rightarrow>
              bind_err (wrap_err ''error getting txID from channel header''
                          (UnmarshalChannelHeader c (slice (ChannelHeaderBytes h)))) (\<lambda>chdr.
              if TxId chdr \<noteq> '''' then Inr (TxId chdr)
              else (case unmarshalSignatureHeader c (SignatureHeaderBytes h) of
                      None \<Rightarrow> Inl (Errorf ''error getting nonce and creator for computing txID'')
                    | Some sighdr \<Rightarrow> Inr (ComputeTxID c (Nonce sighdr) (Creator sighdr))))))"

text \<open>The block storage ignores the error, and then has the empty identifier.\<close>

definition tx_id :: "codec \<Rightarrow> bytes \<Rightarrow> string" where
  "tx_id c tx = (case GetOrComputeTxIDFromEnvelope c tx of Inl _ \<Rightarrow> '''' | Inr i \<Rightarrow> i)"

section \<open>Reading a buffer\<close>

text \<open>A buffer is the bytes and the position reached in them.\<close>

definition DecodeVarint :: "bytes \<Rightarrow> nat \<Rightarrow> error + nat \<times> nat" where
  "DecodeVarint buf pos =
     (case ConsumeVarint (drop pos buf) of
        Inl _ \<Rightarrow> Inl (Errorf ''error decoding varint with proto.Buffer'')
      | Inr (v, n) \<Rightarrow> Inr (v, pos + n))"

definition DecodeRawBytes :: "bytes \<Rightarrow> nat \<Rightarrow> error + bytes \<times> nat" where
  "DecodeRawBytes buf pos =
     (case ConsumeBytes (drop pos buf) of
        Inl _ \<Rightarrow> Inl (Errorf ''error decoding raw bytes with proto.Buffer'')
      | Inr (v, n) \<Rightarrow> Inr (v, pos + n))"

section \<open>Writing a block\<close>

text \<open>\<open>txindexInfo\<close>: the identifier of a transaction, its offset and its length.\<close>

record tx_index_info =
  txID :: string
  txOffset :: nat
  txLength :: nat

record serialized_block_info =
  siHeader :: block_header
  siTxOffsets :: "tx_index_info list"
  siMetadata :: "bytes list option"

definition addHeaderBytes :: "block_header \<Rightarrow> bytes \<Rightarrow> bytes" where
  "addHeaderBytes h buf =
     buf @ AppendVarint (unat (Number h)) @ AppendBytes (DataHash h) @ AppendBytes (PreviousHash h)"

fun add_transactions :: "codec \<Rightarrow> bytes list \<Rightarrow> bytes \<Rightarrow> tx_index_info list \<times> bytes" where
  "add_transactions c [] buf = ([], buf)"
| "add_transactions c (tx # txs) buf =
     (let offset = length buf; buf' = buf @ AppendBytes tx;
          (infos, buf'') = add_transactions c txs buf'
      in (\<lparr>txID = tx_id c tx, txOffset = offset, txLength = length buf' - offset\<rparr> # infos, buf''))"

definition addDataBytesAndConstructTxIndexInfo :: "codec \<Rightarrow> bytes list \<Rightarrow> bytes \<Rightarrow> tx_index_info list \<times> bytes" where
  "addDataBytesAndConstructTxIndexInfo c data buf = add_transactions c data (buf @ AppendVarint (length data))"

definition addMetadataBytes :: "bytes list option \<Rightarrow> bytes \<Rightarrow> bytes" where
  "addMetadataBytes md buf =
     (case md of
        None \<Rightarrow> buf @ AppendVarint 0
      | Some ms \<Rightarrow> foldl (\<lambda>buf b. buf @ AppendBytes b) (buf @ AppendVarint (length ms)) ms)"

text \<open>\<open>block.Data\<close> is read without a check: a nil value panics.\<close>

definition serializeBlock :: "codec \<Rightarrow> block \<Rightarrow> (bytes \<times> serialized_block_info) go" where
  "serializeBlock c b =
     (case BData b of
        None \<Rightarrow> Panic ''nil pointer dereference''
      | Some data \<Rightarrow>
          (let (infos, buf) = addDataBytesAndConstructTxIndexInfo c data (addHeaderBytes (BHeader b) [])
           in Ret (addMetadataBytes (BMetadata b) buf,
                   \<lparr>siHeader = BHeader b, siTxOffsets = infos, siMetadata = BMetadata b\<rparr>)))"

section \<open>Reading a block\<close>

definition extractHeader :: "bytes \<Rightarrow> nat \<Rightarrow> error + block_header \<times> nat" where
  "extractHeader buf pos =
     bind_err (wrap_err ''error decoding the block number'' (DecodeVarint buf pos)) (\<lambda>(number, pos).
     bind_err (wrap_err ''error decoding the data hash'' (DecodeRawBytes buf pos)) (\<lambda>(dataHash, pos).
     bind_err (wrap_err ''error decoding the previous hash'' (DecodeRawBytes buf pos)) (\<lambda>(previousHash, pos).
       Inr (\<lparr>Number = of_nat number, PreviousHash = previousHash, DataHash = dataHash\<rparr>, pos))))"

fun extract_transactions :: "codec \<Rightarrow> bytes \<Rightarrow> nat \<Rightarrow> nat \<Rightarrow> error + bytes list \<times> tx_index_info list \<times> nat" where
  "extract_transactions c buf 0 pos = Inr ([], [], pos)"
| "extract_transactions c buf (Suc n) pos =
     bind_err (wrap_err ''error decoding the transaction envelope'' (DecodeRawBytes buf pos)) (\<lambda>(tx, pos').
     bind_err (extract_transactions c buf n pos') (\<lambda>(txs, infos, pos'').
       Inr (tx # txs, \<lparr>txID = tx_id c tx, txOffset = pos, txLength = pos' - pos\<rparr> # infos, pos'')))"

definition extractData :: "codec \<Rightarrow> bytes \<Rightarrow> nat \<Rightarrow> error + bytes list \<times> tx_index_info list \<times> nat" where
  "extractData c buf pos =
     bind_err (wrap_err ''error decoding the length of block data'' (DecodeVarint buf pos)) (\<lambda>(numItems, pos).
       extract_transactions c buf numItems pos)"

fun extract_entries :: "bytes \<Rightarrow> nat \<Rightarrow> nat \<Rightarrow> error + bytes list \<times> nat" where
  "extract_entries buf 0 pos = Inr ([], pos)"
| "extract_entries buf (Suc n) pos =
     bind_err (wrap_err ''error decoding the block metadata'' (DecodeRawBytes buf pos)) (\<lambda>(e, pos').
     bind_err (extract_entries buf n pos') (\<lambda>(es, pos''). Inr (e # es, pos'')))"

definition extractMetadata :: "bytes \<Rightarrow> nat \<Rightarrow> error + bytes list \<times> nat" where
  "extractMetadata buf pos =
     bind_err (wrap_err ''error decoding the length of block metadata'' (DecodeVarint buf pos)) (\<lambda>(numItems, pos).
       extract_entries buf numItems pos)"

definition deserializeBlock :: "codec \<Rightarrow> bytes \<Rightarrow> error + block" where
  "deserializeBlock c buf =
     bind_err (extractHeader buf 0) (\<lambda>(h, pos).
     bind_err (extractData c buf pos) (\<lambda>(data, _, pos).
     bind_err (extractMetadata buf pos) (\<lambda>(md, _).
       Inr \<lparr>BHeader = h, BData = Some data, BMetadata = Some md\<rparr>)))"

definition extractSerializedBlockInfo :: "codec \<Rightarrow> bytes \<Rightarrow> error + serialized_block_info" where
  "extractSerializedBlockInfo c buf =
     bind_err (extractHeader buf 0) (\<lambda>(h, pos).
     bind_err (extractData c buf pos) (\<lambda>(_, infos, pos).
     bind_err (extractMetadata buf pos) (\<lambda>(md, _).
       Inr \<lparr>siHeader = h, siTxOffsets = infos, siMetadata = Some md\<rparr>)))"

section \<open>The bytes of a block\<close>

definition header_bytes :: "block_header \<Rightarrow> bytes" where
  "header_bytes h = AppendVarint (unat (Number h)) @ AppendBytes (DataHash h) @ AppendBytes (PreviousHash h)"

definition items_bytes :: "bytes list \<Rightarrow> bytes" where
  "items_bytes xs = concat (map AppendBytes xs)"

definition data_start :: "block \<Rightarrow> bytes list \<Rightarrow> bytes" where
  "data_start b data = header_bytes (BHeader b) @ AppendVarint (length data)"

definition block_bytes :: "block \<Rightarrow> bytes list \<Rightarrow> bytes list \<Rightarrow> bytes" where
  "block_bytes b data ms = data_start b data @ items_bytes data @ AppendVarint (length ms) @ items_bytes ms"

lemma add_transactions_bytes: "snd (add_transactions c txs buf) = buf @ items_bytes txs"
  by (induction txs arbitrary: buf) (simp_all add: items_bytes_def Let_def case_prod_beta)

lemma addMetadataBytes_Some: "addMetadataBytes (Some ms) buf = buf @ AppendVarint (length ms) @ items_bytes ms"
proof -
  have "foldl (\<lambda>buf b. buf @ AppendBytes b) buf xs = buf @ items_bytes xs" for buf xs
    by (induction xs arbitrary: buf) (simp_all add: items_bytes_def)
  then show ?thesis by (simp add: addMetadataBytes_def)
qed

lemma serializeBlock_eq:
  assumes "BData b = Some data" "BMetadata b = Some ms"
  shows "serializeBlock c b = Ret (block_bytes b data ms,
    \<lparr>siHeader = BHeader b, siTxOffsets = fst (add_transactions c data (data_start b data)), siMetadata = Some ms\<rparr>)"
  using assms add_transactions_bytes [of c data "data_start b data"]
  by (simp add: serializeBlock_def addDataBytesAndConstructTxIndexInfo_def addMetadataBytes_Some addHeaderBytes_def
      block_bytes_def data_start_def header_bytes_def case_prod_beta)

section \<open>Reading back what was written\<close>

lemma DecodeVarint_at:
  "v < 2 ^ 64 \<Longrightarrow>
   DecodeVarint (pre @ AppendVarint v @ rest) (length pre) = Inr (v, length (pre @ AppendVarint v))"
  by (simp add: DecodeVarint_def wire_simps)

lemma DecodeRawBytes_at:
  "length x < 2 ^ 64 \<Longrightarrow>
   DecodeRawBytes (pre @ AppendBytes x @ rest) (length pre) = Inr (x, length (pre @ AppendBytes x))"
  by (simp add: DecodeRawBytes_def wire_simps)

lemma extract_transactions_at:
  assumes "\<forall>x \<in> set txs. length x < 2 ^ 64"
  shows "extract_transactions c (pre @ items_bytes txs @ rest) (length txs) (length pre) =
    Inr (txs, fst (add_transactions c txs pre), length (pre @ items_bytes txs))"
  using assms
proof (induction txs arbitrary: pre)
  case Nil
  then show ?case by (simp add: items_bytes_def)
next
  case (Cons tx txs)
  have "DecodeRawBytes (pre @ AppendBytes tx @ items_bytes txs @ rest) (length pre) = Inr (tx, length (pre @ AppendBytes tx))"
    by (rule DecodeRawBytes_at) (use Cons.prems in simp)
  moreover have "extract_transactions c ((pre @ AppendBytes tx) @ items_bytes txs @ rest) (length txs) (length (pre @ AppendBytes tx))
      = Inr (txs, fst (add_transactions c txs (pre @ AppendBytes tx)), length ((pre @ AppendBytes tx) @ items_bytes txs))"
    by (rule Cons.IH) (use Cons.prems in simp)
  ultimately show ?case
    by (simp add: items_bytes_def Let_def split: prod.split)
qed

lemma extract_entries_at:
  assumes "\<forall>x \<in> set es. length x < 2 ^ 64"
  shows "extract_entries (pre @ items_bytes es @ rest) (length es) (length pre) = Inr (es, length (pre @ items_bytes es))"
  using assms
proof (induction es arbitrary: pre)
  case Nil
  then show ?case by (simp add: items_bytes_def)
next
  case (Cons e es)
  have "DecodeRawBytes (pre @ AppendBytes e @ items_bytes es @ rest) (length pre) = Inr (e, length (pre @ AppendBytes e))"
    by (rule DecodeRawBytes_at) (use Cons.prems in simp)
  moreover have "extract_entries ((pre @ AppendBytes e) @ items_bytes es @ rest) (length es) (length (pre @ AppendBytes e))
      = Inr (es, length ((pre @ AppendBytes e) @ items_bytes es))"
    by (rule Cons.IH) (use Cons.prems in simp)
  ultimately show ?case by (simp add: items_bytes_def)
qed

lemma length_items_bytes: "length xs \<le> length (items_bytes xs) \<and> (\<forall>x \<in> set xs. length x \<le> length (items_bytes xs))"
proof (induction xs)
  case (Cons x xs)
  have "Suc (length x) \<le> length (AppendBytes x)"
    using AppendVarint_not_Nil [of "length x"] by (simp add: AppendBytes_def Suc_le_eq)
  with Cons show ?case by (auto simp: items_bytes_def)
qed simp

text \<open>A block that is shorter than \<open>2 ^ 64\<close> bytes has only parts that are.\<close>

lemma block_parts_bounded:
  assumes "length (block_bytes b data ms) < 2 ^ 64"
  shows "length (DataHash (BHeader b)) < 2 ^ 64" "length (PreviousHash (BHeader b)) < 2 ^ 64"
    "length data < 2 ^ 64" "length ms < 2 ^ 64" "\<forall>x \<in> set data. length x < 2 ^ 64" "\<forall>x \<in> set ms. length x < 2 ^ 64"
proof -
  have len: "length (DataHash (BHeader b)) + length (PreviousHash (BHeader b)) + length (items_bytes data) + length (items_bytes ms)
      \<le> length (block_bytes b data ms)"
    by (simp add: block_bytes_def data_start_def header_bytes_def AppendBytes_def)
  show "length (DataHash (BHeader b)) < 2 ^ 64" "length (PreviousHash (BHeader b)) < 2 ^ 64"
    using len assms by simp_all
  show "length data < 2 ^ 64" "length ms < 2 ^ 64" "\<forall>x \<in> set data. length x < 2 ^ 64" "\<forall>x \<in> set ms. length x < 2 ^ 64"
    using len assms length_items_bytes [of data] length_items_bytes [of ms] by auto
qed

lemma extractHeader_at:
  assumes "length (DataHash h) < 2 ^ 64" "length (PreviousHash h) < 2 ^ 64"
  shows "extractHeader (header_bytes h @ rest) 0 = Inr (h, length (header_bytes h))"
proof -
  have n: "unat (Number h) < 2 ^ 64" using unat_u64_bound [of "Number h"] by simp
  let ?n = "AppendVarint (unat (Number h))" and ?d = "AppendBytes (DataHash h)" and ?p = "AppendBytes (PreviousHash h)"
  have "DecodeVarint (?n @ ?d @ ?p @ rest) 0 = Inr (unat (Number h), length ?n)"
    using DecodeVarint_at [OF n, of "[]" "?d @ ?p @ rest"] by simp
  moreover have "DecodeRawBytes (?n @ ?d @ ?p @ rest) (length ?n) = Inr (DataHash h, length (?n @ ?d))"
    by (rule DecodeRawBytes_at [OF assms(1)])
  moreover have "DecodeRawBytes (?n @ ?d @ ?p @ rest) (length (?n @ ?d)) = Inr (PreviousHash h, length (?n @ ?d @ ?p))"
    using DecodeRawBytes_at [OF assms(2), of "?n @ ?d" rest] by simp
  ultimately show ?thesis by (simp add: extractHeader_def header_bytes_def)
qed

lemma extract_block:
  assumes "length (block_bytes b data ms) < 2 ^ 64"
  shows "\<exists>p q r. extractHeader (block_bytes b data ms) 0 = Inr (BHeader b, p) \<and>
    extractData c (block_bytes b data ms) p = Inr (data, fst (add_transactions c data (data_start b data)), q) \<and>
    extractMetadata (block_bytes b data ms) q = Inr (ms, r)"
proof -
  note bounds = block_parts_bounded [OF assms]
  let ?h = "header_bytes (BHeader b)" and ?start = "data_start b data"
  let ?tail = "items_bytes data @ AppendVarint (length ms) @ items_bytes ms"
  let ?md = "?start @ items_bytes data"
  have h: "extractHeader (block_bytes b data ms) 0 = Inr (BHeader b, length ?h)"
    using extractHeader_at [OF bounds(1,2), of "AppendVarint (length data) @ ?tail"]
    by (simp add: block_bytes_def data_start_def)
  have "DecodeVarint (?h @ AppendVarint (length data) @ ?tail) (length ?h) = Inr (length data, length ?start)"
    using DecodeVarint_at [OF bounds(3)] by (simp add: data_start_def)
  moreover have "extract_transactions c (?start @ ?tail) (length data) (length ?start)
      = Inr (data, fst (add_transactions c data ?start), length ?md)"
    by (rule extract_transactions_at [OF bounds(5)])
  ultimately have d: "extractData c (block_bytes b data ms) (length ?h)
      = Inr (data, fst (add_transactions c data ?start), length ?md)"
    by (simp add: extractData_def block_bytes_def data_start_def)
  have "DecodeVarint (?md @ AppendVarint (length ms) @ items_bytes ms) (length ?md)
      = Inr (length ms, length (?md @ AppendVarint (length ms)))"
    by (rule DecodeVarint_at [OF bounds(4)])
  moreover have "extract_entries ((?md @ AppendVarint (length ms)) @ items_bytes ms @ []) (length ms) (length (?md @ AppendVarint (length ms)))
      = Inr (ms, length ((?md @ AppendVarint (length ms)) @ items_bytes ms))"
    by (rule extract_entries_at [OF bounds(6)])
  ultimately have "extractMetadata (block_bytes b data ms) (length ?md) = Inr (ms, length (block_bytes b data ms))"
    by (simp add: extractMetadata_def block_bytes_def)
  with h d show ?thesis by blast
qed

lemma deserialize_serialize:
  assumes "BData b = Some data" "BMetadata b = Some ms" "length (block_bytes b data ms) < 2 ^ 64"
  shows "deserializeBlock c (block_bytes b data ms) = Inr b"
    and "extractSerializedBlockInfo c (block_bytes b data ms) =
      Inr \<lparr>siHeader = BHeader b, siTxOffsets = fst (add_transactions c data (data_start b data)), siMetadata = Some ms\<rparr>"
  using extract_block [OF assms(3), of c] assms(1,2)
  by (auto simp: deserializeBlock_def extractSerializedBlockInfo_def)

end
