(* ===== verification/Block_Index.thy ===== *)
theory Block_Index
  imports Block_Serialization "HOL-Library.AList"
begin

text \<open>
  The index of the block storage, \<^verbatim>\<open>common/ledger/blkstorage/blockindex.go\<close>: a key-value
  database that locates blocks by number and by hash and transactions by identifier and by
  their position in the chain. Numbers in keys use the order-preserving encoding of theory
  \<open>Wire\<close>. File numbers, offsets and lengths (Go's \<open>int\<close>) are natural numbers; the statements
  about them assume values below \<open>2 ^ 63\<close>.
\<close>

section \<open>The database\<close>

type_synonym leveldb = "(bytes \<times> bytes) list"

definition db_put :: "leveldb \<Rightarrow> bytes \<times> bytes \<Rightarrow> leveldb" where
  "db_put db kv = AList.update (fst kv) (snd kv) db"

definition WriteBatch :: "leveldb \<Rightarrow> (bytes \<times> bytes) list \<Rightarrow> leveldb" where
  "WriteBatch db batch = foldl db_put db batch"

text \<open>The first pair that an iterator over \<open>[lo, hi)\<close> delivers.\<close>

fun first_in_range :: "leveldb \<Rightarrow> bytes \<Rightarrow> bytes \<Rightarrow> (bytes \<times> bytes) option" where
  "first_in_range [] lo hi = None"
| "first_in_range ((k, v) # db) lo hi =
     (let rest = first_in_range db lo hi
      in if \<not> bytes_less k lo \<and> bytes_less k hi
         then (case rest of None \<Rightarrow> Some (k, v) | Some (k', v') \<Rightarrow> if bytes_less k' k then rest else Some (k, v))
         else rest)"

section \<open>Keys\<close>

text \<open>The bytes of a string literal.\<close>

definition go_bytes :: "string \<Rightarrow> bytes" where
  "go_bytes s = map of_char s"

definition indexSavePointKey :: bytes where
  "indexSavePointKey = go_bytes ''indexCheckpointKey''"

definition blkMgrInfoKey :: bytes where
  "blkMgrInfoKey = go_bytes ''blkMgrInfo''"

definition op_encode :: "u64 \<Rightarrow> bytes" where
  "op_encode n = (case EncodeOrderPreservingVarUint64 n of Ret bs \<Rightarrow> bs | Panic _ \<Rightarrow> [])"

definition constructBlockNumKey :: "u64 \<Rightarrow> bytes" where
  "constructBlockNumKey blockNum = of_char CHR ''n'' # op_encode blockNum"

definition constructBlockHashKey :: "bytes \<Rightarrow> bytes" where
  "constructBlockHashKey blockHash = of_char CHR ''h'' # blockHash"

definition constructTxIDKey :: "string \<Rightarrow> u64 \<Rightarrow> u64 \<Rightarrow> bytes" where
  "constructTxIDKey tx blkNum txNum =
     of_char CHR ''t'' # op_encode (of_nat (length tx)) @ go_bytes tx @ op_encode blkNum @ op_encode txNum"

definition constructBlockNumTranNumKey :: "u64 \<Rightarrow> u64 \<Rightarrow> bytes" where
  "constructBlockNumTranNumKey blockNum txNum = of_char CHR ''a'' # op_encode blockNum @ op_encode txNum"

definition constructTxIDRangeScan :: "string \<Rightarrow> bytes \<times> bytes" where
  "constructTxIDRangeScan tx =
     (let sk = of_char CHR ''t'' # op_encode (of_nat (length tx)) @ go_bytes tx in (sk, sk @ [0xff]))"

definition retrieveBlockNum :: "bytes \<Rightarrow> nat \<Rightarrow> error + u64" where
  "retrieveBlockNum key start = bind_err (DecodeOrderPreservingVarUint64 (drop start key)) (\<lambda>(n, _). Inr n)"

definition encodeBlockNum :: "u64 \<Rightarrow> bytes" where
  "encodeBlockNum n = AppendVarint (unat n)"

definition decodeBlockNum :: "bytes \<Rightarrow> u64" where
  "decodeBlockNum bs = (case ConsumeVarint bs of Inl _ \<Rightarrow> 0 | Inr (v, _) \<Rightarrow> of_nat v)"

section \<open>Locations\<close>

record file_loc =
  fileSuffixNum :: nat
  flOffset :: nat
  flLength :: nat

definition newFileLocationPointer :: "nat \<Rightarrow> nat \<Rightarrow> tx_index_info \<Rightarrow> file_loc" where
  "newFileLocationPointer file begin info = \<lparr>fileSuffixNum = file, flOffset = begin + txOffset info, flLength = txLength info\<rparr>"

definition marshal_flp :: "file_loc \<Rightarrow> bytes" where
  "marshal_flp flp = AppendVarint (fileSuffixNum flp) @ AppendVarint (flOffset flp) @ AppendVarint (flLength flp)"

definition unmarshal_flp :: "bytes \<Rightarrow> error + file_loc" where
  "unmarshal_flp b =
     bind_err (DecodeVarint b 0) (\<lambda>(file, pos).
     bind_err (DecodeVarint b pos) (\<lambda>(off, pos).
     bind_err (DecodeVarint b pos) (\<lambda>(len, pos).
       Inr \<lparr>fileSuffixNum = file, flOffset = off, flLength = len\<rparr>)))"

section \<open>Indexing a block\<close>

datatype index_attr =
  IndexableAttrBlockNum | IndexableAttrBlockHash | IndexableAttrTxID | IndexableAttrBlockNumTranNum

text \<open>What the storage is configured with, and the protobuf codec of \<open>TxIDIndexValue\<close>: the
  location of the block, the location of the transaction and its validation code.\<close>

record store_conf =
  maxBlockfileSize :: nat
  AttrsToIndex :: "index_attr list"
  marshalTxIDIndexValue :: "bytes \<times> bytes \<times> int \<Rightarrow> bytes"
  unmarshalTxIDIndexValue :: "bytes \<Rightarrow> (bytes \<times> bytes \<times> int) option"

record block_idx_info =
  biNum :: u64
  biHash :: bytes
  biFlp :: file_loc
  biTxOffsets :: "tx_index_info list"
  biMetadata :: "bytes list option"

text \<open>The entries of the index by identifier; reading the flag of a transaction beyond the filter
  panics.\<close>

fun tx_entries :: "store_conf \<Rightarrow> block_idx_info \<Rightarrow> bytes \<Rightarrow> nat \<Rightarrow> tx_index_info list \<Rightarrow> leveldb go" where
  "tx_entries conf info flags i [] = Ret []"
| "tx_entries conf info flags i (tx # txs) =
     (if length flags \<le> i then Panic ''index out of range''
      else bind_go (tx_entries conf info flags (Suc i) txs) (\<lambda>rest.
        Ret ((constructTxIDKey (txID tx) (biNum info) (of_nat i),
              marshalTxIDIndexValue conf
                (marshal_flp (biFlp info),
                 marshal_flp (newFileLocationPointer (fileSuffixNum (biFlp info)) (flOffset (biFlp info)) tx),
                 int (unat (flags ! i)))) # rest)))"

fun pos_entries :: "block_idx_info \<Rightarrow> nat \<Rightarrow> tx_index_info list \<Rightarrow> leveldb" where
  "pos_entries info i [] = []"
| "pos_entries info i (tx # txs) =
     (constructBlockNumTranNumKey (biNum info) (of_nat i),
      marshal_flp (newFileLocationPointer (fileSuffixNum (biFlp info)) (flOffset (biFlp info)) tx)) # pos_entries info (Suc i) txs"

definition indexBlock :: "store_conf \<Rightarrow> block_idx_info \<Rightarrow> leveldb \<Rightarrow> leveldb go" where
  "indexBlock conf info db =
     (let items = AttrsToIndex conf in
      if items = [] then Ret db
      else (case biMetadata info of
        None \<Rightarrow> Panic ''nil pointer dereference''
      | Some ms \<Rightarrow>
          if length ms \<le> BlockMetadataIndex_TRANSACTIONS_FILTER then Panic ''index out of range''
          else
            (let flags = ms ! BlockMetadataIndex_TRANSACTIONS_FILTER; flpBytes = marshal_flp (biFlp info) in
             bind_go (if IndexableAttrTxID \<in> set items then tx_entries conf info flags 0 (biTxOffsets info) else Ret []) (\<lambda>txs.
             Ret (WriteBatch db (
               (if IndexableAttrBlockHash \<in> set items then [(constructBlockHashKey (biHash info), flpBytes)] else []) @
               (if IndexableAttrBlockNum \<in> set items then [(constructBlockNumKey (biNum info), flpBytes)] else []) @
               txs @
               (if IndexableAttrBlockNumTranNum \<in> set items then pos_entries info 0 (biTxOffsets info) else []) @
               [(indexSavePointKey, encodeBlockNum (biNum info))]))))))"

section \<open>Looking up\<close>

definition getLastBlockIndexed :: "leveldb \<Rightarrow> u64 option" where
  "getLastBlockIndexed db = map_option decodeBlockNum (map_of db indexSavePointKey)"

definition getBlockLocByHash :: "store_conf \<Rightarrow> leveldb \<Rightarrow> bytes \<Rightarrow> error + file_loc" where
  "getBlockLocByHash conf db blockHash =
     (if IndexableAttrBlockHash \<notin> set (AttrsToIndex conf) then Inl (Errorf ''block hashes not maintained in index'')
      else (case map_of db (constructBlockHashKey blockHash) of
              None \<Rightarrow> Inl (Errorf ''no such block hash in index'')
            | Some b \<Rightarrow> unmarshal_flp b))"

definition getBlockLocByBlockNum :: "store_conf \<Rightarrow> leveldb \<Rightarrow> u64 \<Rightarrow> error + file_loc" where
  "getBlockLocByBlockNum conf db blockNum =
     (if IndexableAttrBlockNum \<notin> set (AttrsToIndex conf) then Inl (Errorf ''block numbers not maintained in index'')
      else (case map_of db (constructBlockNumKey blockNum) of
              None \<Rightarrow> Inl (Errorf ''no such block number in index'')
            | Some b \<Rightarrow> unmarshal_flp b))"

definition getTXLocByBlockNumTranNum :: "store_conf \<Rightarrow> leveldb \<Rightarrow> u64 \<Rightarrow> u64 \<Rightarrow> error + file_loc" where
  "getTXLocByBlockNumTranNum conf db blockNum tranNum =
     (if IndexableAttrBlockNumTranNum \<notin> set (AttrsToIndex conf)
      then Inl (Errorf ''<blockNumber, transactionNumber> tuple not maintained in index'')
      else (case map_of db (constructBlockNumTranNumKey blockNum tranNum) of
              None \<Rightarrow> Inl (Errorf ''no such blockNumber, transactionNumber in index'')
            | Some b \<Rightarrow> unmarshal_flp b))"

definition txIDExists :: "store_conf \<Rightarrow> leveldb \<Rightarrow> string \<Rightarrow> error + bool" where
  "txIDExists conf db tx =
     (if IndexableAttrTxID \<notin> set (AttrsToIndex conf) then Inl (Errorf ''transaction IDs not maintained in index'')
      else (let (startKey, stopKey) = constructTxIDRangeScan tx in Inr (first_in_range db startKey stopKey \<noteq> None)))"

definition getTxIDVal :: "store_conf \<Rightarrow> leveldb \<Rightarrow> string \<Rightarrow> error + (bytes \<times> bytes \<times> int) \<times> u64" where
  "getTxIDVal conf db tx =
     (if IndexableAttrTxID \<notin> set (AttrsToIndex conf) then Inl (Errorf ''transaction IDs not maintained in index'')
      else (let (startKey, stopKey) = constructTxIDRangeScan tx in
        (case first_in_range db startKey stopKey of
           None \<Rightarrow> Inl (Errorf ''no such transaction ID in index'')
         | Some (key, valBytes) \<Rightarrow>
             if length valBytes = 0 then Inl (Errorf '''')
             else (case unmarshalTxIDIndexValue conf valBytes of
                     None \<Rightarrow> Inl (Errorf ''unexpected error while unmarshalling TxIDIndexValProto'')
                   | Some val \<Rightarrow>
                       bind_err (wrap_err ''error while decoding block number from txID index key''
                         (retrieveBlockNum key (length startKey))) (\<lambda>blockNum. Inr (val, blockNum))))))"

definition getTxLoc :: "store_conf \<Rightarrow> leveldb \<Rightarrow> string \<Rightarrow> error + file_loc" where
  "getTxLoc conf db tx = bind_err (getTxIDVal conf db tx) (\<lambda>((_, txLoc, _), _). unmarshal_flp txLoc)"

definition getBlockLocByTxID :: "store_conf \<Rightarrow> leveldb \<Rightarrow> string \<Rightarrow> error + file_loc" where
  "getBlockLocByTxID conf db tx = bind_err (getTxIDVal conf db tx) (\<lambda>((blkLoc, _, _), _). unmarshal_flp blkLoc)"

definition getTxValidationCodeByTxID :: "store_conf \<Rightarrow> leveldb \<Rightarrow> string \<Rightarrow> error + int \<times> u64" where
  "getTxValidationCodeByTxID conf db tx = bind_err (getTxIDVal conf db tx) (\<lambda>((_, _, code), blkNum). Inr (code, blkNum))"

section \<open>Facts about keys and values\<close>

lemma op_encode_eq: "op_encode n = of_nat (length (significant n)) # significant n"
  by (simp add: op_encode_def Encode_eq)

lemma op_encode_prefix:
  assumes "op_encode a @ xs = op_encode b @ ys"
  shows "a = b \<and> xs = ys"
proof -
  have "DecodeOrderPreservingVarUint64 (op_encode n @ rest) = Inr (n, length (op_encode n))" for n rest
    by (rule Decode_Encode) (simp add: op_encode_def Encode_eq)
  from this [of a xs] this [of b ys] assms have "a = b" by simp
  with assms show ?thesis by simp
qed

lemma op_encode_inj [simp]: "op_encode a = op_encode b \<longleftrightarrow> a = b"
  using op_encode_prefix [of a "[]" b "[]"] by auto

lemma constructBlockNumKey_inj [simp]: "constructBlockNumKey a = constructBlockNumKey b \<longleftrightarrow> a = b"
  by (simp add: constructBlockNumKey_def)

lemma constructBlockNumTranNumKey_inj [simp]:
  "constructBlockNumTranNumKey a i = constructBlockNumTranNumKey b j \<longleftrightarrow> a = b \<and> i = j"
  using op_encode_prefix [of a "op_encode i" b "op_encode j"] by (auto simp: constructBlockNumTranNumKey_def)

lemmas key_defs = constructBlockNumKey_def constructBlockHashKey_def constructTxIDKey_def constructBlockNumTranNumKey_def
  indexSavePointKey_def blkMgrInfoKey_def go_bytes_def

lemma keys_differ [simp]:
  "constructBlockNumKey a \<noteq> constructBlockHashKey h" "constructBlockNumKey a \<noteq> constructTxIDKey t b i"
  "constructBlockNumKey a \<noteq> constructBlockNumTranNumKey b i" "constructBlockNumKey a \<noteq> indexSavePointKey"
  "constructBlockNumKey a \<noteq> blkMgrInfoKey" "constructBlockNumTranNumKey b i \<noteq> constructBlockHashKey h"
  "constructBlockNumTranNumKey b i \<noteq> constructTxIDKey t b' i'" "constructBlockNumTranNumKey b i \<noteq> indexSavePointKey"
  "constructBlockNumTranNumKey b i \<noteq> blkMgrInfoKey" "constructBlockHashKey h \<noteq> constructTxIDKey t b i"
  "constructBlockHashKey h \<noteq> indexSavePointKey" "constructBlockHashKey h \<noteq> blkMgrInfoKey"
  "constructTxIDKey t b i \<noteq> indexSavePointKey" "constructTxIDKey t b i \<noteq> blkMgrInfoKey" "indexSavePointKey \<noteq> blkMgrInfoKey"
  by (simp_all add: key_defs)

lemmas keys_differ_sym [simp] = keys_differ [symmetric]

lemma unmarshal_marshal_flp:
  assumes "fileSuffixNum f < 2 ^ 64" "flOffset f < 2 ^ 64" "flLength f < 2 ^ 64"
  shows "unmarshal_flp (marshal_flp f) = Inr f"
proof -
  let ?a = "AppendVarint (fileSuffixNum f)" and ?b = "AppendVarint (flOffset f)" and ?c = "AppendVarint (flLength f)"
  have "DecodeVarint (?a @ ?b @ ?c) 0 = Inr (fileSuffixNum f, length ?a)"
    using DecodeVarint_at [OF assms(1), of "[]" "?b @ ?c"] by simp
  moreover have "DecodeVarint (?a @ ?b @ ?c) (length ?a) = Inr (flOffset f, length (?a @ ?b))"
    by (rule DecodeVarint_at [OF assms(2)])
  moreover have "DecodeVarint (?a @ ?b @ ?c) (length (?a @ ?b)) = Inr (flLength f, length ((?a @ ?b) @ ?c))"
    using DecodeVarint_at [OF assms(3), of "?a @ ?b" "[]"] by simp
  ultimately show ?thesis by (simp add: unmarshal_flp_def marshal_flp_def)
qed

lemma decode_encodeBlockNum [simp]: "decodeBlockNum (encodeBlockNum n) = n"
  using ConsumeVarint_Append [of "unat n" "[]"] unat_u64_bound [of n] by (simp add: decodeBlockNum_def encodeBlockNum_def)

lemma map_of_WriteBatch:
  "map_of (WriteBatch db batch) k = (case map_of (rev batch) k of None \<Rightarrow> map_of db k | Some v \<Rightarrow> Some v)"
proof (induction batch rule: rev_induct)
  case (snoc kv batch)
  then show ?case by (simp add: WriteBatch_def db_put_def update_conv' split: option.splits)
qed (simp add: WriteBatch_def)

section \<open>What indexing a block changes\<close>

text \<open>A block can be indexed when it has a transactions filter, with a flag for every transaction if
  transactions are indexed by identifier.\<close>

definition indexable :: "store_conf \<Rightarrow> bytes list option \<Rightarrow> nat \<Rightarrow> bool" where
  "indexable conf md n \<longleftrightarrow>
     (case md of
        None \<Rightarrow> False
      | Some ms \<Rightarrow> BlockMetadataIndex_TRANSACTIONS_FILTER < length ms \<and>
          (IndexableAttrTxID \<in> set (AttrsToIndex conf) \<longrightarrow> n \<le> length (ms ! BlockMetadataIndex_TRANSACTIONS_FILTER)))"

lemma tx_entries_Ret:
  "i + length txs \<le> length flags \<Longrightarrow>
   \<exists>es. tx_entries conf info flags i txs = Ret es \<and> (\<forall>k \<in> fst ` set es. \<exists>t n. k = constructTxIDKey t (biNum info) n)"
proof (induction txs arbitrary: i)
  case (Cons tx txs)
  then have "Suc i + length txs \<le> length flags" by simp
  from Cons.IH [OF this] obtain es where "tx_entries conf info flags (Suc i) txs = Ret es"
      "\<forall>k \<in> fst ` set es. \<exists>t n. k = constructTxIDKey t (biNum info) n"
    by blast
  with Cons.prems show ?case by auto
qed simp

lemma pos_entries_keys:
  "k \<in> fst ` set (pos_entries info i txs) \<Longrightarrow> \<exists>j \<ge> i. j < i + length txs \<and> k = constructBlockNumTranNumKey (biNum info) (of_nat j)"
proof (induction txs arbitrary: i)
  case (Cons tx txs)
  consider "k = constructBlockNumTranNumKey (biNum info) (of_nat i)" | "k \<in> fst ` set (pos_entries info (Suc i) txs)"
    using Cons.prems by auto
  then show ?case
  proof cases
    case 1
    then show ?thesis by auto
  next
    case 2
    from Cons.IH [OF this] obtain j where "Suc i \<le> j" "j < Suc i + length txs" "k = constructBlockNumTranNumKey (biNum info) (of_nat j)"
      by blast
    then show ?thesis by (intro exI [of _ j]) simp
  qed
qed simp

lemma of_nat_u64_inj: "a < 2 ^ 64 \<Longrightarrow> b < 2 ^ 64 \<Longrightarrow> (of_nat a :: u64) = of_nat b \<Longrightarrow> a = b"
  using unat_of_nat_u64 [of a] unat_of_nat_u64 [of b] by presburger

lemma pos_entries_fresh:
  assumes "i + length txs < 2 ^ 64" "i' < i"
  shows "map_of (rev (pos_entries info i txs)) (constructBlockNumTranNumKey (biNum info) (of_nat i')) = None"
proof (rule ccontr)
  assume "\<not> ?thesis"
  then have "constructBlockNumTranNumKey (biNum info) (of_nat i') \<in> fst ` set (pos_entries info i txs)"
    by (simp add: map_of_eq_None_iff)
  from pos_entries_keys [OF this] obtain j where j: "i \<le> j" "j < i + length txs" "(of_nat i' :: u64) = of_nat j"
    by auto
  have "i' < 2 ^ 64" "j < 2 ^ 64" using j(2) assms by linarith+
  from of_nat_u64_inj [OF this j(3)] j(1) assms(2) show False by linarith
qed

lemma map_of_pos_entries:
  assumes "j < length txs" "i + length txs < 2 ^ 64"
  shows "map_of (rev (pos_entries info i txs)) (constructBlockNumTranNumKey (biNum info) (of_nat (i + j))) =
    Some (marshal_flp (newFileLocationPointer (fileSuffixNum (biFlp info)) (flOffset (biFlp info)) (txs ! j)))"
  using assms
proof (induction txs arbitrary: i j)
  case (Cons tx txs)
  have bound: "Suc i + length txs < 2 ^ 64" using Cons.prems(2) unfolding length_Cons by linarith
  show ?case
  proof (cases j)
    case 0
    with pos_entries_fresh [OF bound, of i info] show ?thesis by (simp add: map_add_def)
  next
    case (Suc j')
    with Cons.prems(1) have "j' < length txs" by simp
    from Cons.IH [OF this bound] Suc show ?thesis by (simp add: map_add_def)
  qed
qed simp

lemma map_of_foreign: "(\<And>k'. k' \<in> fst ` set es \<Longrightarrow> k' \<noteq> k) \<Longrightarrow> map_of (rev es) k = None"
  by (auto simp: map_of_eq_None_iff)

lemma indexBlock_effect:
  assumes "indexable conf (biMetadata info) (length (biTxOffsets info))" "IndexableAttrBlockNum \<in> set (AttrsToIndex conf)"
  obtains db' where "indexBlock conf info db = Ret db'"
    "\<And>n. map_of db' (constructBlockNumKey n) =
       (if n = biNum info then Some (marshal_flp (biFlp info)) else map_of db (constructBlockNumKey n))"
    "map_of db' indexSavePointKey = Some (encodeBlockNum (biNum info))"
    "map_of db' blkMgrInfoKey = map_of db blkMgrInfoKey"
    "\<And>j. IndexableAttrBlockNumTranNum \<in> set (AttrsToIndex conf) \<Longrightarrow> length (biTxOffsets info) < 2 ^ 64 \<Longrightarrow> j < length (biTxOffsets info) \<Longrightarrow>
       map_of db' (constructBlockNumTranNumKey (biNum info) (of_nat j)) =
         Some (marshal_flp (newFileLocationPointer (fileSuffixNum (biFlp info)) (flOffset (biFlp info)) (biTxOffsets info ! j)))"
    "\<And>n i. n \<noteq> biNum info \<Longrightarrow> map_of db' (constructBlockNumTranNumKey n i) = map_of db (constructBlockNumTranNumKey n i)"
proof -
  obtain ms where ms: "biMetadata info = Some ms" "2 < length ms"
      "IndexableAttrTxID \<in> set (AttrsToIndex conf) \<Longrightarrow> length (biTxOffsets info) \<le> length (ms ! 2)"
    using assms(1) by (auto simp: indexable_def split: option.splits)
  let ?flp = "marshal_flp (biFlp info)"
  define hs where "hs = (if IndexableAttrBlockHash \<in> set (AttrsToIndex conf) then [(constructBlockHashKey (biHash info), ?flp)] else [])"
  define ps where "ps = (if IndexableAttrBlockNumTranNum \<in> set (AttrsToIndex conf) then pos_entries info 0 (biTxOffsets info) else [])"
  obtain txs where txs: "(if IndexableAttrTxID \<in> set (AttrsToIndex conf) then tx_entries conf info (ms ! 2) 0 (biTxOffsets info) else Ret [])
      = Ret txs" and txs_keys: "\<forall>k \<in> fst ` set txs. \<exists>t n. k = constructTxIDKey t (biNum info) n"
    using tx_entries_Ret [of 0 "biTxOffsets info" "ms ! 2" conf info] ms(3) by (cases "IndexableAttrTxID \<in> set (AttrsToIndex conf)") auto
  define db' where "db' = WriteBatch db (hs @ [(constructBlockNumKey (biNum info), ?flp)] @ txs @ ps @ [(indexSavePointKey, encodeBlockNum (biNum info))])"
  have step: "indexBlock conf info db = Ret db'"
    using ms(1,2) assms(2) txs by (auto simp: indexBlock_def Let_def db'_def hs_def ps_def)
  have ps_keys: "\<exists>j. k = constructBlockNumTranNumKey (biNum info) (of_nat j)" if "k \<in> fst ` set ps" for k
    using that pos_entries_keys [of k info 0 "biTxOffsets info"] by (auto simp: ps_def split: if_splits)
  have foreign: "map_of (rev txs) k = None" if "\<And>t n. k \<noteq> constructTxIDKey t (biNum info) n" for k
    by (rule map_of_foreign) (use that txs_keys in blast)
  have ps_foreign: "map_of (rev ps) k = None" if "\<And>j. k \<noteq> constructBlockNumTranNumKey (biNum info) j" for k
    by (rule map_of_foreign) (use that ps_keys in blast)
  have hs_foreign: "map_of (rev hs) k = None" if "\<And>h. k \<noteq> constructBlockHashKey h" for k
    by (rule map_of_foreign) (use that in \<open>auto simp: hs_def split: if_splits\<close>)
  note look = db'_def map_of_WriteBatch map_add_def foreign ps_foreign hs_foreign
  show thesis
  proof (rule that [OF step])
    show "map_of db' (constructBlockNumKey n) =
       (if n = biNum info then Some ?flp else map_of db (constructBlockNumKey n))" for n
      by (simp add: look)
    show "map_of db' indexSavePointKey = Some (encodeBlockNum (biNum info))" by (simp add: look)
    show "map_of db' blkMgrInfoKey = map_of db blkMgrInfoKey" by (simp add: look)
    show "map_of db' (constructBlockNumTranNumKey n i) = map_of db (constructBlockNumTranNumKey n i)" if "n \<noteq> biNum info" for n i
      using that by (simp add: look)
    show "map_of db' (constructBlockNumTranNumKey (biNum info) (of_nat j)) =
         Some (marshal_flp (newFileLocationPointer (fileSuffixNum (biFlp info)) (flOffset (biFlp info)) (biTxOffsets info ! j)))"
      if "IndexableAttrBlockNumTranNum \<in> set (AttrsToIndex conf)" "length (biTxOffsets info) < 2 ^ 64" "j < length (biTxOffsets info)" for j
      using that map_of_pos_entries [of j "biTxOffsets info" 0 info]
      by (simp add: db'_def map_of_WriteBatch map_add_def foreign hs_foreign ps_def)
  qed
qed

section \<open>The index by transaction identifier\<close>

definition tx_entry :: "store_conf \<Rightarrow> block_idx_info \<Rightarrow> bytes \<Rightarrow> nat \<Rightarrow> tx_index_info \<Rightarrow> bytes \<times> bytes" where
  "tx_entry conf info flags j tx =
     (constructTxIDKey (txID tx) (biNum info) (of_nat j),
      marshalTxIDIndexValue conf (marshal_flp (biFlp info),
        marshal_flp (newFileLocationPointer (fileSuffixNum (biFlp info)) (flOffset (biFlp info)) tx), int (unat (flags ! j))))"

lemma tx_entries_eq:
  "tx_entries conf info flags i txs = Ret es \<Longrightarrow> es = map (\<lambda>j. tx_entry conf info flags (i + j) (txs ! j)) [0..<length txs]"
proof (induction txs arbitrary: i es)
  case (Cons tx txs)
  from Cons.prems obtain rest where rest: "tx_entries conf info flags (Suc i) txs = Ret rest" "es = tx_entry conf info flags i tx # rest"
    by (cases "tx_entries conf info flags (Suc i) txs") (auto simp: tx_entry_def split: if_splits)
  have "[0..<length (tx # txs)] = 0 # map Suc [0..<length txs]" by (simp add: map_Suc_upt upt_conv_Cons del: upt_Suc)
  then show ?case unfolding rest(2) Cons.IH [OF rest(1)] by (simp add: comp_def del: upt_Suc)
qed simp

lemma length_op_encode: "length (op_encode n) \<le> 9" "0 < length (op_encode n)"
  using significant_spec [of n] by (simp_all add: op_encode_eq)

lemma mod_close:
  assumes "(a :: nat) mod n = b mod n" "a < b + n" "b < a + n"
  shows "a = b"
proof -
  have "x = y" if "x \<le> y" "y mod n = x mod n" "y < x + n" for x y
    using that mod_eq_dvd_iff_nat [OF that(1), of n] dvd_imp_le [of n "y - x"] by (cases "y - x = 0") auto
  from this [of a b] this [of b a] assms show ?thesis by (cases "a \<le> b") auto
qed

lemma go_bytes_inj: "go_bytes s = go_bytes t \<longleftrightarrow> s = t"
proof -
  have "char_of (unat (of_nat (of_char ch) :: byte)) = ch" for ch
    using nat_of_char_less_256 [of ch] by (simp only: unat_of_nat) simp
  then have "char_of (unat (of_char ch :: byte)) = ch" for ch by (simp only: of_nat_of_char)
  then have "inj (of_char :: char \<Rightarrow> byte)" by (metis injI)
  then show ?thesis by (simp add: go_bytes_def inj_map_eq_map)
qed

lemma constructTxIDKey_inj [simp]:
  "constructTxIDKey t b i = constructTxIDKey t' b' i' \<longleftrightarrow> t = t' \<and> b = b' \<and> i = i'"
proof
  assume eq: "constructTxIDKey t b i = constructTxIDKey t' b' i'"
  then have "op_encode (of_nat (length t)) @ go_bytes t @ op_encode b @ op_encode i =
      op_encode (of_nat (length t')) @ go_bytes t' @ op_encode b' @ op_encode i'" by (simp add: constructTxIDKey_def)
  from op_encode_prefix [OF this] have len: "(of_nat (length t) :: u64) = of_nat (length t')"
    and rest: "go_bytes t @ op_encode b @ op_encode i = go_bytes t' @ op_encode b' @ op_encode i'" by simp_all
  from arg_cong [OF len, of unat] have "length t mod 2 ^ 64 = length t' mod 2 ^ 64" by (simp only: unat_of_nat) simp
  moreover have "length t + length (op_encode b) + length (op_encode i) = length t' + length (op_encode b') + length (op_encode i')"
    using arg_cong [OF rest, of length] by (simp add: go_bytes_def)
  then have "length t < length t' + 2 ^ 64" "length t' < length t + 2 ^ 64"
    using length_op_encode [of b] length_op_encode [of i] length_op_encode [of b'] length_op_encode [of i'] by simp_all
  ultimately have "length t = length t'" by (rule mod_close)
  with rest have "go_bytes t = go_bytes t'" "op_encode b @ op_encode i = op_encode b' @ op_encode i'"
    by (simp_all add: go_bytes_def)
  then show "t = t' \<and> b = b' \<and> i = i'" using op_encode_prefix [of b "op_encode i" b' "op_encode i'"] go_bytes_inj by auto
qed simp

text \<open>The keys of a range scan are those of the transactions with the identifier, in the order of the
  chain.\<close>

lemma range_prefix: "\<not> bytes_less k sk \<Longrightarrow> bytes_less k (sk @ [x]) \<Longrightarrow> \<exists>rest. k = sk @ rest"
proof (induction sk arbitrary: k)
  case (Cons a sk)
  then obtain d k' where k: "k = d # k'" by (cases k) auto
  with Cons.prems have "d = a" "\<not> bytes_less k' sk" "bytes_less k' (sk @ [x])" by auto
  with Cons.IH k show ?case by auto
qed simp

lemma lexordp_append_both [simp]: "bytes_less (xs @ u) (xs @ v) \<longleftrightarrow> bytes_less u v"
  by (induction xs) auto

lemma lexordp_append_differ:
  "bytes_less xs ys \<Longrightarrow> (\<And>r. ys \<noteq> xs @ r) \<Longrightarrow> bytes_less (xs @ u) (ys @ v)"
proof (induction xs arbitrary: ys)
  case (Cons x xs)
  then obtain y ys' where "ys = y # ys'" by (cases ys) auto
  with Cons show ?case by (cases "x = y") auto
qed (use append_Nil in blast)

lemma op_encode_less:
  assumes "a < b"
  shows "bytes_less (op_encode a @ u) (op_encode b @ v)"
proof (rule lexordp_append_differ)
  show "bytes_less (op_encode a) (op_encode b)" using assms unfolding op_encode_eq Encode_less_iff .
  show "op_encode b \<noteq> op_encode a @ r" for r
    using op_encode_prefix [of b "[]" a r] assms by auto
qed

lemma constructTxIDKey_less:
  assumes "b < b' \<or> b = b' \<and> i < i'"
  shows "bytes_less (constructTxIDKey t b i) (constructTxIDKey t b' i')"
  using assms op_encode_less [of i i' "[]" "[]"] op_encode_less [of b b'] by (auto simp: constructTxIDKey_def)

definition in_scan :: "string \<Rightarrow> bytes \<Rightarrow> bool" where
  "in_scan tx k \<longleftrightarrow> (case constructTxIDRangeScan tx of (lo, hi) \<Rightarrow> \<not> bytes_less k lo \<and> bytes_less k hi)"

lemma in_scan_head:
  assumes "in_scan tx k"
  shows "k \<noteq> []" "hd k = of_char CHR ''t''"
proof -
  obtain rest where "k = (of_char CHR ''t'' # op_encode (of_nat (length tx)) @ go_bytes tx) @ rest"
    using range_prefix assms by (fastforce simp: in_scan_def constructTxIDRangeScan_def Let_def)
  then show "k \<noteq> []" "hd k = of_char CHR ''t''" by simp_all
qed

lemma in_scan_key:
  assumes "length tx < 2 ^ 64" "length t < 2 ^ 64"
  shows "in_scan tx (constructTxIDKey t b i) \<longleftrightarrow> t = tx"
proof
  let ?sk = "\<lambda>t. of_char CHR ''t'' # op_encode (of_nat (length t)) @ go_bytes t"
  assume "in_scan tx (constructTxIDKey t b i)"
  then obtain rest where "constructTxIDKey t b i = ?sk tx @ rest"
    using range_prefix [of "constructTxIDKey t b i" "?sk tx"] by (auto simp: in_scan_def constructTxIDRangeScan_def Let_def)
  then have "op_encode (of_nat (length t)) @ go_bytes t @ op_encode b @ op_encode i = op_encode (of_nat (length tx)) @ go_bytes tx @ rest"
    by (simp add: constructTxIDKey_def)
  from op_encode_prefix [OF this]
  have "(of_nat (length t) :: u64) = of_nat (length tx)" and eq: "go_bytes t @ op_encode b @ op_encode i = go_bytes tx @ rest" by simp_all
  with of_nat_u64_inj [OF assms(2,1)] have "length (go_bytes t) = length (go_bytes tx)" by (simp add: go_bytes_def)
  with eq show "t = tx" by (simp add: go_bytes_inj)
next
  let ?lo = "of_char CHR ''t'' # op_encode (of_nat (length tx)) @ go_bytes tx"
  assume "t = tx"
  then have key: "constructTxIDKey t b i = ?lo @ op_encode b @ op_encode i" by (simp add: constructTxIDKey_def)
  have "of_nat (length (significant b)) < (0xff :: byte)"
    using significant_spec [of b] by (simp add: word_less_nat_alt unat_of_nat_byte)
  then have "bytes_less (op_encode b @ op_encode i) [0xff]" by (simp add: op_encode_eq)
  moreover have "\<not> bytes_less (op_encode b @ op_encode i) []" by (simp add: op_encode_eq)
  ultimately have "bytes_less (?lo @ op_encode b @ op_encode i) (?lo @ [0xff])" "\<not> bytes_less (?lo @ op_encode b @ op_encode i) (?lo @ [])"
    unfolding lexordp_append_both by simp_all
  then show "in_scan tx (constructTxIDKey t b i)" unfolding key by (simp add: in_scan_def constructTxIDRangeScan_def Let_def)
qed

lemma first_in_range_None:
  "first_in_range db lo hi = None \<Longrightarrow> map_of db k \<noteq> None \<Longrightarrow> \<not> (\<not> bytes_less k lo \<and> bytes_less k hi)"
  by (induction db lo hi rule: first_in_range.induct) (auto simp: Let_def split: if_splits option.splits)

lemma bytes_less_trans: "bytes_less a b \<Longrightarrow> bytes_less b d \<Longrightarrow> bytes_less a d"
  using lexordp_trans by blast

lemma first_in_range_Some:
  assumes "first_in_range db lo hi = Some (k, v)"
  shows "map_of db k = Some v" "\<not> bytes_less k lo \<and> bytes_less k hi"
    "map_of db k' \<noteq> None \<Longrightarrow> \<not> bytes_less k' lo \<and> bytes_less k' hi \<Longrightarrow> \<not> bytes_less k' k"
proof -
  let ?R = "\<lambda>k. \<not> bytes_less k lo \<and> bytes_less k hi"
  have "map_of db k = Some v \<and> ?R k \<and> (\<forall>k'. map_of db k' \<noteq> None \<longrightarrow> ?R k' \<longrightarrow> \<not> bytes_less k' k)"
    using assms
  proof (induction db arbitrary: k v)
    case (Cons kv db)
    obtain k1 v1 where kv: "kv = (k1, v1)" by (cases kv)
    have look: "map_of (kv # db) q = (if q = k1 then Some v1 else map_of db q)" for q using kv by auto
    show ?case
    proof (cases "first_in_range db lo hi")
      case None
      with Cons.prems kv have "k = k1" "v = v1" "?R k" by (simp_all add: Let_def split: if_splits)
      with first_in_range_None [OF None] lexordp_irreflexive' [of k] show ?thesis unfolding look by metis
    next
      case (Some r)
      obtain k2 v2 where r: "r = (k2, v2)" by (cases r)
      note IH = Cons.IH [OF Some [unfolded r]]
      show ?thesis
      proof (cases "?R k1 \<and> \<not> bytes_less k2 k1")
        case True
        then have "k = k1" "v = v1" using Cons.prems kv Some r by (simp_all add: Let_def)
        moreover have "\<not> bytes_less q k1" if "map_of db q \<noteq> None" "?R q" for q
          using that IH True lexordp_linear [of k1 k2] bytes_less_trans [of q k1 k2] by metis
        ultimately show ?thesis using True lexordp_irreflexive' [of k1] unfolding look by metis
      next
        case False
        then have kv2: "k = k2" "v = v2" using Cons.prems kv Some r by (simp_all add: Let_def split: if_splits)
        have "\<not> bytes_less k1 k2 \<and> k1 \<noteq> k2" if "?R k1"
          using False that lexordp_antisym [of k1 k2] lexordp_irreflexive' [of k1] by metis
        with IH show ?thesis unfolding look kv2 by metis
      qed
    qed
  qed simp
  then show "map_of db k = Some v" "?R k" "map_of db k' \<noteq> None \<Longrightarrow> ?R k' \<Longrightarrow> \<not> bytes_less k' k" by blast+
qed

lemma map_of_tx_entries:
  assumes "tx_entries conf info flags 0 txs = Ret es" "length txs < 2 ^ 64" "j < length txs"
  shows "map_of (rev es) (constructTxIDKey (txID (txs ! j)) (biNum info) (of_nat j)) = Some (snd (tx_entry conf info flags j (txs ! j)))"
proof -
  let ?e = "\<lambda>j. tx_entry conf info flags j (txs ! j)"
  have es: "es = map ?e [0..<length txs]" using tx_entries_eq [OF assms(1)] by simp
  have "inj_on (fst \<circ> ?e) {0..<length txs}"
    using of_nat_u64_inj assms(2) by (auto simp: inj_on_def tx_entry_def)
  then have "distinct (map fst (rev es))" unfolding es by (simp add: distinct_map rev_map comp_def)
  moreover have "?e j \<in> set (rev es)" using assms(3) by (simp add: es)
  ultimately have "map_of (rev es) (fst (?e j)) = Some (snd (?e j))" by (intro map_of_is_SomeI) simp_all
  then show ?thesis by (simp add: tx_entry_def)
qed

lemma tx_entries_keys:
  assumes "tx_entries conf info flags 0 txs = Ret es" "k \<in> fst ` set es"
  obtains j where "j < length txs" "k = constructTxIDKey (txID (txs ! j)) (biNum info) (of_nat j)"
  using assms(2) tx_entries_eq [OF assms(1)] by (auto simp: tx_entry_def)

text \<open>The keys that indexing a block may add.\<close>

definition indexed_key :: "block_idx_info \<Rightarrow> bytes \<Rightarrow> bool" where
  "indexed_key info k \<longleftrightarrow> k = constructBlockNumKey (biNum info) \<or> k = constructBlockHashKey (biHash info) \<or>
     (\<exists>j < length (biTxOffsets info). k = constructTxIDKey (txID (biTxOffsets info ! j)) (biNum info) (of_nat j)) \<or>
     (\<exists>j. k = constructBlockNumTranNumKey (biNum info) j) \<or> k = indexSavePointKey"

lemma indexBlock_batch:
  assumes "indexBlock conf info db = Ret db'" "biMetadata info = Some ms" "AttrsToIndex conf \<noteq> []"
  obtains hs ns txs ps where "db' = WriteBatch db (hs @ ns @ txs @ ps @ [(indexSavePointKey, encodeBlockNum (biNum info))])"
    "(if IndexableAttrTxID \<in> set (AttrsToIndex conf) then tx_entries conf info (ms ! 2) 0 (biTxOffsets info) else Ret []) = Ret txs"
    "fst ` set hs \<subseteq> {constructBlockHashKey (biHash info)}" "fst ` set ns \<subseteq> {constructBlockNumKey (biNum info)}"
    "\<And>k. k \<in> fst ` set ps \<Longrightarrow> \<exists>j. k = constructBlockNumTranNumKey (biNum info) j"
proof -
  let ?txs = "if IndexableAttrTxID \<in> set (AttrsToIndex conf) then tx_entries conf info (ms ! 2) 0 (biTxOffsets info) else Ret []"
  let ?hs = "if IndexableAttrBlockHash \<in> set (AttrsToIndex conf) then [(constructBlockHashKey (biHash info), marshal_flp (biFlp info))] else []"
  let ?ns = "if IndexableAttrBlockNum \<in> set (AttrsToIndex conf) then [(constructBlockNumKey (biNum info), marshal_flp (biFlp info))] else []"
  let ?ps = "if IndexableAttrBlockNumTranNum \<in> set (AttrsToIndex conf) then pos_entries info 0 (biTxOffsets info) else []"
  have len: "\<not> length ms \<le> 2" using assms by (auto simp: indexBlock_def Let_def)
  have eq: "bind_go ?txs (\<lambda>txs. Ret (WriteBatch db (?hs @ ?ns @ txs @ ?ps @ [(indexSavePointKey, encodeBlockNum (biNum info))]))) = Ret db'"
    using assms(1) unfolding indexBlock_def Let_def assms(2) by (simp only: assms(3) len if_False option.case)
  then obtain txs where txs: "?txs = Ret txs" by (cases ?txs) simp_all
  show thesis
  proof (rule that [OF _ txs, of ?hs ?ns ?ps])
    show "db' = WriteBatch db (?hs @ ?ns @ txs @ ?ps @ [(indexSavePointKey, encodeBlockNum (biNum info))])"
      using eq unfolding txs by simp
    show "\<exists>j. k = constructBlockNumTranNumKey (biNum info) j" if "k \<in> fst ` set ?ps" for k
      using that pos_entries_keys [of k info 0 "biTxOffsets info"] by (auto split: if_splits)
  qed auto
qed

lemma indexBlock_tx_effect:
  assumes "indexBlock conf info db = Ret db'" "biMetadata info = Some ms" "AttrsToIndex conf \<noteq> []"
  shows "IndexableAttrTxID \<in> set (AttrsToIndex conf) \<Longrightarrow> length (biTxOffsets info) < 2 ^ 64 \<Longrightarrow> j < length (biTxOffsets info) \<Longrightarrow>
      map_of db' (constructTxIDKey (txID (biTxOffsets info ! j)) (biNum info) (of_nat j)) =
        Some (snd (tx_entry conf info (ms ! BlockMetadataIndex_TRANSACTIONS_FILTER) j (biTxOffsets info ! j)))"
    and "n \<noteq> biNum info \<Longrightarrow> map_of db' (constructTxIDKey t n i) = map_of db (constructTxIDKey t n i)"
    and "map_of db' k \<noteq> None \<Longrightarrow> map_of db k = None \<Longrightarrow> indexed_key info k"
proof -
  obtain hs ns txs ps where b: "db' = WriteBatch db (hs @ ns @ txs @ ps @ [(indexSavePointKey, encodeBlockNum (biNum info))])"
      "(if IndexableAttrTxID \<in> set (AttrsToIndex conf) then tx_entries conf info (ms ! 2) 0 (biTxOffsets info) else Ret []) = Ret txs"
      "fst ` set hs \<subseteq> {constructBlockHashKey (biHash info)}" "fst ` set ns \<subseteq> {constructBlockNumKey (biNum info)}"
      "\<And>k. k \<in> fst ` set ps \<Longrightarrow> \<exists>j. k = constructBlockNumTranNumKey (biNum info) j"
    by (rule indexBlock_batch [OF assms]) blast
  have hs: "map_of (rev hs) k = None" if "\<And>h. k \<noteq> constructBlockHashKey h" for k
    by (rule map_of_foreign) (use that b(3) in blast)
  have ns: "map_of (rev ns) k = None" if "\<And>n. k \<noteq> constructBlockNumKey n" for k
    by (rule map_of_foreign) (use that b(4) in blast)
  have ps: "map_of (rev ps) k = None" if "\<And>n j. k \<noteq> constructBlockNumTranNumKey n j" for k
    by (rule map_of_foreign) (use that b(5) in blast)
  have keys: "\<exists>j < length (biTxOffsets info). k = constructTxIDKey (txID (biTxOffsets info ! j)) (biNum info) (of_nat j)"
    if "k \<in> fst ` set txs" for k
    using that b(2) tx_entries_keys [of conf info "ms ! 2" "biTxOffsets info" txs k] by (cases "IndexableAttrTxID \<in> set (AttrsToIndex conf)") auto
  have look: "map_of db' (constructTxIDKey t n i) =
      (case map_of (rev txs) (constructTxIDKey t n i) of None \<Rightarrow> map_of db (constructTxIDKey t n i) | Some v \<Rightarrow> Some v)" for t n i
    unfolding b(1) map_of_WriteBatch using hs ns ps by (simp add: map_add_def split: option.split)
  show "map_of db' (constructTxIDKey (txID (biTxOffsets info ! j)) (biNum info) (of_nat j)) =
        Some (snd (tx_entry conf info (ms ! BlockMetadataIndex_TRANSACTIONS_FILTER) j (biTxOffsets info ! j)))"
    if "IndexableAttrTxID \<in> set (AttrsToIndex conf)" "length (biTxOffsets info) < 2 ^ 64" "j < length (biTxOffsets info)"
    using map_of_tx_entries [of conf info "ms ! 2" "biTxOffsets info" txs j] that b(2) by (simp add: look)
  show "map_of db' (constructTxIDKey t n i) = map_of db (constructTxIDKey t n i)" if "n \<noteq> biNum info"
  proof -
    have "map_of (rev txs) (constructTxIDKey t n i) = None" by (rule map_of_foreign) (use keys that in fastforce)
    then show ?thesis by (simp add: look)
  qed
  show "indexed_key info k" if "map_of db' k \<noteq> None" "map_of db k = None"
  proof -
    have "k \<in> fst ` set (hs @ ns @ txs @ ps @ [(indexSavePointKey, encodeBlockNum (biNum info))])"
      using that unfolding b(1) map_of_WriteBatch by (metis map_of_foreign option.simps(4))
    then consider "k \<in> fst ` set hs" | "k \<in> fst ` set ns" | "k \<in> fst ` set txs" | "k \<in> fst ` set ps" | "k = indexSavePointKey"
      by (simp only: set_append image_Un Un_iff) auto
    then show ?thesis
    proof cases
      case 3
      from keys [OF this] show ?thesis unfolding indexed_key_def by blast
    next
      case 4
      from b(5) [OF this] show ?thesis unfolding indexed_key_def by blast
    qed (use b(3,4) in \<open>auto simp: indexed_key_def\<close>)
  qed
qed

end
