(* ===== verification/Block_Store.thy ===== *)
theory Block_Store
  imports Block_Index
begin

text \<open>
  The block files of a ledger, \<^verbatim>\<open>common/ledger/blkstorage\<close>: appending a block to the current
  file, starting the next file when it is full, the streams that read blocks back, and what
  the manager does when it starts: it scans the current file for blocks that the database
  does not know, cuts off a partially written block, and brings the index up to date.

  A directory maps the number of a block file to its contents. The database is shared with
  the index. Ledgers that start from a snapshot are left out; the block cache is in theory
  \<open>File_Ledger\<close>, which completes \<open>writeBlock\<close> to \<open>addBlock\<close>.
\<close>

section \<open>Files\<close>

type_synonym dir = "(nat \<times> bytes) list"

definition contents :: "dir \<Rightarrow> nat \<Rightarrow> bytes" where
  "contents fs n = (case map_of fs n of None \<Rightarrow> [] | Some f \<Rightarrow> f)"

text \<open>\<open>newBlockfileWriter\<close> opens a file for appending and creates it if it does not exist.\<close>

definition newBlockfileWriter :: "dir \<Rightarrow> nat \<Rightarrow> dir" where
  "newBlockfileWriter fs n = (case map_of fs n of None \<Rightarrow> AList.update n [] fs | Some _ \<Rightarrow> fs)"

definition append_file :: "dir \<Rightarrow> nat \<Rightarrow> bytes \<Rightarrow> dir" where
  "append_file fs n bs = AList.update n (contents fs n @ bs) fs"

definition truncateFile :: "dir \<Rightarrow> nat \<Rightarrow> nat \<Rightarrow> dir" where
  "truncateFile fs n targetSize =
     (if targetSize < length (contents fs n) then AList.update n (take targetSize (contents fs n)) fs else fs)"

section \<open>Streams\<close>

abbreviation (input) "ErrUnexpectedEndOfBlockfile \<equiv> Errorf ''unexpected end of blockfile''"

text \<open>\<open>blockfileStream.nextBlockBytesAndPlacementInfo\<close> at an offset of a file: the block and the
  length of its length field, or nil at the end of the file. At most eight bytes are
  inspected for the length, so that it is less than \<open>2 ^ 56\<close> and the sums cannot wrap.\<close>

definition nextBlockBytes :: "bytes \<Rightarrow> nat \<Rightarrow> (error + (bytes \<times> nat) option) go" where
  "nextBlockBytes f off =
     (if off = length f then Ret (Inr None)
      else if length f < off then Ret (Inl (Errorf ''error peeking bytes from block file''))
      else (let remainingBytes = length f - off;
                (peekBytes, moreContentAvailable) = (if remainingBytes < 8 then (remainingBytes, False) else (8, True))
            in case ConsumeVarint (take peekBytes (drop off f)) of
                 Inl _ \<Rightarrow> if \<not> moreContentAvailable then Ret (Inl ErrUnexpectedEndOfBlockfile)
                          else Panic ''Error in decoding varint bytes''
               | Inr (len, n) \<Rightarrow>
                   if remainingBytes < n + len then Ret (Inl ErrUnexpectedEndOfBlockfile)
                   else Ret (Inr (Some (take len (drop (off + n) f), n)))))"

lemma nextBlockBytes_progress:
  assumes "nextBlockBytes f off = Ret (Inr (Some (bs, n)))"
  shows "0 < n \<and> off + n + length bs \<le> length f"
proof -
  obtain len lb where len: "ConsumeVarint lb = Inr (len, n)" "off < length f" "n + len \<le> length f - off"
      "bs = take len (drop (off + n) f)"
    using assms by (auto simp: nextBlockBytes_def Let_def not_less split: if_splits sum.splits)
  with ConsumeVarint_bound [OF len(1)] show ?thesis by auto
qed

text \<open>\<open>newBlockfileStream\<close> fails on a missing file; otherwise its state is the file and the offset.\<close>

definition open_stream :: "dir \<Rightarrow> nat \<Rightarrow> error + bytes" where
  "open_stream fs n = (case map_of fs n of None \<Rightarrow> Inl (Errorf ''error opening block file'') | Some f \<Rightarrow> Inr f)"

text \<open>\<open>blockStream.nextBlockBytesAndPlacementInfo\<close>: a stream over consecutive files. Its state is the
  current file and the offset in it; a negative end means no end. The result is the block,
  the file and the offset at which it starts, the length of its length field, and the state
  after it, or nil.\<close>

function stream_next :: "dir \<Rightarrow> int \<Rightarrow> nat \<Rightarrow> nat \<Rightarrow> (error + (bytes \<times> nat \<times> nat \<times> nat) option) go" where
  "stream_next fs endFileNum cur off =
     (case nextBlockBytes (contents fs cur) off of
        Panic m \<Rightarrow> Panic m
      | Ret (Inl e) \<Rightarrow> Ret (Inl e)
      | Ret (Inr (Some (bs, n))) \<Rightarrow> Ret (Inr (Some (bs, cur, off, n)))
      | Ret (Inr None) \<Rightarrow>
          if int cur < endFileNum \<or> endFileNum < 0 then
            (case open_stream fs (Suc cur) of
               Inl e \<Rightarrow> Ret (Inl e)
             | Inr _ \<Rightarrow> stream_next fs endFileNum (Suc cur) 0)
          else Ret (Inr None))"
  by pat_completeness auto

text \<open>Each move needs a further file.\<close>

definition files_after :: "dir \<Rightarrow> nat \<Rightarrow> nat" where
  "files_after fs n = card {k \<in> fst ` set fs. n < k}"

lemma files_after_Suc:
  assumes "open_stream fs (Suc n) = Inr f"
  shows "files_after fs (Suc n) < files_after fs n"
  unfolding files_after_def
proof (rule psubset_card_mono)
  have "Suc n \<in> fst ` set fs"
    using assms by (force simp: open_stream_def dest: map_of_SomeD split: option.splits)
  then show "{k \<in> fst ` set fs. Suc n < k} \<subset> {k \<in> fst ` set fs. n < k}" by auto
qed simp

termination stream_next
  by (relation "measure (\<lambda>(fs, e, cur, off). files_after fs cur)") (auto simp: files_after_Suc)

declare stream_next.simps [simp del]

section \<open>Scanning a file\<close>

function scan_loop :: "bytes \<Rightarrow> nat \<Rightarrow> bytes option \<Rightarrow> nat \<Rightarrow> (error + bytes option \<times> nat \<times> nat) go" where
  "scan_loop f off lastBlockBytes numBlocks =
     (case nextBlockBytes f off of
        Panic m \<Rightarrow> Panic m
      | Ret (Inl e) \<Rightarrow> if e = ErrUnexpectedEndOfBlockfile then Ret (Inr (lastBlockBytes, off, numBlocks)) else Ret (Inl e)
      | Ret (Inr None) \<Rightarrow> Ret (Inr (lastBlockBytes, off, numBlocks))
      | Ret (Inr (Some (bs, n))) \<Rightarrow> scan_loop f (off + n + length bs) (Some bs) (Suc numBlocks))"
  by pat_completeness auto

termination scan_loop
  by (relation "measure (\<lambda>(f, off, _, _). length f - off)") (auto dest!: nextBlockBytes_progress)

declare scan_loop.simps [simp del]

text \<open>The last complete block, the offset at which it ends, and the number of blocks.\<close>

definition scanForLastCompleteBlock :: "dir \<Rightarrow> nat \<Rightarrow> nat \<Rightarrow> (error + bytes option \<times> nat \<times> nat) go" where
  "scanForLastCompleteBlock fs fileNum startingOffset =
     bind_res (Ret (open_stream fs fileNum)) (\<lambda>f. scan_loop f startingOffset None 0)"

section \<open>The summary of the files\<close>

record blockfiles_info =
  latestFileNumber :: nat
  latestFileSize :: nat
  noBlockFiles :: bool
  lastPersistedBlock :: u64

definition marshal_info :: "blockfiles_info \<Rightarrow> bytes" where
  "marshal_info i = AppendVarint (latestFileNumber i) @ AppendVarint (latestFileSize i) @
     AppendVarint (unat (lastPersistedBlock i)) @ AppendVarint (if noBlockFiles i then 1 else 0)"

definition unmarshal_info :: "bytes \<Rightarrow> error + blockfiles_info" where
  "unmarshal_info b =
     bind_err (DecodeVarint b 0) (\<lambda>(num, pos).
     bind_err (DecodeVarint b pos) (\<lambda>(sz, pos).
     bind_err (DecodeVarint b pos) (\<lambda>(lst, pos).
     bind_err (DecodeVarint b pos) (\<lambda>(marker, pos).
       Inr \<lparr>latestFileNumber = num, latestFileSize = sz, noBlockFiles = (marker = 1), lastPersistedBlock = of_nat lst\<rparr>))))"

definition saveBlkfilesInfo :: "blockfiles_info \<Rightarrow> leveldb \<Rightarrow> leveldb" where
  "saveBlkfilesInfo i db = db_put db (blkMgrInfoKey, marshal_info i)"

definition loadBlkfilesInfo :: "leveldb \<Rightarrow> error + blockfiles_info option" where
  "loadBlkfilesInfo db =
     (case map_of db blkMgrInfoKey of
        None \<Rightarrow> Inr None
      | Some b \<Rightarrow> bind_err (unmarshal_info b) (\<lambda>i. Inr (Some i)))"

text \<open>\<open>retrieveLastFileSuffix\<close>; there is no file when the result is nil (\<open>-1\<close> in the source).\<close>

definition retrieveLastFileSuffix :: "dir \<Rightarrow> nat option" where
  "retrieveLastFileSuffix fs = (if fs = [] then None else Some (Max (set (map fst fs))))"

definition constructBlockfilesInfo :: "codec \<Rightarrow> dir \<Rightarrow> (error + blockfiles_info) go" where
  "constructBlockfilesInfo c fs =
     (case retrieveLastFileSuffix fs of
        None \<Rightarrow> Ret (Inr \<lparr>latestFileNumber = 0, latestFileSize = 0, noBlockFiles = True, lastPersistedBlock = 0\<rparr>)
      | Some lastFileNum \<Rightarrow>
          bind_res (scanForLastCompleteBlock fs lastFileNum 0) (\<lambda>(lastBlockBytes, endOffsetLastBlock, numBlocksInFile).
          bind_res (if numBlocksInFile = 0 \<and> 0 < lastFileNum then
                      (if map_of fs (lastFileNum - 1) = None then Panic ''error retrieving file info''
                       else bind_res (scanForLastCompleteBlock fs (lastFileNum - 1) 0) (\<lambda>(bs, _, _). Ret (Inr bs)))
                    else Ret (Inr lastBlockBytes)) (\<lambda>lastBlockBytes.
          bind_res (case lastBlockBytes of
                      None \<Rightarrow> Ret (Inr 0)
                    | Some bs \<Rightarrow> bind_res (Ret (deserializeBlock c bs)) (\<lambda>b. Ret (Inr (Number (BHeader b))))) (\<lambda>lastBlockNumber.
            Ret (Inr \<lparr>latestFileNumber = lastFileNum, latestFileSize = endOffsetLastBlock,
                      noBlockFiles = (lastFileNum = 0 \<and> numBlocksInFile = 0), lastPersistedBlock = lastBlockNumber\<rparr>)))))"

definition syncBlockfilesInfoFromFS :: "dir \<Rightarrow> blockfiles_info \<Rightarrow> blockfiles_info go" where
  "syncBlockfilesInfoFromFS fs i =
     (case map_of fs (latestFileNumber i) of
        None \<Rightarrow> Ret i
      | Some f \<Rightarrow>
          if length f = latestFileSize i then Ret i
          else
            bind_go (scanForLastCompleteBlock fs (latestFileNumber i) (latestFileSize i)) (\<lambda>r.
            case r of
              Inl _ \<Rightarrow> Panic ''Could not open current file for detecting last block in the file''
            | Inr (_, endOffsetLastBlock, numBlocks) \<Rightarrow>
                let i = i\<lparr>latestFileSize := endOffsetLastBlock\<rparr> in
                if numBlocks = 0 then Ret i
                else Ret (i\<lparr>lastPersistedBlock := (if noBlockFiles i then of_nat (numBlocks - 1)
                                                 else lastPersistedBlock i + of_nat numBlocks),
                            noBlockFiles := False\<rparr>)))"

section \<open>Reading blocks\<close>

definition retrieveFirstBlockNumFromFile :: "codec \<Rightarrow> dir \<Rightarrow> nat \<Rightarrow> (error + u64) go" where
  "retrieveFirstBlockNumFromFile c fs fileNum =
     bind_res (Ret (open_stream fs fileNum)) (\<lambda>f.
     bind_res (nextBlockBytes f 0) (\<lambda>r.
     bind_res (Ret (extractSerializedBlockInfo c (case r of None \<Rightarrow> [] | Some (bs, _) \<Rightarrow> bs))) (\<lambda>info.
       Ret (Inr (Number (siHeader info))))))"

definition fetchBlockBytes :: "dir \<Rightarrow> file_loc \<Rightarrow> (error + bytes) go" where
  "fetchBlockBytes fs lp =
     bind_res (Ret (open_stream fs (fileSuffixNum lp))) (\<lambda>f.
     bind_res (nextBlockBytes f (flOffset lp)) (\<lambda>r.
       Ret (Inr (case r of None \<Rightarrow> [] | Some (bs, _) \<Rightarrow> bs))))"

definition fetchBlock :: "codec \<Rightarrow> dir \<Rightarrow> file_loc \<Rightarrow> (error + block) go" where
  "fetchBlock c fs lp = bind_res (fetchBlockBytes fs lp) (\<lambda>bs. Ret (deserializeBlock c bs))"

definition fetchRawBytes :: "dir \<Rightarrow> file_loc \<Rightarrow> error + bytes" where
  "fetchRawBytes fs lp =
     bind_err (open_stream fs (fileSuffixNum lp)) (\<lambda>f.
       if length f < flOffset lp + flLength lp then Inl (Errorf ''error reading block file'')
       else Inr (take (flLength lp) (drop (flOffset lp) f)))"

definition fetchTransactionEnvelope :: "codec \<Rightarrow> dir \<Rightarrow> file_loc \<Rightarrow> error + envelope" where
  "fetchTransactionEnvelope c fs lp =
     bind_err (fetchRawBytes fs lp) (\<lambda>bs.
       let n = (case ConsumeVarint bs of Inl _ \<Rightarrow> 0 | Inr (_, n) \<Rightarrow> n)
       in GetEnvelopeFromBlock c (drop n bs))"

section \<open>Bringing the index up to date\<close>

definition shift_offset :: "nat \<Rightarrow> tx_index_info \<Rightarrow> tx_index_info" where
  "shift_offset k t = t\<lparr>txOffset := txOffset t + k\<rparr>"

text \<open>The entry that the loop makes of a block that starts at offset \<open>start\<close> of a file, with a length
  field of \<open>n\<close> bytes.\<close>

definition stored_idx_info :: "codec \<Rightarrow> serialized_block_info \<Rightarrow> nat \<Rightarrow> nat \<Rightarrow> nat \<Rightarrow> block_idx_info" where
  "stored_idx_info c info fileNum start n =
     \<lparr>biNum = Number (siHeader info), biHash = BlockHeaderHash c (siHeader info),
      biFlp = \<lparr>fileSuffixNum = fileNum, flOffset = start, flLength = 0\<rparr>,
      biTxOffsets = map (shift_offset n) (siTxOffsets info), biMetadata = siMetadata info\<rparr>"

lemma stream_next_progress:
  "stream_next fs e cur off = Ret (Inr (Some (bs, cur', off', n))) \<Longrightarrow>
   cur \<le> cur' \<and> (cur' = cur \<longrightarrow> off' = off) \<and> files_after fs cur' \<le> files_after fs cur \<and>
   (cur < cur' \<longrightarrow> files_after fs cur' < files_after fs cur) \<and> 0 < n \<and> off' + n + length bs \<le> length (contents fs cur')"
proof (induction fs e cur off rule: stream_next.induct)
  case (1 fs e cur off)
  show ?case
  proof (cases "nextBlockBytes (contents fs cur) off")
    case (Ret r)
    show ?thesis
    proof (cases "r = Inr None")
      case True
      with Ret "1.prems" obtain f where move: "int cur < e \<or> e < 0" "open_stream fs (Suc cur) = Inr f"
          "stream_next fs e (Suc cur) 0 = Ret (Inr (Some (bs, cur', off', n)))"
        by (subst (asm) stream_next.simps) (auto split: if_splits sum.splits)
      have "Ret r = Ret (Inr None)" using True by simp
      from "1.IH" [OF Ret True refl move] files_after_Suc [OF move(2)] show ?thesis by auto
    next
      case False
      with Ret "1.prems" have "nextBlockBytes (contents fs cur) off = Ret (Inr (Some (bs, n)))" "cur' = cur" "off' = off"
        by (subst (asm) stream_next.simps, auto split: if_splits sum.splits option.splits)+
      with nextBlockBytes_progress show ?thesis by auto
    qed
  next
    case (Panic m)
    with "1.prems" show ?thesis by (subst (asm) stream_next.simps) simp
  qed
qed

function index_loop :: "codec \<Rightarrow> store_conf \<Rightarrow> dir \<Rightarrow> int \<Rightarrow> nat \<Rightarrow> nat \<Rightarrow> leveldb \<Rightarrow> (error + leveldb) go" where
  "index_loop c conf fs e cur off db =
     (case stream_next fs e cur off of
        Panic m \<Rightarrow> Panic m
      | Ret (Inl er) \<Rightarrow> Ret (Inl er)
      | Ret (Inr None) \<Rightarrow> Ret (Inr db)
      | Ret (Inr (Some (bs, fileNum, start, n))) \<Rightarrow>
          (case extractSerializedBlockInfo c bs of
             Inl er \<Rightarrow> Ret (Inl er)
           | Inr info \<Rightarrow>
               (case indexBlock conf (stored_idx_info c info fileNum start n) db of
                  Panic m \<Rightarrow> Panic m
                | Ret db' \<Rightarrow> index_loop c conf fs e fileNum (start + n + length bs) db')))"
  by pat_completeness auto

termination index_loop
proof (relation "measures [\<lambda>(c, conf, fs, e, cur, off, db). files_after fs cur,
    \<lambda>(c, conf, fs, e, cur, off, db). length (contents fs cur) - off]", goal_cases)
  case (2 c conf fs e cur off db x1 x2 x3 bs x4 fileNum x5 start n info db')
  then have "stream_next fs e cur off = Ret (Inr (Some (bs, fileNum, start, n)))" by simp
  from stream_next_progress [OF this] show ?case by auto
qed simp

declare index_loop.simps [simp del]

definition syncIndex :: "codec \<Rightarrow> store_conf \<Rightarrow> dir \<Rightarrow> blockfiles_info \<Rightarrow> leveldb \<Rightarrow> (error + leveldb) go" where
  "syncIndex c conf fs i db =
     (let nextIndexableBlock = (case getLastBlockIndexed db of None \<Rightarrow> 0 | Some n \<Rightarrow> n + 1);
          lastBlockIndexed = (case getLastBlockIndexed db of None \<Rightarrow> 0 | Some n \<Rightarrow> n);
          endFileNum = int (latestFileNumber i) in
      if noBlockFiles i then Ret (Inr db)
      else if nextIndexableBlock = lastPersistedBlock i + 1 then Ret (Inr db)
      else
        bind_res (retrieveFirstBlockNumFromFile c fs 0) (\<lambda>firstAvailableBlkNum.
        if firstAvailableBlkNum < nextIndexableBlock then
          bind_res (Ret (getBlockLocByBlockNum conf db lastBlockIndexed)) (\<lambda>flp.
          bind_res (Ret (open_stream fs (fileSuffixNum flp))) (\<lambda>_.
          bind_res (stream_next fs endFileNum (fileSuffixNum flp) (flOffset flp)) (\<lambda>r.
          case r of
            None \<Rightarrow> Ret (Inl (Errorf ''block bytes should not be nil here''))
          | Some (bs, fileNum, start, n) \<Rightarrow> index_loop c conf fs endFileNum fileNum (start + n + length bs) db)))
        else
          bind_res (Ret (open_stream fs 0)) (\<lambda>_. index_loop c conf fs endFileNum 0 0 db)))"

section \<open>The manager\<close>

record blockfile_mgr =
  mDir :: dir
  mDb :: leveldb
  mInfo :: blockfiles_info
  bcHeight :: u64
  bcCurrentHash :: bytes
  bcPreviousHash :: bytes

definition retrieveBlockHeaderByNumber :: "codec \<Rightarrow> store_conf \<Rightarrow> dir \<Rightarrow> leveldb \<Rightarrow> u64 \<Rightarrow> (error + block_header) go" where
  "retrieveBlockHeaderByNumber c conf fs db blockNum =
     bind_res (Ret (getBlockLocByBlockNum conf db blockNum)) (\<lambda>loc.
     bind_res (fetchBlockBytes fs loc) (\<lambda>bs.
     bind_res (Ret (extractSerializedBlockInfo c bs)) (\<lambda>info. Ret (Inr (siHeader info)))))"

definition newBlockfileMgr :: "codec \<Rightarrow> store_conf \<Rightarrow> dir \<Rightarrow> leveldb \<Rightarrow> (error + blockfile_mgr) go" where
  "newBlockfileMgr c conf fs db =
     (case loadBlkfilesInfo db of
        Inl _ \<Rightarrow> Panic ''Could not get block file info for current block file from db''
      | Inr loaded \<Rightarrow>
          bind_go (case loaded of
                     None \<Rightarrow> bind_go (constructBlockfilesInfo c fs) (\<lambda>r.
                       case r of Inl _ \<Rightarrow> Panic ''Could not build blockfilesInfo info from block files'' | Inr i \<Rightarrow> Ret i)
                   | Some i \<Rightarrow> syncBlockfilesInfoFromFS fs i) (\<lambda>i.
          let db = saveBlkfilesInfo i db;
              fs = newBlockfileWriter fs (latestFileNumber i);
              fs = truncateFile fs (latestFileNumber i) (latestFileSize i) in
          bind_res (syncIndex c conf fs i db) (\<lambda>db.
          if noBlockFiles i then
            Ret (Inr \<lparr>mDir = fs, mDb = db, mInfo = i, bcHeight = 0, bcCurrentHash = [], bcPreviousHash = []\<rparr>)
          else
            bind_go (retrieveBlockHeaderByNumber c conf fs db (lastPersistedBlock i)) (\<lambda>r.
            case r of
              Inl _ \<Rightarrow> Panic ''Could not retrieve header of the last block form file''
            | Inr h \<Rightarrow> Ret (Inr \<lparr>mDir = fs, mDb = db, mInfo = i, bcHeight = lastPersistedBlock i + 1,
                                bcCurrentHash = BlockHeaderHash c h, bcPreviousHash = PreviousHash h\<rparr>)))))"

definition moveToNextFile :: "blockfile_mgr \<Rightarrow> blockfile_mgr" where
  "moveToNextFile m =
     (let i = \<lparr>latestFileNumber = latestFileNumber (mInfo m) + 1, latestFileSize = 0, noBlockFiles = False,
               lastPersistedBlock = lastPersistedBlock (mInfo m)\<rparr>
      in m\<lparr>mDir := newBlockfileWriter (mDir m) (latestFileNumber i), mDb := saveBlkfilesInfo i (mDb m), mInfo := i\<rparr>)"

text \<open>The outcome of the disk operations in one call of \<open>writeBlock\<close>: all succeed, a write of the length or
  of the block fails after some bytes, or the database refuses a write.\<close>

datatype io_outcome = IoOk | LengthFails nat | DataFails nat | SaveInfoFails | IndexFails

text \<open>\<open>addBlock\<close> without the block cache: the result is the error and the manager afterwards.\<close>

definition writeBlock ::
    "codec \<Rightarrow> store_conf \<Rightarrow> io_outcome \<Rightarrow> block \<Rightarrow> blockfile_mgr \<Rightarrow> (error option \<times> blockfile_mgr) go" where
  "writeBlock c conf io b m =
     (if Number (BHeader b) \<noteq> bcHeight m then Ret (Some (Errorf ''block number should have been height''), m)
      else if PreviousHash (BHeader b) \<noteq> bcCurrentHash m then Ret (Some (Errorf ''unexpected Previous block hash''), m)
      else bind_go (serializeBlock c b) (\<lambda>(blockBytes, info).
        let blockHash = BlockHeaderHash c (BHeader b);
            encodedLen = AppendVarint (length blockBytes);
            totalBytesToAppend = length blockBytes + length encodedLen;
            full = maxBlockfileSize conf < latestFileSize (mInfo m) + totalBytesToAppend;
            currentOffset = (if full then 0 else latestFileSize (mInfo m));
            m = (if full then moveToNextFile m else m);
            cur = latestFileNumber (mInfo m);
            newInfo = \<lparr>latestFileNumber = cur, latestFileSize = latestFileSize (mInfo m) + totalBytesToAppend,
                       noBlockFiles = False, lastPersistedBlock = Number (BHeader b)\<rparr>;
            written = append_file (append_file (mDir m) cur encodedLen) cur blockBytes;
            idx = \<lparr>biNum = Number (BHeader b), biHash = blockHash,
                   biFlp = \<lparr>fileSuffixNum = cur, flOffset = currentOffset, flLength = 0\<rparr>,
                   biTxOffsets = map (shift_offset (length encodedLen)) (siTxOffsets info), biMetadata = BMetadata b\<rparr>
        in case io of
             LengthFails k \<Rightarrow>
               Ret (Some (Errorf ''error appending block to file''),
                    m\<lparr>mDir := truncateFile (append_file (mDir m) cur (take k encodedLen)) cur (latestFileSize (mInfo m))\<rparr>)
           | DataFails k \<Rightarrow>
               Ret (Some (Errorf ''error appending block to file''),
                    m\<lparr>mDir := truncateFile (append_file (append_file (mDir m) cur encodedLen) cur (take k blockBytes)) cur
                               (latestFileSize (mInfo m))\<rparr>)
           | SaveInfoFails \<Rightarrow>
               Ret (Some (Errorf ''error saving blockfiles file info to db''),
                    m\<lparr>mDir := truncateFile written cur (latestFileSize (mInfo m))\<rparr>)
           | IndexFails \<Rightarrow>
               Ret (Some (Errorf ''index''), m\<lparr>mDir := written, mDb := saveBlkfilesInfo newInfo (mDb m)\<rparr>)
           | IoOk \<Rightarrow>
               bind_go (indexBlock conf idx (saveBlkfilesInfo newInfo (mDb m))) (\<lambda>db.
                 Ret (None, m\<lparr>mDir := written, mDb := db, mInfo := newInfo, bcHeight := bcHeight m + 1,
                              bcCurrentHash := blockHash, bcPreviousHash := PreviousHash (BHeader b)\<rparr>))))"

text \<open>A number of \<open>MaxUint64\<close> asks for the last block.\<close>

definition retrieveBlockByNumber :: "codec \<Rightarrow> store_conf \<Rightarrow> blockfile_mgr \<Rightarrow> u64 \<Rightarrow> (error + block) go" where
  "retrieveBlockByNumber c conf m blockNum =
     (let blockNum = (if blockNum = - 1 then bcHeight m - 1 else blockNum) in
      bind_res (Ret (getBlockLocByBlockNum conf (mDb m) blockNum)) (fetchBlock c (mDir m)))"

definition retrieveBlockByHash :: "codec \<Rightarrow> store_conf \<Rightarrow> blockfile_mgr \<Rightarrow> bytes \<Rightarrow> (error + block) go" where
  "retrieveBlockByHash c conf m blockHash =
     bind_res (Ret (getBlockLocByHash conf (mDb m) blockHash)) (fetchBlock c (mDir m))"

definition retrieveBlockByTxID :: "codec \<Rightarrow> store_conf \<Rightarrow> blockfile_mgr \<Rightarrow> string \<Rightarrow> (error + block) go" where
  "retrieveBlockByTxID c conf m tx =
     bind_res (Ret (getBlockLocByTxID conf (mDb m) tx)) (fetchBlock c (mDir m))"

definition retrieveTransactionByID :: "codec \<Rightarrow> store_conf \<Rightarrow> blockfile_mgr \<Rightarrow> string \<Rightarrow> error + envelope" where
  "retrieveTransactionByID c conf m tx =
     bind_err (getTxLoc conf (mDb m) tx) (fetchTransactionEnvelope c (mDir m))"

definition retrieveTransactionByBlockNumTranNum ::
    "codec \<Rightarrow> store_conf \<Rightarrow> blockfile_mgr \<Rightarrow> u64 \<Rightarrow> u64 \<Rightarrow> error + envelope" where
  "retrieveTransactionByBlockNumTranNum c conf m blockNum tranNum =
     bind_err (getTXLocByBlockNumTranNum conf (mDb m) blockNum tranNum) (fetchTransactionEnvelope c (mDir m))"

end
