(* ===== verification/Block_Store_Facts.thy ===== *)
theory Block_Store_Facts
  imports Block_Store
begin

text \<open>
  The block files refine a list of blocks: every file is the concatenation of length-prefixed
  blocks, the database and the index agree with the files, reading by number returns the
  blocks of the list, appending extends it, and starting the manager after a crash at any
  point of an append gives the list before or after it.
\<close>

section \<open>Frames\<close>

definition items_of :: "bytes list option \<Rightarrow> bytes list" where
  "items_of x = (case x of None \<Rightarrow> [] | Some xs \<Rightarrow> xs)"

definition bbytes :: "block \<Rightarrow> bytes" where
  "bbytes b = block_bytes b (items_of (BData b)) (items_of (BMetadata b))"

definition len_field :: "block \<Rightarrow> bytes" where
  "len_field b = AppendVarint (length (bbytes b))"

definition frame :: "block \<Rightarrow> bytes" where
  "frame b = len_field b @ bbytes b"

definition frames :: "block list \<Rightarrow> bytes" where
  "frames bs = concat (map frame bs)"

text \<open>A block that the storage can take: it has data and metadata with a transactions filter, and its
  length fits the eight bytes that a stream inspects.\<close>

definition storable :: "store_conf \<Rightarrow> block \<Rightarrow> bool" where
  "storable conf b \<longleftrightarrow> BData b \<noteq> None \<and> indexable conf (BMetadata b) (length (items_of (BData b))) \<and> length (bbytes b) < 2 ^ 56"

lemma frames_append [simp]: "frames (xs @ ys) = frames xs @ frames ys"
  by (simp add: frames_def)

lemma frames_Cons [simp]: "frames (b # bs) = frame b @ frames bs"
  by (simp add: frames_def)

lemma frames_Nil [simp]: "frames [] = []"
  by (simp add: frames_def)

lemma length_AppendVarint: "v < 2 ^ (7 * n) \<Longrightarrow> 0 < n \<Longrightarrow> length (AppendVarint v) \<le> n"
proof (induction n arbitrary: v)
  case (Suc n)
  show ?case
  proof (cases "v < 128")
    case True
    then show ?thesis by (simp add: length_AppendVarint_small)
  next
    case False
    have "v div 128 < 2 ^ (7 * n)"
      using Suc.prems(1) by (simp add: less_mult_imp_div_less power_add mult.commute)
    moreover have "0 < n" using False Suc.prems(1) by (cases n) simp_all
    ultimately have "length (AppendVarint (v div 128)) \<le> n" by (rule Suc.IH)
    with False show ?thesis by (subst AppendVarint.simps) simp
  qed
qed simp

lemma length_len_field: "storable conf b \<Longrightarrow> length (len_field b) \<le> 8"
  using length_AppendVarint [of "length (bbytes b)" 8] by (simp add: storable_def len_field_def)

lemma length_frame: "length (frame b) = length (len_field b) + length (bbytes b)"
  by (simp add: frame_def)

lemma frame_not_Nil [simp]: "frame b \<noteq> []"
  by (simp add: frame_def len_field_def)

lemma storable_facts:
  assumes "storable conf b"
  obtains data ms where "BData b = Some data" "BMetadata b = Some ms" "bbytes b = block_bytes b data ms"
    "length (block_bytes b data ms) < 2 ^ 64" "items_of (BData b) = data"
proof -
  obtain data where d: "BData b = Some data" using assms by (auto simp: storable_def)
  obtain ms where ms: "BMetadata b = Some ms" using assms by (auto simp: storable_def indexable_def split: option.splits)
  have "length (block_bytes b data ms) < 2 ^ 64" using assms d ms by (simp add: storable_def bbytes_def items_of_def)
  with d ms that show thesis by (simp add: bbytes_def items_of_def)
qed

section \<open>Reading a frame\<close>

lemma ConsumeVarint_take:
  assumes "v < 2 ^ 64" "length (AppendVarint v) \<le> k"
  shows "ConsumeVarint (take k (AppendVarint v @ rest)) = Inr (v, length (AppendVarint v))"
  using assms ConsumeVarint_Append [OF assms(1), of "take (k - length (AppendVarint v)) rest"] by simp

lemma nextBlockBytes_at:
  assumes "\<And>k. n \<le> k \<Longrightarrow> ConsumeVarint (take k x) = Inr (len, n)" "0 < n" "n \<le> 8" "n \<le> length x"
  shows "nextBlockBytes (pre @ x) (length pre) =
    (if length x < n + len then Ret (Inl ErrUnexpectedEndOfBlockfile) else Ret (Inr (Some (take len (drop n x), n))))"
proof -
  have x: "x \<noteq> []" using assms(2,4) by auto
  have small: "ConsumeVarint x = Inr (len, n)" using assms(1) [OF assms(4)] by simp
  have big: "ConsumeVarint (take 8 x) = Inr (len, n)" by (rule assms(1) [OF assms(3)])
  show ?thesis using x by (cases "length x < 8") (simp_all add: nextBlockBytes_def Let_def small big)
qed

lemma nextBlockBytes_frame:
  assumes "storable conf b"
  shows "nextBlockBytes (pre @ frame b @ rest) (length pre) = Ret (Inr (Some (bbytes b, length (len_field b))))"
proof -
  let ?n = "length (len_field b)" and ?v = "length (bbytes b)"
  have v: "?v < 2 ^ 64" using assms by (simp add: storable_def)
  have "ConsumeVarint (take k (frame b @ rest)) = Inr (?v, ?n)" if "?n \<le> k" for k
    using ConsumeVarint_take [OF v, of k "bbytes b @ rest"] that by (simp add: frame_def len_field_def)
  then show ?thesis
    using nextBlockBytes_at [of ?n "frame b @ rest" ?v pre] length_len_field [OF assms]
    by (simp add: length_frame) (simp add: frame_def len_field_def)
qed

text \<open>A strict prefix of a frame is recognised as incomplete.\<close>

lemma AppendVarint_continues: "AppendVarint v = p @ q \<Longrightarrow> q \<noteq> [] \<Longrightarrow> \<forall>x \<in> set p. 128 \<le> unat x"
proof (induction v arbitrary: p rule: AppendVarint.induct)
  case (1 v)
  show ?case
  proof (cases "v < 128")
    case True
    with "1.prems" have "p = []" by (cases p) (simp_all add: length_AppendVarint_small)
    then show ?thesis by simp
  next
    case False
    then have eq: "AppendVarint v = of_nat (v mod 128 + 128) # AppendVarint (v div 128)" by (subst AppendVarint.simps) simp
    show ?thesis
    proof (cases p)
      case (Cons x p')
      with "1.prems" eq have "x = of_nat (v mod 128 + 128)" "AppendVarint (v div 128) = p' @ q" by simp_all
      moreover from "1.IH" [OF False this(2) "1.prems"(2)] have "\<forall>x \<in> set p'. 128 \<le> unat x" .
      moreover have "unat (of_nat (v mod 128 + 128) :: byte) = v mod 128 + 128" by (rule unat_of_nat_byte) simp
      ultimately show ?thesis using Cons by simp
    qed simp
  qed
qed

lemma consume_varint_truncated:
  "\<forall>x \<in> set p. 128 \<le> unat x \<Longrightarrow> i + length p \<le> 9 \<Longrightarrow> consume_varint_from i v p = Inl ErrTruncated"
  by (induction p arbitrary: i v) (auto simp: Let_def)

lemma nextBlockBytes_partial:
  assumes "storable conf b" "frame b = p @ q" "q \<noteq> []" "p \<noteq> []"
  shows "nextBlockBytes (pre @ p) (length pre) = Ret (Inl ErrUnexpectedEndOfBlockfile)"
proof (cases "length p < length (len_field b)")
  case True
  then obtain q' where q': "len_field b = p @ q'" "q' \<noteq> []"
    using assms(2) by (auto simp: frame_def append_eq_append_conv2)
  then have "\<forall>x \<in> set p. 128 \<le> unat x" using AppendVarint_continues [of "length (bbytes b)" p q'] by (simp add: len_field_def)
  moreover have "length p < 8" using True length_len_field [OF assms(1)] by simp
  ultimately have "ConsumeVarint p = Inl ErrTruncated" by (simp add: ConsumeVarint_def consume_varint_truncated)
  with \<open>length p < 8\<close> assms(4) show ?thesis by (simp add: nextBlockBytes_def Let_def)
next
  case False
  then obtain r where r: "p = len_field b @ r" "bbytes b = r @ q"
    using assms(2) by (auto simp: frame_def append_eq_append_conv2)
  have v: "length (bbytes b) < 2 ^ 64" using assms(1) by (simp add: storable_def)
  have "ConsumeVarint (take k p) = Inr (length (bbytes b), length (len_field b))" if "length (len_field b) \<le> k" for k
    using ConsumeVarint_take [OF v, of k r] that r(1) by (simp add: len_field_def)
  moreover have "length p < length (len_field b) + length (bbytes b)" using r assms(3) by simp
  ultimately show ?thesis
    using nextBlockBytes_at [of "length (len_field b)" p "length (bbytes b)" pre] length_len_field [OF assms(1)] False
    by (simp add: len_field_def)
qed

lemma nextBlockBytes_end: "nextBlockBytes f (length f) = Ret (Inr None)"
  by (simp add: nextBlockBytes_def)

text \<open>What a crash may leave after the complete blocks of a file.\<close>

definition torn :: "store_conf \<Rightarrow> bytes \<Rightarrow> bool" where
  "torn conf p \<longleftrightarrow> p = [] \<or> (\<exists>b q. storable conf b \<and> frame b = p @ q \<and> q \<noteq> [])"

lemma torn_Nil [simp]: "torn conf []"
  by (simp add: torn_def)

lemma scan_loop_frames:
  assumes "list_all (storable conf) bs" "torn conf p"
  shows "\<exists>lst'. scan_loop (pre @ frames bs @ p) (length pre) lst n = Ret (Inr (lst', length (pre @ frames bs), n + length bs))"
  using assms(1)
proof (induction bs arbitrary: pre lst n)
  case Nil
  show ?case
  proof (cases "p = []")
    case True
    then show ?thesis by (subst scan_loop.simps) (simp add: nextBlockBytes_end)
  next
    case False
    with assms(2) have "nextBlockBytes (pre @ p) (length pre) = Ret (Inl ErrUnexpectedEndOfBlockfile)"
      using nextBlockBytes_partial by (auto simp: torn_def)
    then show ?thesis by (subst scan_loop.simps) simp
  qed
next
  case (Cons b bs)
  then have b: "storable conf b" by simp
  have next_b: "nextBlockBytes (pre @ frame b @ frames bs @ p) (length pre) = Ret (Inr (Some (bbytes b, length (len_field b))))"
    by (rule nextBlockBytes_frame [OF b])
  have "\<exists>lst'. scan_loop ((pre @ frame b) @ frames bs @ p) (length (pre @ frame b)) (Some (bbytes b)) (Suc n)
      = Ret (Inr (lst', length ((pre @ frame b) @ frames bs), Suc n + length bs))"
    by (rule Cons.IH) (use Cons.prems in simp)
  with next_b show ?case
    by (subst scan_loop.simps) (simp add: length_frame add.assoc)
qed

section \<open>The layout of the files\<close>

text \<open>\<open>segs\<close> is the list of blocks of each file. The file after the last one may exist, empty.\<close>

definition layout :: "dir \<Rightarrow> block list list \<Rightarrow> bool" where
  "layout fs segs \<longleftrightarrow> segs \<noteq> [] \<and> (\<forall>k < length segs. map_of fs k = Some (frames (segs ! k))) \<and>
     (\<forall>k \<ge> length segs. map_of fs k = None \<or> k = length segs \<and> map_of fs k = Some [])"

text \<open>Where each block starts: file, offset, block.\<close>

type_synonym place = "nat \<times> nat \<times> block"

fun seg_places :: "nat \<Rightarrow> nat \<Rightarrow> block list \<Rightarrow> place list" where
  "seg_places k off [] = []"
| "seg_places k off (b # bs) = (k, off, b) # seg_places k (off + length (frame b)) bs"

fun places_from :: "nat \<Rightarrow> block list list \<Rightarrow> place list" where
  "places_from k [] = []"
| "places_from k (s # ss) = seg_places k 0 s @ places_from (Suc k) ss"

lemma seg_places_append: "seg_places k off (xs @ ys) = seg_places k off xs @ seg_places k (off + length (frames xs)) ys"
  by (induction xs arbitrary: off) (simp_all add: add.assoc)

lemma places_from_append: "places_from k (xs @ ys) = places_from k xs @ places_from (k + length xs) ys"
  by (induction xs arbitrary: k) simp_all

lemma length_seg_places [simp]: "length (seg_places k off bs) = length bs"
  by (induction bs arbitrary: off) simp_all

lemma seg_places_blocks: "map (snd \<circ> snd) (seg_places k off bs) = bs"
  by (induction bs arbitrary: off) simp_all

lemma places_from_blocks: "map (snd \<circ> snd) (places_from k segs) = concat segs"
  by (induction segs arbitrary: k) (simp_all add: seg_places_blocks)

lemma length_places_from [simp]: "length (places_from k segs) = length (concat segs)"
  using arg_cong [OF places_from_blocks [of k segs], of length] by simp

lemma place_block: "i < length (concat segs) \<Longrightarrow> snd (snd (places_from k segs ! i)) = concat segs ! i"
  using arg_cong [OF places_from_blocks [of k segs], of "\<lambda>xs. xs ! i"] by simp

lemma seg_places_in_file:
  assumes "(k', o', b) \<in> set (seg_places k off bs)"
  shows "k' = k \<and> (\<exists>xs ys. bs = xs @ b # ys \<and> o' = off + length (frames xs))"
  using assms
proof (induction bs arbitrary: off)
  case (Cons x bs)
  show ?case
  proof (cases "(k', o', b) = (k, off, x)")
    case True
    then show ?thesis by (intro conjI exI [of _ "[]"] exI [of _ bs]) simp_all
  next
    case False
    with Cons.prems have "(k', o', b) \<in> set (seg_places k (off + length (frame x)) bs)" by auto
    from Cons.IH [OF this] obtain xs ys where "k' = k" "bs = xs @ b # ys" "o' = off + length (frame x) + length (frames xs)" by blast
    then show ?thesis by (intro conjI exI [of _ "x # xs"] exI [of _ ys]) simp_all
  qed
qed simp

text \<open>A block lies in its file at its offset.\<close>

lemma place_in_file:
  assumes "(k', o', b) \<in> set (places_from k segs)"
  shows "k \<le> k' \<and> k' < k + length segs \<and> (\<exists>xs ys. segs ! (k' - k) = xs @ b # ys \<and> o' = length (frames xs))"
  using assms
proof (induction segs arbitrary: k)
  case (Cons s segs)
  then consider "(k', o', b) \<in> set (seg_places k 0 s)" | "(k', o', b) \<in> set (places_from (Suc k) segs)" by auto
  then show ?case
  proof cases
    case 1
    from seg_places_in_file [OF this] show ?thesis by auto
  next
    case 2
    from Cons.IH [OF this] have *: "Suc k \<le> k'" "k' < Suc k + length segs" 
        "\<exists>xs ys. segs ! (k' - Suc k) = xs @ b # ys \<and> o' = length (frames xs)" by auto
    then have "(s # segs) ! (k' - k) = segs ! (k' - Suc k)" by (cases "k' - k") (auto simp: Suc_diff_le diff_Suc)
    with * show ?thesis by auto
  qed
qed simp

lemma layout_nth: "layout fs segs \<Longrightarrow> k < length segs \<Longrightarrow> map_of fs k = Some (frames (segs ! k))"
  by (simp add: layout_def)

lemma fetch_place:
  assumes "layout fs segs" "(k, off, b) \<in> set (places_from 0 segs)" "storable conf b"
  shows "fetchBlockBytes fs \<lparr>fileSuffixNum = k, flOffset = off, flLength = l\<rparr> = Ret (Inr (bbytes b))"
proof -
  obtain xs ys where k: "k < length segs" "segs ! k = xs @ b # ys" "off = length (frames xs)"
    using place_in_file [OF assms(2)] by auto
  have "nextBlockBytes (frames xs @ frame b @ frames ys) (length (frames xs)) = Ret (Inr (Some (bbytes b, length (len_field b))))"
    by (rule nextBlockBytes_frame [OF assms(3)])
  with layout_nth [OF assms(1) k(1)] k show ?thesis by (simp add: fetchBlockBytes_def open_stream_def)
qed

section \<open>Streams over the files\<close>

text \<open>A stream stands before the blocks \<open>rest\<close>.\<close>

definition stream_at :: "block list list \<Rightarrow> nat \<Rightarrow> nat \<Rightarrow> place list \<Rightarrow> bool" where
  "stream_at segs cur off rest \<longleftrightarrow> (\<exists>pre s1 s2 post. segs = pre @ (s1 @ s2) # post \<and> cur = length pre \<and>
     off = length (frames s1) \<and> rest = seg_places cur off s2 @ places_from (Suc cur) post)"

lemma stream_at_start: "segs \<noteq> [] \<Longrightarrow> stream_at segs 0 0 (places_from 0 segs)"
  unfolding stream_at_def
  by (rule exI [of _ "[]"], rule exI [of _ "[]"], rule exI [of _ "hd segs"], rule exI [of _ "tl segs"]) (cases segs; simp)

lemma stream_next_from:
  assumes "layout fs segs" "list_all (storable conf) (concat segs)" "stream_at segs cur off rest"
    and e: "e = int (length segs - 1) \<or> e < 0 \<and> rest \<noteq> []"
  shows "stream_next fs e cur off =
      (case rest of [] \<Rightarrow> Ret (Inr None) | (k, o1, b) # _ \<Rightarrow> Ret (Inr (Some (bbytes b, k, o1, length (len_field b)))))
    \<and> (\<forall>k o1 b rest'. rest = (k, o1, b) # rest' \<longrightarrow> stream_at segs k (o1 + length (frame b)) rest')"
proof -
  obtain pre s1 s2 post where at: "segs = pre @ (s1 @ s2) # post" "cur = length pre" "off = length (frames s1)"
      "rest = seg_places cur off s2 @ places_from (Suc cur) post"
    using assms(3) by (auto simp: stream_at_def)
  then show ?thesis
  proof (induction post arbitrary: pre s1 s2 cur off)
    case Nil
    have here: "contents fs cur = frames s1 @ frames s2"
      using layout_nth [OF assms(1), of cur] Nil by (simp add: contents_def nth_append)
    show ?case
    proof (cases s2)
      case Nil2: Nil
      with Nil e have "\<not> int cur < e \<and> \<not> e < 0" by auto
      with Nil Nil2 here show ?thesis by (subst stream_next.simps) (simp add: nextBlockBytes_end)
    next
      case (Cons b s2')
      have "storable conf b" using assms(2) Nil(1) Cons by simp
      from nextBlockBytes_frame [OF this, of "frames s1" "frames s2'"] here Nil Cons
      have "stream_next fs e cur off = Ret (Inr (Some (bbytes b, cur, off, length (len_field b))))"
        by (subst stream_next.simps) simp
      moreover have "stream_at segs cur (off + length (frame b)) (seg_places cur (off + length (frame b)) s2')"
        unfolding stream_at_def using Nil Cons
        by (intro exI [of _ pre] exI [of _ "s1 @ [b]"] exI [of _ s2'] exI [of _ "[]"]) simp
      ultimately show ?thesis using Nil(4) Cons by simp
    qed
  next
    case (Cons s post)
    have here: "contents fs cur = frames s1 @ frames s2"
      using layout_nth [OF assms(1), of cur] Cons.prems by (simp add: contents_def nth_append)
    show ?case
    proof (cases s2)
      case Nil
      have "open_stream fs (Suc cur) = Inr (frames s)"
        using layout_nth [OF assms(1), of "Suc cur"] Cons.prems by (simp add: open_stream_def nth_append)
      moreover have "int cur < e \<or> e < 0" using e Cons.prems(1,2) by auto
      ultimately have "stream_next fs e cur off = stream_next fs e (Suc cur) 0"
        using Cons.prems(3) Nil here by (subst stream_next.simps) (simp add: nextBlockBytes_end)
      moreover have "rest = seg_places (Suc cur) 0 s @ places_from (Suc (Suc cur)) post" using Cons.prems(4) Nil by simp
      ultimately show ?thesis
        using Cons.IH [of "pre @ [s1 @ s2]" "[]" s "Suc cur" 0] Cons.prems by simp
    next
      case C: (Cons b s2')
      have "storable conf b" using assms(2) Cons.prems(1) C by simp
      from nextBlockBytes_frame [OF this, of "frames s1" "frames s2'"] here Cons.prems(3) C
      have "stream_next fs e cur off = Ret (Inr (Some (bbytes b, cur, off, length (len_field b))))"
        by (subst stream_next.simps) simp
      moreover have "stream_at segs cur (off + length (frame b)) (seg_places cur (off + length (frame b)) s2' @ places_from (Suc cur) (s # post))"
        unfolding stream_at_def using Cons.prems C
        by (intro exI [of _ pre] exI [of _ "s1 @ [b]"] exI [of _ s2'] exI [of _ "s # post"]) simp
      ultimately show ?thesis using Cons.prems(4) C by simp
    qed
  qed
qed

lemmas stream_next_at = stream_next_from [OF _ _ _ disjI1 [OF refl]]

section \<open>The index of the files\<close>

definition tx_infos :: "codec \<Rightarrow> block \<Rightarrow> tx_index_info list" where
  "tx_infos c b = map (shift_offset (length (len_field b)))
     (fst (add_transactions c (items_of (BData b)) (data_start b (items_of (BData b)))))"

definition idx_of :: "codec \<Rightarrow> nat \<Rightarrow> nat \<Rightarrow> block \<Rightarrow> block_idx_info" where
  "idx_of c k off b = \<lparr>biNum = Number (BHeader b), biHash = BlockHeaderHash c (BHeader b),
     biFlp = \<lparr>fileSuffixNum = k, flOffset = off, flLength = 0\<rparr>, biTxOffsets = tx_infos c b, biMetadata = BMetadata b\<rparr>"

lemma length_add_transactions [simp]: "length (fst (add_transactions c txs buf)) = length txs"
  by (induction txs arbitrary: buf) (simp_all add: Let_def case_prod_beta)

lemma length_tx_infos [simp]: "length (tx_infos c b) = length (items_of (BData b))"
  by (simp add: tx_infos_def)

lemma stored_idx_info_of:
  assumes "storable conf b"
  obtains info where "extractSerializedBlockInfo c (bbytes b) = Inr info" "siHeader info = BHeader b"
    "\<And>k off. stored_idx_info c info k off (length (len_field b)) = idx_of c k off b"
proof (rule storable_facts [OF assms])
  fix data ms
  assume b: "BData b = Some data" "BMetadata b = Some ms" "bbytes b = block_bytes b data ms"
    "length (block_bytes b data ms) < 2 ^ 64" "items_of (BData b) = data"
  from deserialize_serialize(2) [OF b(1,2,4), of c] b that show thesis
    by (simp add: stored_idx_info_def idx_of_def tx_infos_def)
qed

text \<open>The index knows the block with number \<open>i\<close> at its place.\<close>

definition entry_ok :: "codec \<Rightarrow> store_conf \<Rightarrow> leveldb \<Rightarrow> nat \<Rightarrow> place \<Rightarrow> bool" where
  "entry_ok c conf db i p = (case p of (k, off, b) \<Rightarrow>
     map_of db (constructBlockNumKey (of_nat i)) = Some (marshal_flp \<lparr>fileSuffixNum = k, flOffset = off, flLength = 0\<rparr>) \<and>
     (IndexableAttrBlockNumTranNum \<in> set (AttrsToIndex conf) \<longrightarrow> (\<forall>j < length (items_of (BData b)).
        map_of db (constructBlockNumTranNumKey (of_nat i) (of_nat j)) =
          Some (marshal_flp (newFileLocationPointer k off (tx_infos c b ! j))))))"

definition save_point :: "leveldb \<Rightarrow> nat \<Rightarrow> bool" where
  "save_point db n \<longleftrightarrow> map_of db indexSavePointKey = (if n = 0 then None else Some (encodeBlockNum (of_nat (n - 1))))"

definition index_ok :: "codec \<Rightarrow> store_conf \<Rightarrow> leveldb \<Rightarrow> place list \<Rightarrow> nat \<Rightarrow> bool" where
  "index_ok c conf db ps n \<longleftrightarrow> n \<le> length ps \<and> (\<forall>i < n. entry_ok c conf db i (ps ! i)) \<and> save_point db n"

lemma index_one:
  assumes "storable conf b" "IndexableAttrBlockNum \<in> set (AttrsToIndex conf)" "Number (BHeader b) = of_nat n"
    and "index_ok c conf db ps n" "n < length ps" "length ps < 2 ^ 62" "ps ! n = (k, off, b)"
  obtains db' where "indexBlock conf (idx_of c k off b) db = Ret db'" "index_ok c conf db' ps (Suc n)"
    "map_of db' blkMgrInfoKey = map_of db blkMgrInfoKey"
proof -
  have idx: "indexable conf (biMetadata (idx_of c k off b)) (length (biTxOffsets (idx_of c k off b)))"
    using assms(1) by (simp add: idx_of_def storable_def)
  have small: "length (items_of (BData b)) < 2 ^ 64"
    using assms(1) block_parts_bounded(3) by (elim storable_facts) auto
  obtain db' where db': "indexBlock conf (idx_of c k off b) db = Ret db'"
      and num: "\<And>m. map_of db' (constructBlockNumKey m) =
        (if m = of_nat n then Some (marshal_flp \<lparr>fileSuffixNum = k, flOffset = off, flLength = 0\<rparr>)
         else map_of db (constructBlockNumKey m))"
      and save: "map_of db' indexSavePointKey = Some (encodeBlockNum (of_nat n))"
      and info: "map_of db' blkMgrInfoKey = map_of db blkMgrInfoKey"
      and tx: "\<And>j. IndexableAttrBlockNumTranNum \<in> set (AttrsToIndex conf) \<Longrightarrow> length (items_of (BData b)) < 2 ^ 64 \<Longrightarrow>
        j < length (items_of (BData b)) \<Longrightarrow> map_of db' (constructBlockNumTranNumKey (of_nat n) (of_nat j)) =
          Some (marshal_flp (newFileLocationPointer k off (tx_infos c b ! j)))"
      and other: "\<And>m i. m \<noteq> of_nat n \<Longrightarrow> map_of db' (constructBlockNumTranNumKey m i) = map_of db (constructBlockNumTranNumKey m i)"
    by (rule indexBlock_effect [OF idx assms(2), of db]) (simp add: idx_of_def assms(3))
  have "entry_ok c conf db' i (ps ! i)" if "i < Suc n" for i
  proof (cases "i = n")
    case True
    with num tx small show ?thesis by (simp add: entry_ok_def assms(7))
  next
    case False
    have "i < 2 ^ 64" "n < 2 ^ 64" using that assms(5,6) by simp_all
    with False have ne: "(of_nat i :: u64) \<noteq> of_nat n" using of_nat_u64_inj by blast
    have "entry_ok c conf db i (ps ! i)" using assms(4) that False by (simp add: index_ok_def)
    with num [of "of_nat i"] other [OF ne] ne show ?thesis by (auto simp: entry_ok_def split: prod.splits)
  qed
  then have "index_ok c conf db' ps (Suc n)" using assms(5) save by (simp add: index_ok_def save_point_def)
  with db' info that show thesis by blast
qed

definition numbered :: "block list \<Rightarrow> bool" where
  "numbered bs \<longleftrightarrow> (\<forall>i < length bs. Number (BHeader (bs ! i)) = of_nat i)"

lemma index_loop_at:
  assumes fs: "layout fs segs" and blocks: "list_all (storable conf) (concat segs)" "numbered (concat segs)"
    and conf: "IndexableAttrBlockNum \<in> set (AttrsToIndex conf)" and small: "length (concat segs) < 2 ^ 62"
    and "stream_at segs cur off rest" "places_from 0 segs = done @ rest" "index_ok c conf db (places_from 0 segs) (length done)"
  shows "\<exists>db'. index_loop c conf fs (int (length segs - 1)) cur off db = Ret (Inr db') \<and>
    index_ok c conf db' (places_from 0 segs) (length (concat segs)) \<and> map_of db' blkMgrInfoKey = map_of db blkMgrInfoKey"
  using assms(6-8)
proof (induction rest arbitrary: cur off "done" db)
  case Nil
  from stream_next_at [OF fs blocks(1) Nil(1)]
  have "stream_next fs (int (length segs - 1)) cur off = Ret (Inr None)" by simp
  moreover have "length done = length (concat segs)" using arg_cong [OF Nil(2), of length] by simp
  ultimately show ?case using Nil(3) by (subst index_loop.simps) simp
next
  case (Cons p rest)
  obtain k o1 b where p: "p = (k, o1, b)" by (cases p)
  let ?ps = "places_from 0 segs"
  have nxt: "stream_next fs (int (length segs - 1)) cur off = Ret (Inr (Some (bbytes b, k, o1, length (len_field b))))"
      "stream_at segs k (o1 + length (frame b)) rest"
    using stream_next_at [OF fs blocks(1) Cons.prems(1)] p by simp_all
  have n: "length done < length ?ps" "?ps ! length done = (k, o1, b)" using Cons.prems(2) p by simp_all
  with place_block [of "length done" segs 0] have b: "concat segs ! length done = b" by simp
  have bnd: "length done < length (concat segs)" using n(1) by simp
  have st: "storable conf b" using blocks(1) b bnd by (auto simp: list_all_length)
  have num: "Number (BHeader b) = of_nat (length done)" using blocks(2) b bnd by (auto simp: numbered_def)
  obtain info where info: "extractSerializedBlockInfo c (bbytes b) = Inr info"
      "stored_idx_info c info k o1 (length (len_field b)) = idx_of c k o1 b"
    using stored_idx_info_of [OF st] by metis
  have "length ?ps < 2 ^ 62" using small by simp
  from index_one [OF st conf num Cons.prems(3) n(1) this n(2)]
  obtain db1 where db1: "indexBlock conf (idx_of c k o1 b) db = Ret db1" "index_ok c conf db1 ?ps (Suc (length done))"
      "map_of db1 blkMgrInfoKey = map_of db blkMgrInfoKey"
    by blast
  have "\<exists>db'. index_loop c conf fs (int (length segs - 1)) k (o1 + length (frame b)) db1 = Ret (Inr db') \<and>
      index_ok c conf db' ?ps (length (concat segs)) \<and> map_of db' blkMgrInfoKey = map_of db1 blkMgrInfoKey"
    by (rule Cons.IH [OF nxt(2), of "done @ [p]"]) (use Cons.prems(2) db1(2) in simp_all)
  with nxt(1) info db1 show ?case
    by (subst index_loop.simps) (simp add: length_frame add.assoc)
qed

section \<open>The invariant\<close>

definition tip_hash :: "codec \<Rightarrow> block list \<Rightarrow> bytes" where
  "tip_hash c bs = (if bs = [] then [] else BlockHeaderHash c (BHeader (last bs)))"

text \<open>Blocks are numbered from zero and each carries the hash of the header before it.\<close>

definition chain_ok :: "codec \<Rightarrow> block list \<Rightarrow> bool" where
  "chain_ok c bs \<longleftrightarrow> (\<forall>i < length bs. Number (BHeader (bs ! i)) = of_nat i \<and> PreviousHash (BHeader (bs ! i)) = tip_hash c (take i bs))"

definition next_ok :: "codec \<Rightarrow> block list \<Rightarrow> block \<Rightarrow> bool" where
  "next_ok c bs b \<longleftrightarrow> Number (BHeader b) = of_nat (length bs) \<and> PreviousHash (BHeader b) = tip_hash c bs"

lemma chain_ok_snoc: "chain_ok c bs \<Longrightarrow> next_ok c bs b \<Longrightarrow> chain_ok c (bs @ [b])"
  by (auto simp: chain_ok_def next_ok_def nth_append less_Suc_eq)

lemma chain_ok_numbered: "chain_ok c bs \<Longrightarrow> numbered bs"
  by (simp add: chain_ok_def numbered_def)

definition info_of :: "block list list \<Rightarrow> blockfiles_info" where
  "info_of segs = \<lparr>latestFileNumber = length segs - 1, latestFileSize = length (frames (last segs)),
     noBlockFiles = (concat segs = []), lastPersistedBlock = of_nat (length (concat segs) - 1)\<rparr>"

definition conf_ok :: "store_conf \<Rightarrow> bool" where
  "conf_ok conf \<longleftrightarrow> IndexableAttrBlockNum \<in> set (AttrsToIndex conf) \<and> maxBlockfileSize conf < 2 ^ 62"

text \<open>The blocks of the files, within Go's integer range.\<close>

definition segs_ok :: "codec \<Rightarrow> store_conf \<Rightarrow> block list list \<Rightarrow> bool" where
  "segs_ok c conf segs \<longleftrightarrow> segs \<noteq> [] \<and> list_all (storable conf) (concat segs) \<and> chain_ok c (concat segs) \<and>
     (if concat segs = [] then segs = [[]] else hd segs \<noteq> []) \<and>
     length segs \<le> 2 ^ 62 \<and> length (concat segs) < 2 ^ 62 \<and> (\<forall>s \<in> set segs. length (frames s) < 2 ^ 62)"

definition store_inv :: "codec \<Rightarrow> store_conf \<Rightarrow> block list list \<Rightarrow> blockfile_mgr \<Rightarrow> bool" where
  "store_inv c conf segs m \<longleftrightarrow> segs_ok c conf segs \<and> layout (mDir m) segs \<and> mInfo m = info_of segs \<and>
     map_of (mDb m) blkMgrInfoKey = Some (marshal_info (info_of segs)) \<and>
     index_ok c conf (mDb m) (places_from 0 segs) (length (concat segs)) \<and>
     bcHeight m = of_nat (length (concat segs)) \<and> bcCurrentHash m = tip_hash c (concat segs)"

lemma map_of_save [simp]:
  "map_of (saveBlkfilesInfo i db) k = (if k = blkMgrInfoKey then Some (marshal_info i) else map_of db k)"
  by (simp add: saveBlkfilesInfo_def db_put_def update_conv')

lemma index_ok_save [simp]: "index_ok c conf (saveBlkfilesInfo i db) ps n = index_ok c conf db ps n"
proof -
  have "entry_ok c conf (saveBlkfilesInfo i db) j p = entry_ok c conf db j p" for j p
    by (simp add: entry_ok_def split: prod.split)
  then show ?thesis by (simp add: index_ok_def save_point_def)
qed

lemma index_ok_extend: "index_ok c conf db ps n \<Longrightarrow> index_ok c conf db (ps @ qs) n"
  by (auto simp: index_ok_def nth_append)

lemma segs_snoc: "segs \<noteq> [] \<Longrightarrow> (\<And>pre s. segs = pre @ [s] \<Longrightarrow> P) \<Longrightarrow> P"
  by (metis append_butlast_last_id)

text \<open>How the files of a ledger grow: the last one gets longer, or one more file follows it.\<close>

definition grows :: "block list list \<Rightarrow> block list list \<Rightarrow> bool" where
  "grows segs segs' \<longleftrightarrow> (\<exists>pre s x post. segs = pre @ [s] \<and> segs' = pre @ (s @ x) # post \<and> length post \<le> 1)"

lemma grows_append: "grows (pre @ [s]) (pre @ [s @ x])"
  unfolding grows_def by fastforce

lemma grows_file: "segs \<noteq> [] \<Longrightarrow> grows segs (segs @ [x])"
  unfolding grows_def by (rule segs_snoc, assumption) fastforce

lemma grows_length: "grows segs segs' \<Longrightarrow> length segs' \<le> Suc (length segs)"
  by (auto simp: grows_def)

lemma grows_places:
  assumes "grows segs segs'"
  obtains more where "places_from 0 segs' = places_from 0 segs @ more"
  using assms by (auto simp: grows_def places_from_append seg_places_append)

lemma stream_at_grows:
  assumes "grows segs segs'" "stream_at segs cur off (drop k (places_from 0 segs))" "k \<le> length (concat segs)"
  shows "stream_at segs' cur off (drop k (places_from 0 segs'))"
proof -
  obtain pre s x post where g: "segs = pre @ [s]" "segs' = pre @ (s @ x) # post" using assms(1) by (auto simp: grows_def)
  let ?more = "seg_places (length pre) (length (frames s)) x @ places_from (Suc (length pre)) post"
  have "places_from 0 segs' = places_from 0 segs @ ?more"
    by (simp add: g places_from_append seg_places_append)
  then have rest': "drop k (places_from 0 segs') = drop k (places_from 0 segs) @ ?more"
    using assms(3) by simp
  obtain p s1 s2 q where at: "segs = p @ (s1 @ s2) # q" "cur = length p" "off = length (frames s1)"
      "drop k (places_from 0 segs) = seg_places cur off s2 @ places_from (Suc cur) q"
    using assms(2) by (auto simp: stream_at_def)
  show ?thesis
  proof (cases q rule: rev_cases)
    case Nil
    with at g have "segs' = p @ (s1 @ s2 @ x) # post" "pre = p" "s = s1 @ s2" by auto
    then show ?thesis unfolding stream_at_def rest' at(4) using at(2,3) Nil
      by (intro exI [of _ p] exI [of _ s1] exI [of _ "s2 @ x"] exI [of _ post]) (simp add: seg_places_append)
  next
    case (snoc q' s')
    with at g have pre: "pre = p @ (s1 @ s2) # q'" "s' = s" by auto
    then show ?thesis unfolding stream_at_def rest' at(4) using at(2,3) g snoc
      by (intro exI [of _ p] exI [of _ s1] exI [of _ s2] exI [of _ "q' @ (s @ x) # post"])
        (simp add: places_from_append seg_places_append)
  qed
qed

lemma places_snoc: "places_from 0 (pre @ [s]) = places_from 0 pre @ seg_places (length pre) 0 s"
  by (simp add: places_from_append)

lemma places_add: "places_from 0 (pre @ [s @ [b]]) = places_from 0 (pre @ [s]) @ [(length pre, length (frames s), b)]"
  by (simp add: places_snoc seg_places_append)

section \<open>Starting the next file\<close>

lemma layout_next_file:
  assumes "layout fs segs"
  shows "layout (newBlockfileWriter fs (length segs)) (segs @ [[]])"
proof -
  have new: "map_of (newBlockfileWriter fs (length segs)) k = (if k = length segs then Some [] else map_of fs k)" for k
  proof (cases "map_of fs (length segs)")
    case None
    then show ?thesis by (simp add: newBlockfileWriter_def update_conv')
  next
    case (Some f)
    moreover have "map_of fs (length segs) = None \<or> map_of fs (length segs) = Some []" using assms by (auto simp: layout_def)
    ultimately show ?thesis by (simp add: newBlockfileWriter_def)
  qed
  have beyond: "map_of fs k = None" if "Suc (length segs) \<le> k" for k
    using assms that by (metis layout_def Suc_leD Suc_n_not_le_n)
  show ?thesis
    using assms by (auto simp: layout_def new beyond nth_append less_Suc_eq)
qed

lemma segs_ok_next_file:
  assumes "segs_ok c conf segs" "concat segs \<noteq> []" "length segs < 2 ^ 62"
  shows "segs_ok c conf (segs @ [[]])"
  using assms by (auto simp: segs_ok_def)

lemma info_of_next_file:
  assumes "segs_ok c conf segs" "concat segs \<noteq> []"
  shows "info_of (segs @ [[]]) = \<lparr>latestFileNumber = latestFileNumber (info_of segs) + 1, latestFileSize = 0, noBlockFiles = False,
    lastPersistedBlock = lastPersistedBlock (info_of segs)\<rparr>"
  using assms by (auto simp: info_of_def segs_ok_def Suc_leI)

lemma moveToNextFile_inv:
  assumes "store_inv c conf segs m" "concat segs \<noteq> []" "length segs < 2 ^ 62"
  shows "store_inv c conf (segs @ [[]]) (moveToNextFile m)"
proof -
  have ok: "segs_ok c conf segs" and fs: "layout (mDir m) segs" using assms(1) by (simp_all add: store_inv_def)
  have "latestFileNumber (info_of segs) + 1 = length segs" using ok by (simp add: info_of_def segs_ok_def Suc_leI)
  with layout_next_file [OF fs] segs_ok_next_file [OF ok assms(2,3)] info_of_next_file [OF ok assms(2)] assms(1)
  show ?thesis
    by (simp add: store_inv_def moveToNextFile_def Let_def places_from_append)
qed

section \<open>Appending\<close>

lemma layout_append:
  assumes "layout fs (pre @ [s])"
  shows "layout (append_file (append_file fs (length pre) x) (length pre) y) (pre @ [s @ [b]]) \<longleftrightarrow> x @ y = frame b"
proof -
  have "contents fs (length pre) = frames s" using assms by (simp add: layout_def contents_def nth_append)
  moreover have "contents (append_file fs (length pre) x) (length pre) = contents fs (length pre) @ x"
    by (simp add: append_file_def contents_def update_conv')
  ultimately have "map_of (append_file (append_file fs (length pre) x) (length pre) y) k =
      (if k = length pre then Some (frames s @ x @ y) else map_of fs k)" for k
    by (simp add: append_file_def update_conv')
  with assms show ?thesis by (auto simp: layout_def nth_append less_Suc_eq)
qed

lemma segs_ok_append:
  assumes "segs_ok c conf (pre @ [s])" "storable conf b" "next_ok c (concat (pre @ [s])) b" "length (concat (pre @ [s])) + 1 < 2 ^ 62"
    and "length (frames s) + length (frame b) < 2 ^ 62"
  shows "segs_ok c conf (pre @ [s @ [b]])"
proof -
  have "chain_ok c (concat (pre @ [s]) @ [b])" using assms(1,3) by (intro chain_ok_snoc) (simp_all add: segs_ok_def)
  moreover have "hd (pre @ [s @ [b]]) \<noteq> []"
    using assms(1) by (cases pre) (auto simp: segs_ok_def split: if_splits)
  ultimately show ?thesis using assms by (auto simp: segs_ok_def)
qed

lemma info_of_append:
  "info_of (pre @ [s @ [b]]) = \<lparr>latestFileNumber = length pre, latestFileSize = length (frames s) + length (frame b),
     noBlockFiles = False, lastPersistedBlock = of_nat (length (concat (pre @ [s])))\<rparr>"
  by (simp add: info_of_def)

text \<open>There is room for a block: it can be stored, no counter leaves its range, and the first block of a
  ledger fits a file.\<close>

definition room :: "store_conf \<Rightarrow> blockfile_mgr \<Rightarrow> block \<Rightarrow> bool" where
  "room conf m b \<longleftrightarrow> storable conf b \<and> unat (bcHeight m) + 1 < 2 ^ 62 \<and> latestFileNumber (mInfo m) + 1 < 2 ^ 62 \<and>
     (noBlockFiles (mInfo m) \<longrightarrow> length (frame b) \<le> maxBlockfileSize conf)"

text \<open>What \<open>writeBlock\<close> does after it has made room in the current file.\<close>

definition target :: "store_conf \<Rightarrow> blockfile_mgr \<Rightarrow> block \<Rightarrow> blockfile_mgr" where
  "target conf m b = (if maxBlockfileSize conf < latestFileSize (mInfo m) + length (frame b) then moveToNextFile m else m)"

lemma height_of:
  assumes "store_inv c conf segs m"
  shows "unat (bcHeight m) = length (concat segs)"
proof -
  have "length (concat segs) < 2 ^ 64" using assms by (simp add: store_inv_def segs_ok_def)
  then show ?thesis using assms unat_of_nat_u64 by (simp add: store_inv_def)
qed

lemma target_inv:
  assumes "store_inv c conf segs m" "room conf m b" "conf_ok conf"
  obtains pre s where "store_inv c conf (pre @ [s]) (target conf m b)" "concat (pre @ [s]) = concat segs"
    "length (frames s) + length (frame b) < 2 ^ 62" "pre @ [s] = segs \<or> pre = segs \<and> s = []"
    "latestFileSize (mInfo (target conf m b)) =
       (if maxBlockfileSize conf < latestFileSize (mInfo m) + length (frame b) then 0 else latestFileSize (mInfo m))"
proof (cases "maxBlockfileSize conf < latestFileSize (mInfo m) + length (frame b)")
  case True
  have frame_small: "length (frame b) < 2 ^ 62"
    using assms(2) length_len_field [of conf b] by (simp add: room_def storable_def length_frame)
  have "concat segs \<noteq> []"
  proof
    assume "concat segs = []"
    with assms(1) have "noBlockFiles (mInfo m)" "latestFileSize (mInfo m) = 0"
      by (auto simp: store_inv_def info_of_def segs_ok_def)
    with assms(2) True show False by (simp add: room_def)
  qed
  moreover have "length segs < 2 ^ 62"
    using assms(1,2) by (auto simp: room_def store_inv_def info_of_def segs_ok_def)
  ultimately have "store_inv c conf (segs @ [[]]) (target conf m b)"
    using moveToNextFile_inv [OF assms(1)] True by (simp add: target_def)
  with True frame_small that [of segs "[]"] show thesis by (simp add: target_def moveToNextFile_def Let_def)
next
  case False
  then have "store_inv c conf segs (target conf m b)" using assms(1) by (simp add: target_def)
  moreover have "segs \<noteq> []" using assms(1) by (simp add: store_inv_def segs_ok_def)
  then obtain pre s where segs: "segs = pre @ [s]" by (rule segs_snoc)
  moreover have "length (frames s) = latestFileSize (mInfo m)" using assms(1) segs by (simp add: store_inv_def info_of_def)
  moreover have "maxBlockfileSize conf < 2 ^ 62" using assms(3) by (simp add: conf_ok_def)
  ultimately show thesis using False that [of pre s] by (simp add: target_def)
qed

lemma serialize_storable:
  assumes "storable conf b"
  shows "\<exists>info. serializeBlock c b = Ret (bbytes b, info) \<and> map (shift_offset (length (len_field b))) (siTxOffsets info) = tx_infos c b"
proof (rule storable_facts [OF assms])
  fix data ms
  assume b: "BData b = Some data" "BMetadata b = Some ms" "bbytes b = block_bytes b data ms" "items_of (BData b) = data"
  from serializeBlock_eq [OF b(1,2), of c] b(3,4) show ?thesis by (simp add: tx_infos_def)
qed

text \<open>The body of \<open>writeBlock\<close> in these terms.\<close>

lemma addBlock_eq:
  assumes "storable conf b" "Number (BHeader b) = bcHeight m" "PreviousHash (BHeader b) = bcCurrentHash m"
    and "latestFileSize (mInfo (target conf m b)) =
       (if maxBlockfileSize conf < latestFileSize (mInfo m) + length (frame b) then 0 else latestFileSize (mInfo m))"
  shows "writeBlock c conf io b m =
    (let t = target conf m b; cur = latestFileNumber (mInfo t);
         written = append_file (append_file (mDir t) cur (len_field b)) cur (bbytes b);
         newInfo = \<lparr>latestFileNumber = cur, latestFileSize = latestFileSize (mInfo t) + length (frame b),
                    noBlockFiles = False, lastPersistedBlock = Number (BHeader b)\<rparr>
     in case io of
          LengthFails k \<Rightarrow> Ret (Some (Errorf ''error appending block to file''),
            t\<lparr>mDir := truncateFile (append_file (mDir t) cur (take k (len_field b))) cur (latestFileSize (mInfo t))\<rparr>)
        | DataFails k \<Rightarrow> Ret (Some (Errorf ''error appending block to file''),
            t\<lparr>mDir := truncateFile (append_file (append_file (mDir t) cur (len_field b)) cur (take k (bbytes b))) cur
                       (latestFileSize (mInfo t))\<rparr>)
        | SaveInfoFails \<Rightarrow> Ret (Some (Errorf ''error saving blockfiles file info to db''),
            t\<lparr>mDir := truncateFile written cur (latestFileSize (mInfo t))\<rparr>)
        | IndexFails \<Rightarrow> Ret (Some (Errorf ''index''), t\<lparr>mDir := written, mDb := saveBlkfilesInfo newInfo (mDb t)\<rparr>)
        | IoOk \<Rightarrow> bind_go (indexBlock conf (idx_of c cur (latestFileSize (mInfo t)) b) (saveBlkfilesInfo newInfo (mDb t))) (\<lambda>db.
            Ret (None, t\<lparr>mDir := written, mDb := db, mInfo := newInfo, bcHeight := bcHeight t + 1,
                         bcCurrentHash := BlockHeaderHash c (BHeader b), bcPreviousHash := PreviousHash (BHeader b)\<rparr>)))"
proof -
  obtain info where info: "serializeBlock c b = Ret (bbytes b, info)"
      "map (shift_offset (length (len_field b))) (siTxOffsets info) = tx_infos c b"
    using serialize_storable [OF assms(1)] by blast
  have total: "length (bbytes b) + length (len_field b) = length (frame b)"
    by (simp add: length_frame)
  show ?thesis
    unfolding writeBlock_def
    by (simp only: assms(2,3) info not_True_eq_False if_False bind_go.simps prod.case total Let_def target_def [symmetric]
        assms(4) [symmetric] len_field_def [symmetric] idx_of_def info(2) simp_thms)
qed

lemma contents_append [simp]: "contents (append_file fs n x) n = contents fs n @ x"
  by (simp add: append_file_def contents_def update_conv')

lemma append_append [simp]: "append_file (append_file fs n x) n y = append_file fs n (x @ y)"
proof -
  have "append_file (append_file fs n x) n y = AList.update n (contents fs n @ x @ y) (append_file fs n x)"
    by (simp add: append_file_def [of "append_file fs n x"])
  then show ?thesis by (simp add: append_file_def)
qed

lemma layout_truncate:
  assumes "layout fs (pre @ [s])"
  shows "layout (truncateFile (append_file fs (length pre) x) (length pre) (length (frames s))) (pre @ [s])"
proof -
  have "contents fs (length pre) = frames s" "map_of fs (length pre) = Some (frames s)"
    using assms by (simp_all add: layout_def contents_def nth_append)
  then have "map_of (truncateFile (append_file fs (length pre) x) (length pre) (length (frames s))) k = map_of fs k" for k
    by (simp add: truncateFile_def append_file_def contents_def update_conv')
  with assms show ?thesis by (simp add: layout_def)
qed

lemma store_inv_dir: "store_inv c conf segs m \<Longrightarrow> layout fs segs \<Longrightarrow> store_inv c conf segs (m\<lparr>mDir := fs\<rparr>)"
  by (simp add: store_inv_def)

lemma addBlock_appends:
  assumes inv: "store_inv c conf segs m" and "conf_ok conf" "room conf m b" and nxt: "next_ok c (concat segs) b"
  shows "\<exists>m' segs'. writeBlock c conf IoOk b m = Ret (None, m') \<and> store_inv c conf segs' m' \<and>
    concat segs' = concat segs @ [b] \<and> grows segs segs'"
proof (rule target_inv [OF inv assms(3,2)])
  fix pre s
  let ?t = "target conf m b" and ?segs = "pre @ [s @ [b]]"
  assume t: "store_inv c conf (pre @ [s]) ?t" "concat (pre @ [s]) = concat segs" "length (frames s) + length (frame b) < 2 ^ 62"
    and or: "pre @ [s] = segs \<or> pre = segs \<and> s = []"
    and sz: "latestFileSize (mInfo ?t) = (if maxBlockfileSize conf < latestFileSize (mInfo m) + length (frame b) then 0 else latestFileSize (mInfo m))"
  have st: "storable conf b" using assms(3) by (simp add: room_def)
  have cur: "latestFileNumber (mInfo ?t) = length pre" "latestFileSize (mInfo ?t) = length (frames s)"
    using t(1) by (simp_all add: store_inv_def info_of_def)
  have num: "Number (BHeader b) = of_nat (length (concat segs))" and prev: "PreviousHash (BHeader b) = tip_hash c (concat segs)"
    using nxt by (simp_all add: next_ok_def)
  have hdr: "Number (BHeader b) = bcHeight m" "PreviousHash (BHeader b) = bcCurrentHash m"
    using inv num prev by (simp_all add: store_inv_def)
  have len: "length (concat segs) + 1 < 2 ^ 62" using assms(3) height_of [OF inv] by (simp add: room_def)
  let ?db = "saveBlkfilesInfo (info_of ?segs) (mDb ?t)" and ?n = "length (concat segs)"
  have "index_ok c conf ?db (places_from 0 (pre @ [s])) ?n"
    using t(1) unfolding store_inv_def t(2) by simp
  then have "index_ok c conf ?db (places_from 0 ?segs) ?n"
    unfolding places_add by (rule index_ok_extend)
  moreover have "places_from 0 ?segs ! ?n = (length pre, length (frames s), b)"
    unfolding places_add using t(2) by (metis length_places_from nth_append_length)
  moreover have "length (places_from 0 ?segs) = Suc ?n" unfolding places_add using t(2) by simp
  ultimately obtain db' where db': "indexBlock conf (idx_of c (length pre) (length (frames s)) b) ?db = Ret db'"
      "index_ok c conf db' (places_from 0 ?segs) (Suc ?n)" "map_of db' blkMgrInfoKey = map_of ?db blkMgrInfoKey"
    using index_one [OF st _ num, of c ?db "places_from 0 ?segs"] assms(2) len by (auto simp: conf_ok_def)
  have info: "info_of ?segs = \<lparr>latestFileNumber = length pre, latestFileSize = length (frames s) + length (frame b),
      noBlockFiles = False, lastPersistedBlock = Number (BHeader b)\<rparr>"
    unfolding info_of_append t(2) num by simp
  let ?m = "?t\<lparr>mDir := append_file (mDir ?t) (length pre) (frame b), mDb := db', mInfo := info_of ?segs, bcHeight := bcHeight ?t + 1,
      bcCurrentHash := BlockHeaderHash c (BHeader b), bcPreviousHash := PreviousHash (BHeader b)\<rparr>"
  have cat: "concat ?segs = concat segs @ [b]" using t(2) by simp
  have "writeBlock c conf IoOk b m = Ret (None, ?m)"
    unfolding addBlock_eq [OF st hdr sz] Let_def using db'(1)
    by (simp add: cur info frame_def)
  moreover have "store_inv c conf ?segs ?m"
  proof -
    have lay: "layout (mDir ?t) (pre @ [s])" and ok: "segs_ok c conf (pre @ [s])" and h: "bcHeight ?t = of_nat ?n"
      using t(1) unfolding store_inv_def t(2) by simp_all
    have "layout (append_file (mDir ?t) (length pre) (frame b)) ?segs"
      using layout_append [OF lay, of "len_field b" "bbytes b" b] by (simp add: frame_def)
    moreover have "segs_ok c conf ?segs"
      by (rule segs_ok_append [OF ok st _ _ t(3)]) (use nxt len t(2) in simp_all)
    ultimately show ?thesis unfolding store_inv_def cat using db'(2,3) h by (simp add: tip_hash_def)
  qed
  moreover have "segs \<noteq> []" using inv by (simp add: store_inv_def segs_ok_def)
  then have "grows segs ?segs" using or grows_append [of pre s "[b]"] grows_file [of segs "[b]"] by auto
  ultimately show ?thesis using cat by blast
qed

text \<open>A block with a wrong number or hash is refused, and a failing write of the block or of the summary
  leaves the ledger as it was.\<close>

lemma addBlock_refuses:
  assumes "store_inv c conf segs m" "length (concat segs) < 2 ^ 64" "\<not> next_ok c (concat segs) b"
  shows "\<exists>e. writeBlock c conf io b m = Ret (Some e, m)"
  using assms by (auto simp: writeBlock_def store_inv_def next_ok_def)

lemma addBlock_fault:
  assumes inv: "store_inv c conf segs m" and "conf_ok conf" "room conf m b" and nxt: "next_ok c (concat segs) b"
    and io: "io = LengthFails k \<or> io = DataFails k \<or> io = SaveInfoFails"
  shows "\<exists>e m' segs'. writeBlock c conf io b m = Ret (Some e, m') \<and> store_inv c conf segs' m' \<and>
    concat segs' = concat segs \<and> grows segs segs'"
proof (rule target_inv [OF inv assms(3,2)])
  fix pre s
  let ?t = "target conf m b"
  assume t: "store_inv c conf (pre @ [s]) ?t" "concat (pre @ [s]) = concat segs" "pre @ [s] = segs \<or> pre = segs \<and> s = []"
    and sz: "latestFileSize (mInfo ?t) = (if maxBlockfileSize conf < latestFileSize (mInfo m) + length (frame b) then 0 else latestFileSize (mInfo m))"
  have st: "storable conf b" using assms(3) by (simp add: room_def)
  have cur: "latestFileNumber (mInfo ?t) = length pre" "latestFileSize (mInfo ?t) = length (frames s)"
    using t(1) by (simp_all add: store_inv_def info_of_def)
  have hdr: "Number (BHeader b) = bcHeight m" "PreviousHash (BHeader b) = bcCurrentHash m"
    using inv nxt by (simp_all add: store_inv_def next_ok_def)
  have lay: "layout (mDir ?t) (pre @ [s])" using t(1) by (simp add: store_inv_def)
  have "store_inv c conf (pre @ [s]) (?t\<lparr>mDir := truncateFile (append_file (mDir ?t) (length pre) x) (length pre) (length (frames s))\<rparr>)" for x
    by (rule store_inv_dir [OF t(1) layout_truncate [OF lay]])
  moreover have "\<exists>e x. writeBlock c conf io b m =
      Ret (Some e, ?t\<lparr>mDir := truncateFile (append_file (mDir ?t) (length pre) x) (length pre) (length (frames s))\<rparr>)"
    unfolding addBlock_eq [OF st hdr sz] Let_def using io by (auto simp: cur)
  moreover have "segs \<noteq> []" using inv by (simp add: store_inv_def segs_ok_def)
  then have "grows segs (pre @ [s])" using t(3) grows_append [of pre s "[]"] grows_file [of segs "[]"] by auto
  ultimately show ?thesis using t(2) by blast
qed

section \<open>Looking up blocks and transactions\<close>

lemma place_bounds:
  assumes "segs_ok c conf segs" "i < length (concat segs)"
  obtains k off where "places_from 0 segs ! i = (k, off, concat segs ! i)" "(k, off, concat segs ! i) \<in> set (places_from 0 segs)"
    "k < 2 ^ 62" "off < 2 ^ 62"
proof -
  obtain k off b where p: "places_from 0 segs ! i = (k, off, b)" by (cases "places_from 0 segs ! i")
  with place_block [OF assms(2), of 0] have b: "b = concat segs ! i" by simp
  have mem: "(k, off, b) \<in> set (places_from 0 segs)" using p assms(2) by (metis length_places_from nth_mem)
  then obtain xs ys where k: "k < length segs" "segs ! k = xs @ b # ys" "off = length (frames xs)"
    using place_in_file [OF mem] by auto
  have "length (frames (segs ! k)) < 2 ^ 62" using assms(1) k(1) by (simp add: segs_ok_def)
  with k assms(1) have "off < 2 ^ 62" "k < 2 ^ 62" by (simp_all add: segs_ok_def)
  with p b mem that show thesis by blast
qed

lemma index_lookup:
  assumes "segs_ok c conf segs" "conf_ok conf" "index_ok c conf db (places_from 0 segs) n" "i < n"
  obtains k off where "getBlockLocByBlockNum conf db (of_nat i) = Inr \<lparr>fileSuffixNum = k, flOffset = off, flLength = 0\<rparr>"
    "places_from 0 segs ! i = (k, off, concat segs ! i)" "(k, off, concat segs ! i) \<in> set (places_from 0 segs)"
proof -
  have i: "i < length (concat segs)" using assms(3,4) by (simp add: index_ok_def)
  obtain k off where p: "places_from 0 segs ! i = (k, off, concat segs ! i)" "(k, off, concat segs ! i) \<in> set (places_from 0 segs)"
      "k < 2 ^ 62" "off < 2 ^ 62"
    by (rule place_bounds [OF assms(1) i])
  have "entry_ok c conf db i (k, off, concat segs ! i)" using assms(3,4) unfolding p(1) [symmetric] by (simp add: index_ok_def)
  then have "getBlockLocByBlockNum conf db (of_nat i) = unmarshal_flp (marshal_flp \<lparr>fileSuffixNum = k, flOffset = off, flLength = 0\<rparr>)"
    using assms(2) by (simp add: getBlockLocByBlockNum_def conf_ok_def entry_ok_def)
  also have "\<dots> = Inr \<lparr>fileSuffixNum = k, flOffset = off, flLength = 0\<rparr>" by (rule unmarshal_marshal_flp) (use p in simp_all)
  finally show thesis using that p by blast
qed

lemma fetch_lookup:
  assumes "segs_ok c conf segs" "conf_ok conf" "index_ok c conf db (places_from 0 segs) n" "i < n" "layout fs segs"
  obtains loc where "getBlockLocByBlockNum conf db (of_nat i) = Inr loc" "fetchBlockBytes fs loc = Ret (Inr (bbytes (concat segs ! i)))"
    "storable conf (concat segs ! i)"
proof (rule index_lookup [OF assms(1-4)])
  fix k off
  assume loc: "getBlockLocByBlockNum conf db (of_nat i) = Inr \<lparr>fileSuffixNum = k, flOffset = off, flLength = 0\<rparr>"
    "(k, off, concat segs ! i) \<in> set (places_from 0 segs)"
  have "i < length (concat segs)" using assms(3,4) by (simp add: index_ok_def)
  then have st: "storable conf (concat segs ! i)" using assms(1) by (simp add: segs_ok_def list_all_length)
  from fetch_place [OF assms(5) loc(2) st] loc(1) st that show thesis by blast
qed

lemma retrieve_by_number:
  assumes "store_inv c conf segs m" "conf_ok conf" "i < length (concat segs)"
  shows "retrieveBlockByNumber c conf m (of_nat i) = Ret (Inr (concat segs ! i))"
proof -
  have inv: "segs_ok c conf segs" "index_ok c conf (mDb m) (places_from 0 segs) (length (concat segs))" "layout (mDir m) segs"
    using assms(1) by (simp_all add: store_inv_def)
  obtain loc where loc: "getBlockLocByBlockNum conf (mDb m) (of_nat i) = Inr loc"
      "fetchBlockBytes (mDir m) loc = Ret (Inr (bbytes (concat segs ! i)))" and st: "storable conf (concat segs ! i)"
    by (rule fetch_lookup [OF inv(1) assms(2) inv(2) assms(3) inv(3)])
  have "deserializeBlock c (bbytes (concat segs ! i)) = Inr (concat segs ! i)"
    by (rule storable_facts [OF st]) (simp add: deserialize_serialize(1))
  moreover have "(of_nat i :: u64) \<noteq> - 1"
  proof
    assume "(of_nat i :: u64) = - 1"
    then have "(of_nat (Suc i) :: u64) = 0" by simp
    moreover have "unat (of_nat (Suc i) :: u64) = Suc i" by (rule unat_of_nat_u64) (use assms(3) inv(1) in \<open>simp add: segs_ok_def\<close>)
    ultimately show False by simp
  qed
  ultimately show ?thesis using loc by (simp add: retrieveBlockByNumber_def fetchBlock_def)
qed

lemma add_transactions_nth:
  "j < length txs \<Longrightarrow> fst (add_transactions c txs buf) ! j =
     \<lparr>txID = tx_id c (txs ! j), txOffset = length (buf @ items_bytes (take j txs)), txLength = length (AppendBytes (txs ! j))\<rparr>"
proof (induction txs arbitrary: buf j)
  case (Cons tx txs)
  then show ?case by (cases j) (simp_all add: Let_def case_prod_beta items_bytes_def)
qed simp

lemma block_bytes_split:
  assumes "j < length data"
  shows "\<exists>rest. block_bytes b data ms = (data_start b data @ items_bytes (take j data)) @ AppendBytes (data ! j) @ rest"
proof -
  have "items_bytes data = items_bytes (take j data) @ AppendBytes (data ! j) @ items_bytes (drop (Suc j) data)"
    using id_take_nth_drop [OF assms] by (metis append.assoc concat.simps(2) concat_append items_bytes_def list.simps(9) map_append)
  then show ?thesis by (simp add: block_bytes_def)
qed

lemma retrieve_transaction:
  assumes "store_inv c conf segs m" "IndexableAttrBlockNumTranNum \<in> set (AttrsToIndex conf)"
    and i: "i < length (concat segs)" and j: "j < length data" "BData (concat segs ! i) = Some data"
  shows "retrieveTransactionByBlockNumTranNum c conf m (of_nat i) (of_nat j) = GetEnvelopeFromBlock c (data ! j)"
proof -
  let ?b = "concat segs ! i"
  have inv: "segs_ok c conf segs" "index_ok c conf (mDb m) (places_from 0 segs) (length (concat segs))" "layout (mDir m) segs"
    using assms(1) by (simp_all add: store_inv_def)
  obtain k off where p: "places_from 0 segs ! i = (k, off, ?b)" "(k, off, ?b) \<in> set (places_from 0 segs)" "k < 2 ^ 62" "off < 2 ^ 62"
    by (rule place_bounds [OF inv(1) i])
  have st: "storable conf ?b" using inv(1) i by (simp add: segs_ok_def list_all_length)
  obtain ms where b: "bbytes ?b = block_bytes ?b data ms" "length (block_bytes ?b data ms) < 2 ^ 64" "items_of (BData ?b) = data"
    by (rule storable_facts [OF st]) (use j(2) in auto)
  let ?start = "data_start ?b data @ items_bytes (take j data)"
  obtain rest where rest: "block_bytes ?b data ms = ?start @ AppendBytes (data ! j) @ rest" using block_bytes_split [OF j(1)] by blast
  let ?loc = "\<lparr>fileSuffixNum = k, flOffset = off + (length ?start + length (len_field ?b)), flLength = length (AppendBytes (data ! j))\<rparr>"
  have info: "newFileLocationPointer k off (tx_infos c ?b ! j) = ?loc"
    using j(1) b(3) by (simp add: tx_infos_def add_transactions_nth newFileLocationPointer_def shift_offset_def)
  have small: "length (bbytes ?b) < 2 ^ 56" using st by (simp add: storable_def)
  have "length ?start + length (AppendBytes (data ! j)) \<le> length (bbytes ?b)" using rest b(1) by simp
  with small p(3,4) length_len_field [OF st] have bounds: "fileSuffixNum ?loc < 2 ^ 64" "flOffset ?loc < 2 ^ 64" "flLength ?loc < 2 ^ 64"
    by simp_all
  have "entry_ok c conf (mDb m) i (k, off, ?b)" using inv(2) i unfolding p(1) [symmetric] by (simp add: index_ok_def)
  then have look: "getTXLocByBlockNumTranNum conf (mDb m) (of_nat i) (of_nat j) = Inr ?loc"
    using unmarshal_marshal_flp [OF bounds] assms(2) j(1) b(3) info by (simp add: getTXLocByBlockNumTranNum_def entry_ok_def)
  obtain xs ys where k: "k < length segs" "segs ! k = xs @ ?b # ys" "off = length (frames xs)" using place_in_file [OF p(2)] by auto
  have f: "map_of (mDir m) k = Some ((frames xs @ len_field ?b @ ?start) @ AppendBytes (data ! j) @ rest @ frames ys)"
    using layout_nth [OF inv(3) k(1)] k(2) rest b(1) by (simp add: frame_def)
  have "fetchRawBytes (mDir m) ?loc = Inr (AppendBytes (data ! j))"
    using f k(3) by (simp add: fetchRawBytes_def open_stream_def)
  moreover have "length (data ! j) < 2 ^ 64" using block_parts_bounded(5) [OF b(2)] j(1) by simp
  then have "ConsumeVarint (AppendBytes (data ! j)) = Inr (length (data ! j), length (AppendVarint (length (data ! j))))"
    by (simp add: AppendBytes_def wire_simps)
  ultimately have "fetchTransactionEnvelope c (mDir m) ?loc = GetEnvelopeFromBlock c (data ! j)"
    by (simp add: fetchTransactionEnvelope_def) (simp add: AppendBytes_def)
  with look show ?thesis by (simp add: retrieveTransactionByBlockNumTranNum_def)
qed

section \<open>Starting the manager\<close>

lemma unmarshal_marshal_info:
  assumes "latestFileNumber i < 2 ^ 64" "latestFileSize i < 2 ^ 64"
  shows "unmarshal_info (marshal_info i) = Inr i"
proof -
  let ?a = "AppendVarint (latestFileNumber i)" and ?b = "AppendVarint (latestFileSize i)"
  let ?c = "AppendVarint (unat (lastPersistedBlock i))" and ?d = "AppendVarint (if noBlockFiles i then 1 else 0)"
  have n: "unat (lastPersistedBlock i) < 2 ^ 64" using unat_u64_bound by simp
  have "DecodeVarint (?a @ ?b @ ?c @ ?d) 0 = Inr (latestFileNumber i, length ?a)"
    using DecodeVarint_at [OF assms(1), of "[]" "?b @ ?c @ ?d"] by simp
  moreover have "DecodeVarint (?a @ ?b @ ?c @ ?d) (length ?a) = Inr (latestFileSize i, length (?a @ ?b))"
    by (rule DecodeVarint_at [OF assms(2)])
  moreover have "DecodeVarint (?a @ ?b @ ?c @ ?d) (length (?a @ ?b)) = Inr (unat (lastPersistedBlock i), length ((?a @ ?b) @ ?c))"
    using DecodeVarint_at [OF n, of "?a @ ?b" ?d] by simp
  moreover have "DecodeVarint (?a @ ?b @ ?c @ ?d) (length ((?a @ ?b) @ ?c))
      = Inr (if noBlockFiles i then 1 else 0, length (((?a @ ?b) @ ?c) @ ?d))"
    using DecodeVarint_at [of "if noBlockFiles i then 1 else 0" "(?a @ ?b) @ ?c" "[]"] by simp
  ultimately show ?thesis by (simp add: unmarshal_info_def marshal_info_def)
qed

text \<open>The files after a crash: complete blocks, and possibly a torn block at the end of the last file.\<close>

definition torn_layout :: "dir \<Rightarrow> block list list \<Rightarrow> bytes \<Rightarrow> bool" where
  "torn_layout fs segs p \<longleftrightarrow> segs \<noteq> [] \<and>
     (\<forall>k < length segs. map_of fs k = Some (frames (segs ! k) @ (if k = length segs - 1 then p else []))) \<and>
     (\<forall>k \<ge> length segs. map_of fs k = None \<or> k = length segs \<and> map_of fs k = Some [])"

lemma truncate_torn:
  assumes "torn_layout fs segs p"
  shows "layout (truncateFile fs (length segs - 1) (length (frames (last segs)))) segs"
proof -
  have pos: "segs \<noteq> []" using assms by (simp add: torn_layout_def)
  then have last: "map_of fs (length segs - 1) = Some (frames (last segs) @ p)"
    using assms by (simp add: torn_layout_def last_conv_nth)
  have upd: "map_of (truncateFile fs (length segs - 1) (length (frames (last segs)))) k =
      (if k = length segs - 1 then Some (frames (last segs)) else map_of fs k)" for k
    using last by (auto simp: truncateFile_def contents_def update_conv')
  show ?thesis
    unfolding layout_def
  proof (intro conjI allI impI)
    fix k assume "k < length segs"
    with assms pos upd [of k] show "map_of (truncateFile fs (length segs - 1) (length (frames (last segs)))) k = Some (frames (segs ! k))"
      by (auto simp: torn_layout_def last_conv_nth)
  next
    fix k assume k: "length segs \<le> k"
    with pos have "k \<noteq> length segs - 1" by (cases segs) auto
    with k assms upd [of k] show "map_of (truncateFile fs (length segs - 1) (length (frames (last segs)))) k = None \<or>
        k = length segs \<and> map_of (truncateFile fs (length segs - 1) (length (frames (last segs)))) k = Some []"
      unfolding torn_layout_def by presburger
  qed (rule pos)
qed

lemma sync_info:
  assumes "torn_layout fs (pre @ [s0 @ s1]) p" "torn conf p" "list_all (storable conf) s1"
    and noblocks: "concat (pre @ [s0]) = [] \<longrightarrow> pre = [] \<and> s0 = []"
  shows "syncBlockfilesInfoFromFS fs (info_of (pre @ [s0])) = Ret (info_of (pre @ [s0 @ s1]))"
proof -
  let ?i = "info_of (pre @ [s0])"
  have f: "map_of fs (latestFileNumber ?i) = Some (frames s0 @ frames s1 @ p)"
    using assms(1) by (simp add: torn_layout_def info_of_def nth_append)
  obtain lst where scan: "scan_loop (frames s0 @ frames s1 @ p) (length (frames s0)) None 0
      = Ret (Inr (lst, length (frames s0 @ frames s1), length s1))"
    using scan_loop_frames [OF assms(3,2), of "frames s0" None 0] by auto
  have size: "latestFileSize ?i = length (frames s0)" by (simp add: info_of_def)
  show ?thesis
  proof (cases "s1 = []")
    case True
    then show ?thesis
      using f scan size by (simp add: syncBlockfilesInfoFromFS_def scanForLastCompleteBlock_def open_stream_def Let_def)
  next
    case False
    have ne: "frames s1 \<noteq> []" using False by (cases s1) simp_all
    have "syncBlockfilesInfoFromFS fs ?i =
        Ret (?i\<lparr>latestFileSize := length (frames s0 @ frames s1),
                lastPersistedBlock := (if noBlockFiles ?i then of_nat (length s1 - 1) else lastPersistedBlock ?i + of_nat (length s1)),
                noBlockFiles := False\<rparr>)"
      using f scan size False ne by (simp add: syncBlockfilesInfoFromFS_def scanForLastCompleteBlock_def open_stream_def Let_def)
    also have "\<dots> = Ret (info_of (pre @ [s0 @ s1]))"
    proof (cases "concat (pre @ [s0]) = []")
      case True
      with noblocks False show ?thesis by (simp add: info_of_def)
    next
      case nonempty: False
      then obtain n where n: "length (concat (pre @ [s0])) = Suc n" by (cases "length (concat (pre @ [s0]))") auto
      have "(of_nat (length (concat (pre @ [s0])) - 1) :: u64) + of_nat (length s1) = of_nat (length (concat (pre @ [s0 @ s1])) - 1)"
      proof -
        have m: "length (concat (pre @ [s0 @ s1])) = Suc (n + length s1)" using n by simp
        show ?thesis by (simp only: n m diff_Suc_1 of_nat_add)
      qed
      with nonempty False show ?thesis by (auto simp: info_of_def)
    qed
    finally show ?thesis .
  qed
qed

lemma stream_at_place_from:
  assumes "places_from k0 segs = d @ (k, off, b) # rest"
  shows "\<exists>pre s1 s2 post. segs = pre @ (s1 @ s2) # post \<and> k = k0 + length pre \<and> off = length (frames s1) \<and>
    (k, off, b) # rest = seg_places k off s2 @ places_from (Suc k) post"
  using assms
proof (induction segs arbitrary: k0 d)
  case (Cons s segs)
  show ?case
  proof (cases "length d < length s")
    case True
    let ?s1 = "take (length d) s" and ?s2 = "drop (length d) s"
    have split: "seg_places k0 0 s = seg_places k0 0 ?s1 @ seg_places k0 (length (frames ?s1)) ?s2"
      using seg_places_append [of k0 0 ?s1 ?s2] by simp
    have "d = seg_places k0 0 ?s1 \<and> (k, off, b) # rest = seg_places k0 (length (frames ?s1)) ?s2 @ places_from (Suc k0) segs"
      using Cons.prems True unfolding places_from.simps split by (simp add: append_eq_append_conv)
    moreover obtain x s2' where s2: "?s2 = x # s2'" using True by (cases ?s2) simp_all
    moreover have "s = ?s1 @ x # s2'" using append_take_drop_id [of "length d" s] unfolding s2 by (rule sym)
    ultimately show ?thesis
      by - (rule exI [of _ "[]"], rule exI [of _ ?s1], rule exI [of _ ?s2], rule exI [of _ segs], simp)
  next
    case False
    have eq: "seg_places k0 0 s @ places_from (Suc k0) segs = d @ (k, off, b) # rest" using Cons.prems by simp
    define d' where "d' = drop (length s) d"
    have "take (length s) (seg_places k0 0 s @ places_from (Suc k0) segs) = take (length s) (d @ (k, off, b) # rest)"
      unfolding eq ..
    with False have "d = seg_places k0 0 s @ d'" using append_take_drop_id [of "length s" d] by (simp add: d'_def)
    with eq have d': "d = seg_places k0 0 s @ d'" "places_from (Suc k0) segs = d' @ (k, off, b) # rest" by simp_all
    from Cons.IH [OF d'(2)] obtain pre s1 s2 post where "segs = pre @ (s1 @ s2) # post" "k = Suc k0 + length pre"
        "off = length (frames s1)" "(k, off, b) # rest = seg_places k off s2 @ places_from (Suc k) post"
      by blast
    then show ?thesis by (intro exI [of _ "s # pre"] exI [of _ s1] exI [of _ s2] exI [of _ post]) simp
  qed
qed simp

lemma stream_at_place:
  "places_from 0 segs = d @ (k, off, b) # rest \<Longrightarrow> stream_at segs k off ((k, off, b) # rest)"
  using stream_at_place_from [of 0 segs d k off b rest] by (auto simp: stream_at_def)

lemma first_block_number:
  assumes "layout fs segs" "segs_ok c conf segs" "concat segs \<noteq> []"
  shows "retrieveFirstBlockNumFromFile c fs 0 = Ret (Inr 0)"
proof -
  have "segs \<noteq> [] \<and> hd segs \<noteq> []" using assms(2,3) unfolding segs_ok_def by presburger
  then obtain b s ss where segs: "segs = (b # s) # ss" by (cases segs; cases "hd segs") auto
  have st: "storable conf b" and num: "Number (BHeader b) = 0" using assms(2) segs by (auto simp: segs_ok_def chain_ok_def)
  have "map_of fs 0 = Some (frame b @ frames s)" using assms(1) segs by (simp add: layout_def)
  moreover have "nextBlockBytes (frame b @ frames s) 0 = Ret (Inr (Some (bbytes b, length (len_field b))))"
    using nextBlockBytes_frame [OF st, of "[]" "frames s"] by simp
  moreover obtain info where "extractSerializedBlockInfo c (bbytes b) = Inr info" "siHeader info = BHeader b"
    using stored_idx_info_of [OF st] by metis
  ultimately show ?thesis using num by (simp add: retrieveFirstBlockNumFromFile_def open_stream_def)
qed

lemma getLastBlockIndexed_of: "save_point db n \<Longrightarrow> getLastBlockIndexed db = (if n = 0 then None else Some (of_nat (n - 1)))"
  by (simp add: save_point_def getLastBlockIndexed_def)

lemma of_nat_pred: "0 < n \<Longrightarrow> (of_nat (n - 1) :: u64) + 1 = of_nat n"
  by (cases n) (simp_all add: add.commute)

lemma syncIndex_ok:
  assumes fs: "layout fs segs" and ok: "segs_ok c conf segs" and conf: "conf_ok conf"
    and idx: "index_ok c conf db (places_from 0 segs) n"
  shows "\<exists>db'. syncIndex c conf fs (info_of segs) db = Ret (Inr db') \<and>
    index_ok c conf db' (places_from 0 segs) (length (concat segs)) \<and> map_of db' blkMgrInfoKey = map_of db blkMgrInfoKey"
proof (cases "n = length (concat segs)")
  case True
  then have "syncIndex c conf fs (info_of segs) db = Ret (Inr db)"
    using idx getLastBlockIndexed_of [of db n] of_nat_pred [of n]
    by (auto simp: syncIndex_def Let_def info_of_def index_ok_def)
  with idx True show ?thesis by blast
next
  case False
  let ?ps = "places_from 0 segs" and ?e = "int (latestFileNumber (info_of segs))"
  have n: "n < length (concat segs)" using False idx by (simp add: index_ok_def)
  then have ne: "concat segs \<noteq> []" by (metis list.size(3) not_less_zero)
  have blocks: "list_all (storable conf) (concat segs)" "numbered (concat segs)" "length (concat segs) < 2 ^ 62"
    using ok chain_ok_numbered [of c "concat segs"] by (simp_all add: segs_ok_def)
  have attr: "IndexableAttrBlockNum \<in> set (AttrsToIndex conf)" using conf by (simp add: conf_ok_def)
  have e: "?e = int (length segs - 1)" by (simp add: info_of_def)
  have last: "getLastBlockIndexed db = (if n = 0 then None else Some (of_nat (n - 1)))"
    using idx getLastBlockIndexed_of by (simp add: index_ok_def)
  have nat64: "n < 2 ^ 64" "length (concat segs) < 2 ^ 64" using n blocks(3) by simp_all
  have "(of_nat n :: u64) \<noteq> of_nat (length (concat segs))" using of_nat_u64_inj [OF nat64] n by auto
  moreover have "(of_nat (length (concat segs) - 1) :: u64) + 1 = of_nat (length (concat segs))"
    by (rule of_nat_pred) (use n in linarith)
  ultimately have not_synced: "(if n = 0 then 0 else of_nat (n - 1) + 1 :: u64) \<noteq> lastPersistedBlock (info_of segs) + 1"
    using of_nat_pred [of n] by (cases "n = 0") (auto simp: info_of_def)
  have nb: "\<not> noBlockFiles (info_of segs)" using ne by (simp add: info_of_def)
  note loop = index_loop_at [OF fs blocks(1,2) attr blocks(3), folded e]
  show ?thesis
  proof (cases "n = 0")
    case True
    have "stream_at segs 0 0 ?ps" by (rule stream_at_start) (use ok in \<open>simp add: segs_ok_def\<close>)
    from loop [OF this, of "[]" c db] idx True obtain db' where db': "index_loop c conf fs ?e 0 0 db = Ret (Inr db')"
        "index_ok c conf db' ?ps (length (concat segs))" "map_of db' blkMgrInfoKey = map_of db blkMgrInfoKey"
      by auto
    moreover have "map_of fs 0 \<noteq> None" using fs by (simp add: layout_def)
    then have "open_stream fs 0 \<noteq> Inl er" for er by (auto simp: open_stream_def)
    then obtain f where "open_stream fs 0 = Inr f" by (cases "open_stream fs 0") auto
    ultimately have "syncIndex c conf fs (info_of segs) db = Ret (Inr db')"
      using first_block_number [OF fs ok ne] last True not_synced nb by (simp add: syncIndex_def Let_def)
    with db' show ?thesis by blast
  next
    case pos: False
    obtain k off where loc: "getBlockLocByBlockNum conf db (of_nat (n - 1)) = Inr \<lparr>fileSuffixNum = k, flOffset = off, flLength = 0\<rparr>"
        "?ps ! (n - 1) = (k, off, concat segs ! (n - 1))" "(k, off, concat segs ! (n - 1)) \<in> set ?ps"
      by (rule index_lookup [OF ok conf idx, of "n - 1"]) (use pos in simp)
    let ?b = "concat segs ! (n - 1)"
    have split: "?ps = take (n - 1) ?ps @ (k, off, ?b) # drop n ?ps"
      using id_take_nth_drop [of "n - 1" ?ps] loc(2) n pos by simp
    have "stream_at segs k off ((k, off, ?b) # drop n ?ps)" by (rule stream_at_place [OF split])
    from stream_next_at [OF fs blocks(1) this]
    have nxt: "stream_next fs ?e k off = Ret (Inr (Some (bbytes ?b, k, off, length (len_field ?b))))"
        "stream_at segs k (off + length (frame ?b)) (drop n ?ps)"
      by (simp_all add: e)
    have "\<exists>db'. index_loop c conf fs ?e k (off + length (frame ?b)) db = Ret (Inr db') \<and>
        index_ok c conf db' ?ps (length (concat segs)) \<and> map_of db' blkMgrInfoKey = map_of db blkMgrInfoKey"
      by (rule loop [OF nxt(2), of "take n ?ps"]) (use idx n in simp_all)
    then obtain db' where db': "index_loop c conf fs ?e k (off + length (frame ?b)) db = Ret (Inr db')"
        "index_ok c conf db' ?ps (length (concat segs))" "map_of db' blkMgrInfoKey = map_of db blkMgrInfoKey"
      by blast
    have "k < length segs" using place_in_file [OF loc(3)] by simp
    then obtain f where "open_stream fs k = Inr f" using layout_nth [OF fs] by (auto simp: open_stream_def)
    moreover have "0 < (of_nat n :: u64)"
      using of_nat_u64_inj [OF nat64(1), of 0] pos by (auto simp: word_neq_0_conv [symmetric])
    ultimately have "syncIndex c conf fs (info_of segs) db = Ret (Inr db')"
      using first_block_number [OF fs ok ne] last pos not_synced nb nxt(1) loc(1) db'(1) of_nat_pred [of n]
      by (simp add: syncIndex_def Let_def length_frame add.assoc)
    with db' show ?thesis by blast
  qed
qed

lemma last_header:
  assumes "layout fs segs" "segs_ok c conf segs" "conf_ok conf" "index_ok c conf db (places_from 0 segs) (length (concat segs))"
    and "concat segs \<noteq> []"
  shows "retrieveBlockHeaderByNumber c conf fs db (lastPersistedBlock (info_of segs)) = Ret (Inr (BHeader (last (concat segs))))"
proof -
  let ?i = "length (concat segs) - 1"
  have "?i < length (concat segs)" using assms(5) by (metis diff_less length_greater_0_conv zero_less_one)
  then obtain loc where loc: "getBlockLocByBlockNum conf db (of_nat ?i) = Inr loc"
      "fetchBlockBytes fs loc = Ret (Inr (bbytes (concat segs ! ?i)))" "storable conf (concat segs ! ?i)"
    by (rule fetch_lookup [OF assms(2,3,4) _ assms(1)])
  obtain info where "extractSerializedBlockInfo c (bbytes (concat segs ! ?i)) = Inr info" "siHeader info = BHeader (concat segs ! ?i)"
    using stored_idx_info_of [OF loc(3)] by metis
  moreover have "lastPersistedBlock (info_of segs) = of_nat ?i" by (simp add: info_of_def)
  moreover have "concat segs ! ?i = last (concat segs)" by (rule last_conv_nth [OF assms(5), symmetric])
  ultimately show ?thesis using loc(1,2) by (simp add: retrieveBlockHeaderByNumber_def)
qed

text \<open>Whatever the files and the database hold beyond what the summary in the database says, starting
  the manager recovers the complete blocks.\<close>

lemma newBlockfileMgr_recovers:
  assumes ok: "segs_ok c conf segs" and segs: "segs = pre @ [s0 @ s1]" and ok0: "segs_ok c conf (pre @ [s0])" and conf: "conf_ok conf"
    and fs: "torn_layout fs segs p" "torn conf p" and info: "map_of db blkMgrInfoKey = Some (marshal_info (info_of (pre @ [s0])))"
    and idx: "index_ok c conf db (places_from 0 segs) n"
  shows "\<exists>m. newBlockfileMgr c conf fs db = Ret (Inr m) \<and> store_inv c conf segs m"
proof -
  let ?old = "info_of (pre @ [s0])" and ?i = "info_of segs"
  have "unmarshal_info (marshal_info ?old) = Inr ?old"
    by (rule unmarshal_marshal_info) (use ok0 in \<open>simp_all add: info_of_def segs_ok_def\<close>)
  then have load: "loadBlkfilesInfo db = Inr (Some ?old)" using info by (simp add: loadBlkfilesInfo_def)
  have s1: "list_all (storable conf) s1" using ok segs by (simp add: segs_ok_def)
  have "concat (pre @ [s0]) = [] \<longrightarrow> pre = [] \<and> s0 = []"
  proof
    assume "concat (pre @ [s0]) = []"
    with ok0 have "pre @ [s0] = [[]]" unfolding segs_ok_def by presburger
    then show "pre = [] \<and> s0 = []" by (cases pre) simp_all
  qed
  from sync_info [OF fs(1) [unfolded segs] fs(2) s1 this] have sync: "syncBlockfilesInfoFromFS fs ?old = Ret ?i"
    by (simp only: segs)
  have num: "latestFileNumber ?i = length segs - 1" "latestFileSize ?i = length (frames (last segs))" by (simp_all add: info_of_def)
  have "map_of fs (length segs - 1) \<noteq> None" using fs(1) by (simp add: torn_layout_def)
  then have same: "newBlockfileWriter fs (length segs - 1) = fs" by (auto simp: newBlockfileWriter_def)
  define fs' where "fs' = truncateFile fs (length segs - 1) (length (frames (last segs)))"
  have lay: "layout fs' segs" unfolding fs'_def by (rule truncate_torn [OF fs(1)])
  let ?db = "saveBlkfilesInfo ?i db"
  have "index_ok c conf ?db (places_from 0 segs) n" using idx by simp
  from syncIndex_ok [OF lay ok conf this] obtain db' where db': "syncIndex c conf fs' ?i ?db = Ret (Inr db')"
      "index_ok c conf db' (places_from 0 segs) (length (concat segs))" "map_of db' blkMgrInfoKey = Some (marshal_info ?i)"
    by auto
  show ?thesis
  proof (cases "concat segs = []")
    case True
    then have "noBlockFiles ?i" by (simp add: info_of_def)
    with load sync same db'(1)
    have "newBlockfileMgr c conf fs db =
        Ret (Inr \<lparr>mDir = fs', mDb = db', mInfo = ?i, bcHeight = 0, bcCurrentHash = [], bcPreviousHash = []\<rparr>)"
      by (simp add: newBlockfileMgr_def Let_def num fs'_def)
    moreover have "store_inv c conf segs \<lparr>mDir = fs', mDb = db', mInfo = ?i, bcHeight = 0, bcCurrentHash = [], bcPreviousHash = []\<rparr>"
      using ok lay db'(2,3) unfolding store_inv_def True by (simp add: tip_hash_def)
    ultimately show ?thesis by blast
  next
    case False
    let ?m = "\<lparr>mDir = fs', mDb = db', mInfo = ?i, bcHeight = lastPersistedBlock ?i + 1,
      bcCurrentHash = BlockHeaderHash c (BHeader (last (concat segs))), bcPreviousHash = PreviousHash (BHeader (last (concat segs)))\<rparr>"
    have nb: "\<not> noBlockFiles ?i" using False by (simp add: info_of_def)
    have "newBlockfileMgr c conf fs db = Ret (Inr ?m)"
      using load sync same db'(1) nb last_header [OF lay ok conf db'(2) False]
      by (simp add: newBlockfileMgr_def Let_def num fs'_def)
    moreover have "(of_nat (length (concat segs) - 1) :: u64) + 1 = of_nat (length (concat segs))"
      by (rule of_nat_pred) (use False length_greater_0_conv in blast)
    then have "lastPersistedBlock ?i + 1 = of_nat (length (concat segs))" by (simp add: info_of_def)
    then have "store_inv c conf segs ?m"
      using ok lay db'(2,3) False by (auto simp: store_inv_def tip_hash_def)
    ultimately show ?thesis by blast
  qed
qed

text \<open>The first start of a ledger.\<close>

lemma newBlockfileMgr_empty:
  "newBlockfileMgr c conf [] [] = Ret (Inr \<lparr>mDir = [(0, [])], mDb = saveBlkfilesInfo (info_of [[]]) [], mInfo = info_of [[]],
     bcHeight = 0, bcCurrentHash = [], bcPreviousHash = []\<rparr>)"
  by (simp add: newBlockfileMgr_def loadBlkfilesInfo_def constructBlockfilesInfo_def retrieveLastFileSuffix_def Let_def
      newBlockfileWriter_def truncateFile_def contents_def syncIndex_def info_of_def)

lemma newBlockfileMgr_fresh:
  assumes "conf_ok conf"
  shows "\<exists>m. newBlockfileMgr c conf [] [] = Ret (Inr m) \<and> store_inv c conf [[]] m"
  unfolding newBlockfileMgr_empty
  by (simp add: store_inv_def segs_ok_def layout_def index_ok_def save_point_def chain_ok_def tip_hash_def)

section \<open>Crashes\<close>

text \<open>The files and the database that a crash during \<open>writeBlock\<close> may leave: before the first write, after
  the next file is created, after some bytes of the block, after the summary is saved, and
  after the index is written.\<close>

inductive crash_during :: "codec \<Rightarrow> store_conf \<Rightarrow> block \<Rightarrow> blockfile_mgr \<Rightarrow> dir \<Rightarrow> leveldb \<Rightarrow> bool"
  for c conf b m where
  before: "crash_during c conf b m (mDir m) (mDb m)"
| created: "crash_during c conf b m (newBlockfileWriter (mDir m) (latestFileNumber (mInfo m) + 1)) (mDb m)"
    if "maxBlockfileSize conf < latestFileSize (mInfo m) + length (frame b)"
| writing: "crash_during c conf b m (append_file (mDir t) (latestFileNumber (mInfo t)) (take k (frame b))) (mDb t)"
    if "t = target conf m b"
| saved: "crash_during c conf b m (append_file (mDir t) (latestFileNumber (mInfo t)) (frame b))
      (saveBlkfilesInfo \<lparr>latestFileNumber = latestFileNumber (mInfo t), latestFileSize = latestFileSize (mInfo t) + length (frame b),
         noBlockFiles = False, lastPersistedBlock = Number (BHeader b)\<rparr> (mDb t))"
    if "t = target conf m b"
| indexed: "crash_during c conf b m (mDir m') (mDb m')"
    if "writeBlock c conf IoOk b m = Ret (None, m')"

lemma torn_layout_Nil: "layout fs segs \<Longrightarrow> torn_layout fs segs []"
  by (simp add: layout_def torn_layout_def)

lemma torn_layout_append:
  assumes "layout fs (pre @ [s])"
  shows "torn_layout (append_file fs (length pre) p) (pre @ [s]) p"
proof -
  have "contents fs (length pre) = frames s" using assms by (simp add: layout_def contents_def nth_append)
  then have upd: "map_of (append_file fs (length pre) p) k = (if k = length pre then Some (frames s @ p) else map_of fs k)" for k
    by (simp add: append_file_def update_conv')
  show ?thesis using assms by (auto simp: torn_layout_def layout_def upd nth_append less_Suc_eq)
qed

lemma layout_created:
  assumes "layout fs segs"
  shows "layout (newBlockfileWriter fs (length segs)) segs"
proof (cases "map_of fs (length segs)")
  case None
  then have "map_of (newBlockfileWriter fs (length segs)) k = (if k = length segs then Some [] else map_of fs k)" for k
    by (simp add: newBlockfileWriter_def update_conv')
  with assms show ?thesis by (auto simp: layout_def)
next
  case (Some f)
  with assms show ?thesis by (simp add: newBlockfileWriter_def)
qed

lemma crash_recovery:
  assumes inv: "store_inv c conf segs m" and conf: "conf_ok conf" and room: "room conf m b" and nxt: "next_ok c (concat segs) b"
    and "crash_during c conf b m fs db"
  shows "\<exists>m' segs'. newBlockfileMgr c conf fs db = Ret (Inr m') \<and> store_inv c conf segs' m' \<and>
    (concat segs' = concat segs \<or> concat segs' = concat segs @ [b])"
proof -
  have st: "storable conf b" using room by (simp add: room_def)
  have len: "length (concat segs) + 1 < 2 ^ 62" using room height_of [OF inv] by (simp add: room_def)
  have ok: "segs_ok c conf segs" using inv by (simp add: store_inv_def)
  have restart: ?thesis
    if "segs_ok c conf segs'" "torn_layout fs segs' p" "torn conf p" "map_of db blkMgrInfoKey = Some (marshal_info (info_of segs'))"
      "index_ok c conf db (places_from 0 segs') n" "concat segs' = concat segs \<or> concat segs' = concat segs @ [b]" for segs' p n
  proof -
    have "segs' \<noteq> []" using that(1) by (simp add: segs_ok_def)
    then obtain pre s where "segs' = pre @ [s]" by (rule segs_snoc)
    with newBlockfileMgr_recovers [OF that(1), of pre s "[]" fs p db n] that conf
    have "\<exists>m. newBlockfileMgr c conf fs db = Ret (Inr m) \<and> store_inv c conf segs' m" by simp
    with that(6) show ?thesis by blast
  qed
  have disk: "segs_ok c conf segs' \<and> torn_layout (mDir m1) segs' [] \<and> map_of (mDb m1) blkMgrInfoKey = Some (marshal_info (info_of segs')) \<and>
      index_ok c conf (mDb m1) (places_from 0 segs') (length (concat segs'))" if "store_inv c conf segs' m1" for m1 segs'
    using that by (simp add: store_inv_def torn_layout_Nil)
  from \<open>crash_during c conf b m fs db\<close> show ?thesis
  proof cases
    case before
    with disk [OF inv] show ?thesis using restart [of segs "[]" "length (concat segs)"] by simp
  next
    case created
    have "latestFileNumber (mInfo m) + 1 = length segs" using inv by (simp add: store_inv_def info_of_def segs_ok_def Suc_leI)
    then have "torn_layout fs segs []" using inv created layout_created [of "mDir m" segs] by (simp add: store_inv_def torn_layout_Nil)
    with disk [OF inv] created show ?thesis using restart [of segs "[]" "length (concat segs)"] by simp
  next
    case (indexed m')
    from addBlock_appends [OF inv conf room nxt] indexed obtain segs' where
        s: "store_inv c conf segs' m'" "concat segs' = concat segs @ [b]" by auto
    with disk [OF s(1)] indexed show ?thesis using restart [of segs' "[]" "length (concat segs')"] by simp
  next
    case (writing t k)
    show ?thesis
    proof (rule target_inv [OF inv room conf])
      fix pre s
      assume "store_inv c conf (pre @ [s]) (target conf m b)" and cat: "concat (pre @ [s]) = concat segs"
        and small: "length (frames s) + length (frame b) < 2 ^ 62"
      then have t: "store_inv c conf (pre @ [s]) t" using writing by simp
      then have lay: "layout (mDir t) (pre @ [s])" and okt: "segs_ok c conf (pre @ [s])"
        and cur: "latestFileNumber (mInfo t) = length pre"
        and info: "map_of (mDb t) blkMgrInfoKey = Some (marshal_info (info_of (pre @ [s])))"
        and idx: "index_ok c conf (mDb t) (places_from 0 (pre @ [s])) (length (concat segs))"
        unfolding store_inv_def cat by (simp_all add: info_of_def)
      show ?thesis
      proof (cases "length (frame b) \<le> k")
        case True
        have okb: "segs_ok c conf (pre @ [s @ [b]])"
          by (rule segs_ok_append [OF okt st _ _ small]) (use nxt len cat in simp_all)
        have "layout fs (pre @ [s @ [b]])"
          using layout_append [OF lay, of "frame b" "[]" b] writing cur True by simp
        then have fs: "torn_layout fs (pre @ [s @ [b]]) []" by (rule torn_layout_Nil)
        have "index_ok c conf db (places_from 0 (pre @ [s @ [b]])) (length (concat segs))"
          unfolding places_add using index_ok_extend [OF idx] writing by simp
        from newBlockfileMgr_recovers [OF okb refl okt conf fs torn_Nil _ this] info writing
        obtain m' where "newBlockfileMgr c conf fs db = Ret (Inr m')" "store_inv c conf (pre @ [s @ [b]]) m'" by auto
        moreover have "concat (pre @ [s @ [b]]) = concat segs @ [b]" using cat by simp
        ultimately show ?thesis by blast
      next
        case False
        then have "frame b = take k (frame b) @ drop k (frame b) \<and> drop k (frame b) \<noteq> []" by simp
        with st have "torn conf (take k (frame b))" unfolding torn_def by blast
        moreover have "torn_layout fs (pre @ [s]) (take k (frame b))"
          using torn_layout_append [OF lay] writing cur by simp
        ultimately show ?thesis using restart [OF okt] info idx writing cat by blast
      qed
    qed
  next
    case (saved t)
    show ?thesis
    proof (rule target_inv [OF inv room conf])
      fix pre s
      assume "store_inv c conf (pre @ [s]) (target conf m b)" and cat: "concat (pre @ [s]) = concat segs"
        and small: "length (frames s) + length (frame b) < 2 ^ 62"
      then have t: "store_inv c conf (pre @ [s]) t" using saved by simp
      then have lay: "layout (mDir t) (pre @ [s])" and okt: "segs_ok c conf (pre @ [s])"
        and cur: "latestFileNumber (mInfo t) = length pre" "latestFileSize (mInfo t) = length (frames s)"
        and idx: "index_ok c conf (mDb t) (places_from 0 (pre @ [s])) (length (concat segs))"
        unfolding store_inv_def cat by (simp_all add: info_of_def)
      have okb: "segs_ok c conf (pre @ [s @ [b]])"
        by (rule segs_ok_append [OF okt st _ _ small]) (use nxt len cat in simp_all)
      have "layout fs (pre @ [s @ [b]])"
        using layout_append [OF lay, of "frame b" "[]" b] saved cur by simp
      then have fs: "torn_layout fs (pre @ [s @ [b]]) []" by (rule torn_layout_Nil)
      have info: "map_of db blkMgrInfoKey = Some (marshal_info (info_of (pre @ [s @ [b]])))"
        unfolding info_of_append cat using saved cur nxt by (simp add: next_ok_def)
      have "index_ok c conf db (places_from 0 (pre @ [s @ [b]])) (length (concat segs))"
        unfolding places_add using index_ok_extend [OF idx] saved by simp
      from restart [OF okb fs torn_Nil info this] cat show ?thesis by simp
    qed
  qed
qed

end
