(* ===== verification/File_Ledger.thy ===== *)
theory File_Ledger
  imports Block_Store_Facts Sample_Codec
begin

text \<open>
  The ledger of an orderer, \<^verbatim>\<open>common/ledger/blkstorage\<close> and
  \<^verbatim>\<open>common/ledger/blockledger/fileledger\<close>: the cache of recent blocks (\<^verbatim>\<open>cache.go\<close>), \<open>addBlock\<close> with
  its deferred insertion into the cache, the blocks iterator (\<^verbatim>\<open>blocks_itr.go\<close>) and the file ledger
  that the block writer appends to and that clients read from (\<^verbatim>\<open>impl.go\<close>).

  The properties: the store refines an append-only list of blocks under every outcome of the
  disk operations; a restart after a crash loses nothing that was acknowledged; an iterator
  delivers the blocks in order, each once, also while blocks are appended.
\<close>

section \<open>The cache\<close>

record block_cache =
  cacheDisabled :: bool
  cacheMap :: "(u64 \<times> block \<times> nat) list"
  sizeBytes :: int
  maxSeq :: u64
  maxSizeBytes :: nat

definition newCache :: "nat \<Rightarrow> block_cache" where
  "newCache maxBytes = \<lparr>cacheDisabled = (maxBytes = 0), cacheMap = [], sizeBytes = 0, maxSeq = 0, maxSizeBytes = maxBytes\<rparr>"

definition cache_get :: "block_cache \<Rightarrow> u64 \<Rightarrow> block option" where
  "cache_get ca seq = (if cacheDisabled ca then None else map_option fst (map_of (cacheMap ca) seq))"

definition evictOldestCachedBlock :: "block_cache \<Rightarrow> block_cache go" where
  "evictOldestCachedBlock ca =
     (let evictedIndex = maxSeq ca - of_nat (length (cacheMap ca)) + 1 in
      case map_of (cacheMap ca) evictedIndex of
        None \<Rightarrow> Panic ''programming error: index to be evicted was not found''
      | Some (_, blockSize) \<Rightarrow>
          Ret (ca\<lparr>cacheMap := AList.delete evictedIndex (cacheMap ca), sizeBytes := sizeBytes ca - int blockSize\<rparr>))"

lemma length_AList_delete: "map_of al k = Some v \<Longrightarrow> length (AList.delete k al) < length al"
  by (induction al) (auto simp: less_Suc_eq_le AList.delete_eq length_filter_le split: if_splits)

function evict_loop :: "block_cache \<Rightarrow> block_cache go" where
  "evict_loop ca =
     (if int (maxSizeBytes ca) < sizeBytes ca then
        case evictOldestCachedBlock ca of Panic m \<Rightarrow> Panic m | Ret ca' \<Rightarrow> evict_loop ca'
      else Ret ca)"
  by pat_completeness auto

termination evict_loop
  by (relation "measure (\<lambda>ca. length (cacheMap ca))")
    (auto simp: evictOldestCachedBlock_def Let_def length_AList_delete split: option.splits)

declare evict_loop.simps [simp del]

definition cache_put :: "block \<Rightarrow> nat \<Rightarrow> block_cache \<Rightarrow> block_cache go" where
  "cache_put b blockSize ca =
     (let seq = Number (BHeader b) in
      if cacheDisabled ca then Ret ca
      else if seq < maxSeq ca then Ret ca
      else if maxSeq ca + 1 < seq \<and> maxSeq ca \<noteq> 0 then Panic ''detected out of order block insertion''
      else if maxSeq ca = seq \<and> maxSeq ca \<noteq> 0 then Panic ''detected insertion of the same block twice''
      else evict_loop (ca\<lparr>maxSeq := seq, sizeBytes := sizeBytes ca + int blockSize,
                          cacheMap := AList.update seq (b, blockSize) (cacheMap ca)\<rparr>))"

section \<open>The block store\<close>

record block_store =
  fileMgr :: blockfile_mgr
  blockCache :: block_cache

definition defaultBlockCacheSizeBytes :: nat where
  "defaultBlockCacheSizeBytes = 1024 * 1024 * 50"

definition newBlockStore :: "codec \<Rightarrow> store_conf \<Rightarrow> dir \<Rightarrow> leveldb \<Rightarrow> (error + block_store) go" where
  "newBlockStore c conf fs db = bind_res (newBlockfileMgr c conf fs db) (\<lambda>m.
     Ret (Inr \<lparr>fileMgr = m, blockCache = newCache defaultBlockCacheSizeBytes\<rparr>))"

text \<open>\<open>addBlock\<close>. The insertion into the cache is deferred once the bytes of the block are in the file: it
  happens when the function returns, whether or not the database operations after that succeed.\<close>

definition addBlock :: "codec \<Rightarrow> store_conf \<Rightarrow> io_outcome \<Rightarrow> block \<Rightarrow> block_store \<Rightarrow> (error option \<times> block_store) go" where
  "addBlock c conf io b s =
     (let m = fileMgr s;
          deferred = Number (BHeader b) = bcHeight m \<and> PreviousHash (BHeader b) = bcCurrentHash m \<and>
            (case io of LengthFails _ \<Rightarrow> False | DataFails _ \<Rightarrow> False | _ \<Rightarrow> True)
      in bind_go (writeBlock c conf io b m) (\<lambda>(err, m').
           if deferred then
             bind_go (serializeBlock c b) (\<lambda>(blockBytes, _).
             bind_go (cache_put b (length blockBytes) (blockCache s)) (\<lambda>ca.
               Ret (err, \<lparr>fileMgr = m', blockCache = ca\<rparr>)))
           else Ret (err, s\<lparr>fileMgr := m'\<rparr>)))"

section \<open>The blocks iterator\<close>

text \<open>The stream of an iterator is the file and the offset at which it stands.\<close>

record blocks_itr =
  maxBlockNumAvailable :: u64
  blockNumToRetrieve :: u64
  itrStream :: "(nat \<times> nat) option"
  closeMarker :: bool

definition newBlockItr :: "block_store \<Rightarrow> u64 \<Rightarrow> blocks_itr" where
  "newBlockItr s startBlockNum =
     \<lparr>maxBlockNumAvailable = lastPersistedBlock (mInfo (fileMgr s)), blockNumToRetrieve = startBlockNum, itrStream = None,
      closeMarker = False\<rparr>"

text \<open>A call of \<open>Next\<close> blocks (\<open>Waits\<close>), reports that the iterator is closed, fails, or delivers a block. The
  iterator is not used after a failure.\<close>

datatype next_result = Waits | Closed | Failed error | Delivers block blocks_itr

definition initStream :: "store_conf \<Rightarrow> block_store \<Rightarrow> blocks_itr \<Rightarrow> error + nat \<times> nat" where
  "initStream conf s itr =
     bind_err (getBlockLocByBlockNum conf (mDb (fileMgr s)) (blockNumToRetrieve itr)) (\<lambda>lp.
     bind_err (open_stream (mDir (fileMgr s)) (fileSuffixNum lp)) (\<lambda>_.
       Inr (fileSuffixNum lp, flOffset lp)))"

definition itr_read :: "codec \<Rightarrow> store_conf \<Rightarrow> block_store \<Rightarrow> blocks_itr \<Rightarrow> next_result go" where
  "itr_read c conf s itr =
     (case (case itrStream itr of Some p \<Rightarrow> Inr p | None \<Rightarrow> initStream conf s itr) of
        Inl e \<Rightarrow> Ret (Failed e)
      | Inr (cur, off) \<Rightarrow>
          bind_go (stream_next (mDir (fileMgr s)) (- 1) cur off) (\<lambda>r.
          case r of
            Inl e \<Rightarrow> Ret (Failed e)
          | Inr None \<Rightarrow> (case deserializeBlock c [] of Inl e \<Rightarrow> Ret (Failed e) | Inr b \<Rightarrow>
              Ret (Delivers b (itr\<lparr>blockNumToRetrieve := blockNumToRetrieve itr + 1, itrStream := Some (cur, off)\<rparr>)))
          | Inr (Some (bs, fileNum, start, n)) \<Rightarrow>
              (case deserializeBlock c bs of Inl e \<Rightarrow> Ret (Failed e) | Inr b \<Rightarrow>
                 Ret (Delivers b (itr\<lparr>blockNumToRetrieve := blockNumToRetrieve itr + 1,
                                      itrStream := Some (fileNum, start + n + length bs)\<rparr>)))))"

definition itr_Next :: "codec \<Rightarrow> store_conf \<Rightarrow> block_store \<Rightarrow> blocks_itr \<Rightarrow> next_result go" where
  "itr_Next c conf s itr =
     (let lastBlock = lastPersistedBlock (mInfo (fileMgr s));
          num = blockNumToRetrieve itr;
          wait = maxBlockNumAvailable itr < num
      in if wait \<and> lastBlock < num \<and> \<not> closeMarker itr then Ret Waits
         else if closeMarker itr then Ret Closed
         else let itr = (if wait then itr\<lparr>maxBlockNumAvailable := lastBlock\<rparr> else itr) in
           case cache_get (blockCache s) num of
             Some b \<Rightarrow> Ret (Delivers b (itr\<lparr>itrStream := None, blockNumToRetrieve := num + 1\<rparr>))
           | None \<Rightarrow> itr_read c conf s itr)"

definition itr_Close :: "blocks_itr \<Rightarrow> blocks_itr" where
  "itr_Close itr = itr\<lparr>closeMarker := True\<rparr>"

section \<open>The file ledger\<close>

datatype seek_position = SeekOldest | SeekNewest | SeekSpecified u64 | SeekNextCommit | SeekUnknown

datatype ledger_iterator = NotFoundErrorIterator | FileLedgerIterator blocks_itr

definition Height :: "block_store \<Rightarrow> u64" where
  "Height s = bcHeight (fileMgr s)"

text \<open>\<open>Iterator\<close>: \<open>RetrieveBlocks\<close> fails only on a ledger that starts from a snapshot.\<close>

definition Iterator :: "block_store \<Rightarrow> seek_position \<Rightarrow> ledger_iterator \<times> u64" where
  "Iterator s p =
     (let from = (\<lambda>n. (FileLedgerIterator (newBlockItr s n), n)) in
      case p of
        SeekOldest \<Rightarrow> from 0
      | SeekNewest \<Rightarrow> from (Height s - 1)
      | SeekSpecified n \<Rightarrow> if Height s < n then (NotFoundErrorIterator, 0) else from n
      | SeekNextCommit \<Rightarrow> from (Height s)
      | SeekUnknown \<Rightarrow> (NotFoundErrorIterator, 0))"

datatype status = Status_SUCCESS | Status_BAD_REQUEST | Status_FORBIDDEN | Status_NOT_FOUND | Status_SERVICE_UNAVAILABLE

text \<open>\<open>Next\<close> of the ledger's iterators: no result means that the call blocks.\<close>

definition ledger_Next ::
    "codec \<Rightarrow> store_conf \<Rightarrow> block_store \<Rightarrow> ledger_iterator \<Rightarrow> ((block option \<times> status) option \<times> ledger_iterator) go" where
  "ledger_Next c conf s it =
     (case it of
        NotFoundErrorIterator \<Rightarrow> Ret (Some (None, Status_NOT_FOUND), it)
      | FileLedgerIterator itr \<Rightarrow>
          bind_go (itr_Next c conf s itr) (\<lambda>r.
          case r of
            Waits \<Rightarrow> Ret (None, it)
          | Closed \<Rightarrow> Ret (Some (None, Status_SERVICE_UNAVAILABLE), it)
          | Failed _ \<Rightarrow> Ret (Some (None, Status_SERVICE_UNAVAILABLE), it)
          | Delivers b itr' \<Rightarrow> Ret (Some (Some b, Status_SUCCESS), FileLedgerIterator itr')))"

definition Append :: "codec \<Rightarrow> store_conf \<Rightarrow> io_outcome \<Rightarrow> block \<Rightarrow> block_store \<Rightarrow> (error option \<times> block_store) go" where
  "Append = addBlock"

definition RetrieveBlockByNumber :: "codec \<Rightarrow> store_conf \<Rightarrow> block_store \<Rightarrow> u64 \<Rightarrow> (error + block) go" where
  "RetrieveBlockByNumber c conf s n = retrieveBlockByNumber c conf (fileMgr s) n"

text \<open>\<open>blockledger.GetBlock\<close>; the outer \<open>None\<close> means that the call blocks.\<close>

definition GetBlock :: "codec \<Rightarrow> store_conf \<Rightarrow> block_store \<Rightarrow> u64 \<Rightarrow> block option option go" where
  "GetBlock c conf s n =
     bind_go (ledger_Next c conf s (fst (Iterator s (SeekSpecified n)))) (\<lambda>(r, _).
       Ret (map_option (\<lambda>(b, st). if st = Status_SUCCESS then b else None) r))"


section \<open>The cache holds the newest blocks\<close>

definition cache_entry :: "block list \<Rightarrow> nat \<Rightarrow> u64 \<times> block \<times> nat" where
  "cache_entry bs i = (of_nat i, bs ! i, length (bbytes (bs ! i)))"

definition cached_bytes :: "block list \<Rightarrow> nat \<Rightarrow> int" where
  "cached_bytes bs k = (\<Sum>i \<leftarrow> [k..<length bs]. int (length (bbytes (bs ! i))))"

text \<open>The cache holds the blocks from number \<open>k\<close> on. It knows the number of the newest block, or has held
  none since the ledger was opened.\<close>

definition cache_from :: "block list \<Rightarrow> nat \<Rightarrow> block_cache \<Rightarrow> bool" where
  "cache_from bs k ca \<longleftrightarrow> k \<le> length bs \<and> cacheMap ca = map (cache_entry bs) [k..<length bs] \<and> sizeBytes ca = cached_bytes bs k"

definition cache_inv :: "block list \<Rightarrow> block_cache \<Rightarrow> bool" where
  "cache_inv bs ca \<longleftrightarrow> cacheDisabled ca \<or> (\<exists>k. cache_from bs k ca \<and>
     (maxSeq ca = 0 \<and> k = length bs \<or> bs \<noteq> [] \<and> maxSeq ca = of_nat (length bs - 1)))"

lemma cached_bytes_Suc: "k < length bs \<Longrightarrow> cached_bytes bs k = int (length (bbytes (bs ! k))) + cached_bytes bs (Suc k)"
  by (simp add: cached_bytes_def upt_conv_Cons)

lemma cached_bytes_end [simp]: "cached_bytes bs (length bs) = 0"
  by (simp add: cached_bytes_def)

lemma cached_bytes_snoc: "k \<le> length bs \<Longrightarrow> cached_bytes (bs @ [b]) k = cached_bytes bs k + int (length (bbytes b))"
proof -
  assume "k \<le> length bs"
  moreover have "map (\<lambda>i. int (length (bbytes ((bs @ [b]) ! i)))) [k..<length bs] = map (\<lambda>i. int (length (bbytes (bs ! i)))) [k..<length bs]"
    by (simp add: nth_append)
  ultimately show ?thesis unfolding cached_bytes_def by (simp del: map_eq_conv)
qed

lemma of_nat_eq_small: "i < 2 ^ 62 \<Longrightarrow> j < 2 ^ 62 \<Longrightarrow> (of_nat i :: u64) = of_nat j \<longleftrightarrow> i = j"
  using of_nat_u64_inj [of i j] by auto

lemma unat_of_nat_small: "n < 2 ^ 62 \<Longrightarrow> unat (of_nat n :: u64) = n"
  by (simp add: unat_of_nat_u64)

lemma of_nat_less_small: "i < 2 ^ 62 \<Longrightarrow> j < 2 ^ 62 \<Longrightarrow> (of_nat i :: u64) < of_nat j \<longleftrightarrow> i < j"
  by (simp add: word_less_nat_alt unat_of_nat_u64)

lemma map_of_cache_entry:
  assumes "length bs < 2 ^ 62" "i < length bs"
  shows "map_of (map (cache_entry bs) [k..<length bs]) (of_nat i) = (if k \<le> i then Some (bs ! i, length (bbytes (bs ! i))) else None)"
proof -
  have inj: "(of_nat i :: u64) = of_nat j \<Longrightarrow> i = j" if "j < length bs" for j
    using of_nat_eq_small [of i j] assms that by linarith
  have "map_of (map (cache_entry bs) js) (of_nat i) = (if i \<in> set js then Some (bs ! i, length (bbytes (bs ! i))) else None)"
    if "set js \<subseteq> {..<length bs}" for js
    using that inj by (induction js) (auto simp: cache_entry_def)
  moreover have "set [k..<length bs] \<subseteq> {..<length bs}" by auto
  ultimately show ?thesis using assms(2) by simp
qed

lemma delete_cache_entry:
  assumes "length bs < 2 ^ 62" "k < length bs"
  shows "AList.delete (of_nat k) (map (cache_entry bs) [k..<length bs]) = map (cache_entry bs) [Suc k..<length bs]"
proof -
  have "(of_nat k :: u64) \<noteq> of_nat j" if "Suc k \<le> j" "j < length bs" for j
    using of_nat_eq_small [of k j] assms that by linarith
  then have "\<forall>x \<in> set (map (cache_entry bs) [Suc k..<length bs]). of_nat k \<noteq> fst x"
    by (auto simp: cache_entry_def)
  then show ?thesis using assms(2)
    by (simp add: AList.delete_eq upt_conv_Cons) (simp add: cache_entry_def case_prod_unfold filter_id_conv)
qed

lemma evict_from:
  assumes "cache_from bs k ca" "bs \<noteq> []" "maxSeq ca = of_nat (length bs - 1)" "length bs < 2 ^ 62"
  shows "\<exists>ca'. evict_loop ca = Ret ca' \<and> cache_inv bs ca' \<and> maxSeq ca' = maxSeq ca \<and> sizeBytes ca' \<le> int (maxSizeBytes ca) \<and>
    cacheDisabled ca' = cacheDisabled ca"
  using assms
proof (induction "length bs - k" arbitrary: k ca)
  case (0 k ca)
  then have "k = length bs" by (simp add: cache_from_def)
  with 0 show ?case by (subst evict_loop.simps) (auto simp: cache_inv_def cache_from_def)
next
  case (Suc n k ca)
  then have k: "k < length bs" by simp
  show ?case
  proof (cases "int (maxSizeBytes ca) < sizeBytes ca")
    case True
    let ?ca = "ca\<lparr>cacheMap := map (cache_entry bs) [Suc k..<length bs], sizeBytes := cached_bytes bs (Suc k)\<rparr>"
    have "maxSeq ca - of_nat (length (cacheMap ca)) + 1 = of_nat k"
      using Suc.prems k by (simp add: cache_from_def of_nat_diff)
    then have "evictOldestCachedBlock ca = Ret ?ca"
      using Suc.prems k map_of_cache_entry [OF Suc.prems(4) k, of k] delete_cache_entry [OF Suc.prems(4) k]
      by (simp add: evictOldestCachedBlock_def cache_from_def cached_bytes_Suc [OF k])
    moreover have "cache_from bs (Suc k) ?ca" using k by (simp add: cache_from_def)
    ultimately show ?thesis
      using Suc.hyps(1) [of "Suc k" ?ca] Suc.hyps(2) Suc.prems True by (subst evict_loop.simps) simp
  next
    case False
    then show ?thesis using Suc.prems by (subst evict_loop.simps) (auto simp: cache_inv_def)
  qed
qed

lemma update_new: "map_of al k = None \<Longrightarrow> AList.update k v al = al @ [(k, v)]"
  by (induction al) (auto split: if_splits)

lemma cache_put_next:
  assumes "cache_inv bs ca" "Number (BHeader b) = of_nat (length bs)" "length bs + 1 < 2 ^ 62"
  shows "\<exists>ca'. cache_put b (length (bbytes b)) ca = Ret ca' \<and> cache_inv (bs @ [b]) ca' \<and>
    (\<not> cacheDisabled ca \<longrightarrow> \<not> cacheDisabled ca' \<and> sizeBytes ca' \<le> int (maxSizeBytes ca))"
proof (cases "cacheDisabled ca")
  case True
  then show ?thesis by (simp add: cache_put_def cache_inv_def)
next
  case False
  obtain k where k: "cache_from bs k ca" and seq: "maxSeq ca = 0 \<and> k = length bs \<or> bs \<noteq> [] \<and> maxSeq ca = of_nat (length bs - 1)"
    using assms(1) False by (auto simp: cache_inv_def)
  let ?n = "length bs" and ?ca = "ca\<lparr>maxSeq := of_nat (length bs), sizeBytes := sizeBytes ca + int (length (bbytes b)),
      cacheMap := AList.update (of_nat (length bs)) (b, length (bbytes b)) (cacheMap ca)\<rparr>"
  have "\<not> (of_nat ?n :: u64) < maxSeq ca" "\<not> (maxSeq ca + 1 < of_nat ?n \<and> maxSeq ca \<noteq> 0)" "\<not> (maxSeq ca = of_nat ?n \<and> maxSeq ca \<noteq> 0)"
    using seq assms(3) of_nat_less_small [of ?n "?n - 1"] of_nat_eq_small [of "?n - 1" ?n] of_nat_pred [of ?n] by auto
  then have put: "cache_put b (length (bbytes b)) ca = (if cacheDisabled ca then Ret ca else evict_loop ?ca)"
    unfolding cache_put_def Let_def assms(2) by (simp only: if_False)
  have "map_of (cacheMap ca) (of_nat ?n) = None"
    using k assms(3) of_nat_eq_small by (auto simp: cache_from_def cache_entry_def map_of_eq_None_iff)
  then have "AList.update (of_nat ?n) (b, length (bbytes b)) (cacheMap ca) = cacheMap ca @ [(of_nat ?n, b, length (bbytes b))]"
    by (rule update_new)
  moreover have "map (cache_entry bs) [k..<?n] = map (cache_entry (bs @ [b])) [k..<?n]"
    by (simp add: cache_entry_def nth_append)
  ultimately have "cache_from (bs @ [b]) k ?ca"
    using k by (simp add: cache_from_def cached_bytes_snoc) (simp add: cache_entry_def nth_append)
  from evict_from [OF this] assms(3) obtain ca' where "evict_loop ?ca = Ret ca'" "cache_inv (bs @ [b]) ca'"
      "sizeBytes ca' \<le> int (maxSizeBytes ?ca)" "cacheDisabled ca' = cacheDisabled ?ca"
    by auto
  with put False show ?thesis by auto
qed

lemma cache_get_inv:
  assumes "cache_inv bs ca" "length bs < 2 ^ 62" "i < length bs" "cache_get ca (of_nat i) = Some b"
  shows "b = bs ! i"
  using assms map_of_cache_entry [OF assms(2,3)] by (auto simp: cache_inv_def cache_from_def cache_get_def split: if_splits)

section \<open>The store and its readers\<close>

text \<open>The state of the ledger with blocks \<open>bs\<close>, and the state of an iterator on it that has next to deliver
  the block with number \<open>k\<close>.\<close>

definition ledger_inv :: "codec \<Rightarrow> store_conf \<Rightarrow> block list \<Rightarrow> block_store \<Rightarrow> bool" where
  "ledger_inv c conf bs s \<longleftrightarrow>
     (\<exists>segs. store_inv c conf segs (fileMgr s) \<and> concat segs = bs \<and> cache_inv bs (blockCache s))"

definition reader_inv :: "codec \<Rightarrow> store_conf \<Rightarrow> block list \<Rightarrow> block_store \<Rightarrow> nat \<Rightarrow> blocks_itr \<Rightarrow> bool" where
  "reader_inv c conf bs s k itr \<longleftrightarrow> bs \<noteq> [] \<and> k \<le> length bs \<and>
     (\<exists>segs. store_inv c conf segs (fileMgr s) \<and> concat segs = bs \<and> cache_inv bs (blockCache s) \<and>
        (\<forall>cur off. itrStream itr = Some (cur, off) \<longrightarrow> stream_at segs cur off (drop k (places_from 0 segs)))) \<and>
     blockNumToRetrieve itr = of_nat k \<and> unat (maxBlockNumAvailable itr) < length bs \<and> \<not> closeMarker itr"

lemma deserialize_storable: "storable conf b \<Longrightarrow> deserializeBlock c (bbytes b) = Inr b"
  by (rule storable_facts, assumption) (simp add: deserialize_serialize(1))

lemma last_persisted:
  assumes "store_inv c conf segs m" "concat segs \<noteq> []"
  shows "unat (lastPersistedBlock (mInfo m)) = length (concat segs) - 1"
proof -
  have "length (concat segs) < 2 ^ 62" using assms(1) by (simp add: store_inv_def segs_ok_def)
  then have "unat (of_nat (length (concat segs) - 1) :: u64) = length (concat segs) - 1"
    by (intro unat_of_nat_small) linarith
  with assms show ?thesis by (simp add: store_inv_def info_of_def)
qed

lemma newBlockItr_inv:
  assumes "ledger_inv c conf bs s" "bs \<noteq> []" "k \<le> length bs"
  shows "reader_inv c conf bs s k (newBlockItr s (of_nat k))"
  using assms last_persisted [of c conf _ "fileMgr s"] by (fastforce simp: ledger_inv_def reader_inv_def newBlockItr_def)

text \<open>Reading a block from the files, with the stream that the iterator has or a new one.\<close>

lemma itr_stream:
  assumes inv: "store_inv c conf segs (fileMgr s)" and conf: "conf_ok conf" and k: "k < length (concat segs)"
    and itr: "blockNumToRetrieve itr = of_nat k"
      "\<And>cur off. itrStream itr = Some (cur, off) \<Longrightarrow> stream_at segs cur off (drop k (places_from 0 segs))"
  obtains cur off where "(case itrStream itr of Some p \<Rightarrow> Inr p | None \<Rightarrow> initStream conf s itr) = Inr (cur, off)"
    "stream_at segs cur off (drop k (places_from 0 segs))"
proof (cases "itrStream itr")
  case (Some p)
  with itr(2) that show thesis by (cases p) auto
next
  case None
  have st: "segs_ok c conf segs" "index_ok c conf (mDb (fileMgr s)) (places_from 0 segs) (length (concat segs))"
      "layout (mDir (fileMgr s)) segs"
    using inv by (simp_all add: store_inv_def)
  obtain f off where loc: "getBlockLocByBlockNum conf (mDb (fileMgr s)) (of_nat k) = Inr \<lparr>fileSuffixNum = f, flOffset = off, flLength = 0\<rparr>"
      "places_from 0 segs ! k = (f, off, concat segs ! k)" "(f, off, concat segs ! k) \<in> set (places_from 0 segs)"
    by (rule index_lookup [OF st(1) conf st(2) k])
  have "open_stream (mDir (fileMgr s)) f = Inr (frames (segs ! f))"
    using place_in_file [OF loc(3)] layout_nth [OF st(3), of f] by (simp add: open_stream_def)
  with None loc(1) itr(1) have "(case itrStream itr of Some p \<Rightarrow> Inr p | None \<Rightarrow> initStream conf s itr) = Inr (f, off)"
    by (simp add: initStream_def)
  moreover have split: "drop k (places_from 0 segs) = (f, off, concat segs ! k) # drop (Suc k) (places_from 0 segs)"
    using k loc(2) by (metis Cons_nth_drop_Suc length_places_from)
  have "places_from 0 segs = take k (places_from 0 segs) @ (f, off, concat segs ! k) # drop (Suc k) (places_from 0 segs)"
    using append_take_drop_id [of k "places_from 0 segs"] unfolding split by simp
  from stream_at_place [OF this] have "stream_at segs f off (drop k (places_from 0 segs))" unfolding split .
  ultimately show thesis using that by blast
qed

lemma itr_read_next:
  assumes inv: "store_inv c conf segs (fileMgr s)" and conf: "conf_ok conf" and k: "k < length (concat segs)"
    and itr: "blockNumToRetrieve itr = of_nat k"
      "\<And>cur off. itrStream itr = Some (cur, off) \<Longrightarrow> stream_at segs cur off (drop k (places_from 0 segs))"
  obtains cur off where "itr_read c conf s itr =
      Ret (Delivers (concat segs ! k) (itr\<lparr>blockNumToRetrieve := of_nat (Suc k), itrStream := Some (cur, off)\<rparr>))"
    "stream_at segs cur off (drop (Suc k) (places_from 0 segs))"
proof (rule itr_stream [OF assms])
  fix cur off
  assume at: "(case itrStream itr of Some p \<Rightarrow> Inr p | None \<Rightarrow> initStream conf s itr) = Inr (cur, off)"
    "stream_at segs cur off (drop k (places_from 0 segs))"
  have st: "list_all (storable conf) (concat segs)" "layout (mDir (fileMgr s)) segs"
    using inv by (simp_all add: store_inv_def segs_ok_def)
  obtain f o1 where p: "drop k (places_from 0 segs) = (f, o1, concat segs ! k) # drop (Suc k) (places_from 0 segs)"
    using k place_block [OF k, of 0] by (metis Cons_nth_drop_Suc length_places_from prod.collapse)
  let ?b = "concat segs ! k"
  have nxt: "stream_next (mDir (fileMgr s)) (- 1) cur off = Ret (Inr (Some (bbytes ?b, f, o1, length (len_field ?b))))"
      "stream_at segs f (o1 + length (frame ?b)) (drop (Suc k) (places_from 0 segs))"
    using stream_next_from [OF st(2,1) at(2), of "- 1"] p by auto
  moreover have "storable conf ?b" using st(1) k by (simp add: list_all_length)
  ultimately have "itr_read c conf s itr = Ret (Delivers ?b (itr\<lparr>blockNumToRetrieve := of_nat (Suc k),
      itrStream := Some (f, o1 + length (len_field ?b) + length (bbytes ?b))\<rparr>))"
    using at(1) itr(1) by (simp add: itr_read_def deserialize_storable add.commute)
  with nxt(2) that show thesis by (simp add: length_frame add.assoc)
qed

text \<open>\<open>Next\<close> delivers the block with the next number, and waits when there is none.\<close>

lemma itr_Next_inv:
  assumes "reader_inv c conf bs s k itr" "conf_ok conf"
  shows "if k < length bs then \<exists>itr'. itr_Next c conf s itr = Ret (Delivers (bs ! k) itr') \<and> reader_inv c conf bs s (Suc k) itr'
    else itr_Next c conf s itr = Ret Waits"
proof -
  obtain segs where inv: "store_inv c conf segs (fileMgr s)" "concat segs = bs" "cache_inv bs (blockCache s)"
      "\<And>cur off. itrStream itr = Some (cur, off) \<Longrightarrow> stream_at segs cur off (drop k (places_from 0 segs))"
    and itr: "bs \<noteq> []" "k \<le> length bs" "blockNumToRetrieve itr = of_nat k" "unat (maxBlockNumAvailable itr) < length bs" "\<not> closeMarker itr"
    using assms(1) by (auto simp: reader_inv_def)
  have small: "length bs < 2 ^ 62" using inv by (auto simp: store_inv_def segs_ok_def)
  have lst: "unat (lastPersistedBlock (mInfo (fileMgr s))) = length bs - 1" using last_persisted [OF inv(1)] inv(2) itr(1) by simp
  have num: "unat (of_nat k :: u64) = k" by (rule unat_of_nat_small) (use small itr(2) in linarith)
  show ?thesis
  proof (cases "k < length bs")
    case True
    then have nowait: "\<not> lastPersistedBlock (mInfo (fileMgr s)) < of_nat k"
      using lst num unfolding word_less_nat_alt by linarith
    have suc: "of_nat (Suc k) = (of_nat k :: u64) + 1" by simp
    let ?itr = "if maxBlockNumAvailable itr < of_nat k then itr\<lparr>maxBlockNumAvailable := lastPersistedBlock (mInfo (fileMgr s))\<rparr> else itr"
    have go: "itr_Next c conf s itr = (case cache_get (blockCache s) (of_nat k) of
        Some b \<Rightarrow> Ret (Delivers b (?itr\<lparr>itrStream := None, blockNumToRetrieve := of_nat (Suc k)\<rparr>)) | None \<Rightarrow> itr_read c conf s ?itr)"
      unfolding suc using itr(3,5) nowait by (simp add: itr_Next_def Let_def)
    show ?thesis
    proof (cases "cache_get (blockCache s) (of_nat k)")
      case None
      obtain cur off where "itr_read c conf s ?itr =
          Ret (Delivers (concat segs ! k) (?itr\<lparr>blockNumToRetrieve := of_nat (Suc k), itrStream := Some (cur, off)\<rparr>))"
          "stream_at segs cur off (drop (Suc k) (places_from 0 segs))"
        by (rule itr_read_next [OF inv(1) assms(2), of k ?itr]) (use inv itr True in \<open>auto split: if_splits\<close>)
      then show ?thesis using go None inv itr True lst by (auto simp: reader_inv_def)
    next
      case (Some b)
      then show ?thesis using go cache_get_inv [OF inv(3) small True Some] inv(1-3) itr True lst by (auto simp: reader_inv_def)
    qed
  next
    case False
    then show ?thesis using itr lst num by (simp add: itr_Next_def Let_def word_less_nat_alt)
  qed
qed

section \<open>Appending\<close>

lemma evict_frame: "evictOldestCachedBlock x = Ret y \<Longrightarrow> maxSeq y = maxSeq x \<and> cacheDisabled y = cacheDisabled x"
  by (auto simp: evictOldestCachedBlock_def Let_def split: option.splits)

lemma evict_loop_frame: "evict_loop x = Ret y \<Longrightarrow> maxSeq y = maxSeq x \<and> cacheDisabled y = cacheDisabled x"
proof (induction x arbitrary: y rule: evict_loop.induct)
  case (1 x)
  note step = "1.prems" [unfolded evict_loop.simps [of x]]
  show ?case
  proof (cases "int (maxSizeBytes x) < sizeBytes x")
    case True
    with step obtain z where z: "evictOldestCachedBlock x = Ret z" "evict_loop z = Ret y" by (auto split: go.splits)
    from "1.IH" [OF True z] evict_frame [OF z(1)] show ?thesis by simp
  qed (use step in simp)
qed

lemma cache_put_maxSeq:
  assumes "cache_put b n ca = Ret ca'" "\<not> cacheDisabled ca" "maxSeq ca \<le> Number (BHeader b)"
  shows "maxSeq ca' = Number (BHeader b) \<and> \<not> cacheDisabled ca'"
proof -
  have "\<not> Number (BHeader b) < maxSeq ca" using assms(3) by simp
  with assms(1,2) have "evict_loop (ca\<lparr>maxSeq := Number (BHeader b), sizeBytes := sizeBytes ca + int n,
      cacheMap := AList.update (Number (BHeader b)) (b, n) (cacheMap ca)\<rparr>) = Ret ca'"
    unfolding cache_put_def Let_def by (simp split: if_split_asm)
  from evict_loop_frame [OF this] assms(2) show ?thesis by simp
qed

lemma cache_put_disabled: "cache_put b n ca = Ret ca' \<Longrightarrow> cacheDisabled ca' = cacheDisabled ca"
  by (auto simp: cache_put_def Let_def dest: evict_loop_frame split: if_splits)

lemma addBlock_disabled: "addBlock c conf io b s = Ret (err, s') \<Longrightarrow> cacheDisabled (blockCache s') = cacheDisabled (blockCache s)"
  by (auto simp: addBlock_def Let_def result_simps case_prod_beta dest: cache_put_disabled split: if_splits)

lemma newBlockStore_enabled: "newBlockStore c conf fs db = Ret (Inr s) \<Longrightarrow> \<not> cacheDisabled (blockCache s)"
  by (auto simp: newBlockStore_def result_simps newCache_def defaultBlockCacheSizeBytes_def)

lemma addBlock_segs:
  assumes inv: "store_inv c conf segs (fileMgr s)" "cache_inv (concat segs) (blockCache s)" and conf: "conf_ok conf"
    and room: "room conf (fileMgr s) b" and nxt: "next_ok c (concat segs) b"
  obtains s' segs' where "addBlock c conf IoOk b s = Ret (None, s')" "store_inv c conf segs' (fileMgr s')"
    "concat segs' = concat segs @ [b]" "grows segs segs'" "cache_inv (concat segs @ [b]) (blockCache s')"
proof -
  obtain m' segs' where w: "writeBlock c conf IoOk b (fileMgr s) = Ret (None, m')" "store_inv c conf segs' m'"
      "concat segs' = concat segs @ [b]" "grows segs segs'"
    using addBlock_appends [OF inv(1) conf room nxt] by blast
  have hdr: "Number (BHeader b) = bcHeight (fileMgr s)" "PreviousHash (BHeader b) = bcCurrentHash (fileMgr s)"
    using inv(1) nxt by (simp_all add: store_inv_def next_ok_def)
  have st: "storable conf b" and len: "length (concat segs) + 1 < 2 ^ 62"
    using room height_of [OF inv(1)] by (simp_all add: room_def)
  obtain info where "serializeBlock c b = Ret (bbytes b, info)" using serialize_storable [OF st] by blast
  moreover obtain ca where "cache_put b (length (bbytes b)) (blockCache s) = Ret ca" "cache_inv (concat segs @ [b]) ca"
    using cache_put_next [OF inv(2) _ len, of b] nxt by (auto simp: next_ok_def)
  ultimately show thesis using that [of "\<lparr>fileMgr = m', blockCache = ca\<rparr>" segs'] w hdr by (simp add: addBlock_def Let_def)
qed

text \<open>The blocks that can follow those of a ledger, and the ledgers whose files were all needed: a failed
  write may leave an empty file behind.\<close>

definition fits :: "codec \<Rightarrow> store_conf \<Rightarrow> block list \<Rightarrow> block \<Rightarrow> bool" where
  "fits c conf bs b \<longleftrightarrow> storable conf b \<and> next_ok c bs b \<and> length bs + 2 < 2 ^ 62 \<and>
     (bs = [] \<longrightarrow> length (frame b) \<le> maxBlockfileSize conf)"

definition holds :: "codec \<Rightarrow> store_conf \<Rightarrow> block list \<Rightarrow> block_store \<Rightarrow> bool" where
  "holds c conf bs s \<longleftrightarrow> conf_ok conf \<and> ledger_inv c conf bs s \<and> latestFileNumber (mInfo (fileMgr s)) \<le> length bs"

lemma fits_room:
  assumes "store_inv c conf segs m" "fits c conf (concat segs) b" "latestFileNumber (mInfo m) \<le> length (concat segs)"
  shows "room conf m b" "next_ok c (concat segs) b"
proof -
  show "next_ok c (concat segs) b" using assms(2) by (simp add: fits_def)
  have "unat (bcHeight m) = length (concat segs)" by (rule height_of [OF assms(1)])
  moreover have "noBlockFiles (mInfo m) = (concat segs = [])" using assms(1) by (auto simp: store_inv_def info_of_def)
  ultimately show "room conf m b" using assms(2,3) by (auto simp: room_def fits_def)
qed

lemma reader_step:
  assumes r: "reader_inv c conf bs s k itr" and conf: "conf_ok conf" and fit: "fits c conf bs b"
    and few: "latestFileNumber (mInfo (fileMgr s)) \<le> length bs"
  shows "\<exists>s'. addBlock c conf IoOk b s = Ret (None, s') \<and> reader_inv c conf (bs @ [b]) s' k itr"
proof -
  obtain segs where inv: "store_inv c conf segs (fileMgr s)" "cache_inv (concat segs) (blockCache s)" and bs: "bs = concat segs"
    and at: "\<And>cur off. itrStream itr = Some (cur, off) \<Longrightarrow> stream_at segs cur off (drop k (places_from 0 segs))"
    and k: "k \<le> length (concat segs)"
    using r by (auto simp: reader_inv_def)
  note room = fits_room [OF inv(1) fit [unfolded bs] few [unfolded bs]]
  show ?thesis
  proof (rule addBlock_segs [OF inv conf room])
    fix s' segs'
    assume s': "addBlock c conf IoOk b s = Ret (None, s')" "store_inv c conf segs' (fileMgr s')" "concat segs' = concat segs @ [b]"
      "grows segs segs'" "cache_inv (concat segs @ [b]) (blockCache s')"
    moreover have "stream_at segs' cur off (drop k (places_from 0 segs'))" if "itrStream itr = Some (cur, off)" for cur off
      by (rule stream_at_grows [OF s'(4) at [OF that] k])
    ultimately show ?thesis using r by (auto simp: reader_inv_def bs)
  qed
qed

lemma holds_append:
  assumes "holds c conf bs s" "fits c conf bs b"
  shows "\<exists>s'. addBlock c conf IoOk b s = Ret (None, s') \<and> holds c conf (bs @ [b]) s'"
proof -
  obtain segs where inv: "store_inv c conf segs (fileMgr s)" "cache_inv (concat segs) (blockCache s)" and bs: "bs = concat segs"
    using assms(1) by (auto simp: holds_def ledger_inv_def)
  have few: "latestFileNumber (mInfo (fileMgr s)) \<le> length (concat segs)" and conf: "conf_ok conf"
    using assms(1) bs by (simp_all add: holds_def)
  note room = fits_room [OF inv(1) assms(2) [unfolded bs] few]
  show ?thesis
  proof (rule addBlock_segs [OF inv conf room])
    fix s' segs'
    assume s': "addBlock c conf IoOk b s = Ret (None, s')" "store_inv c conf segs' (fileMgr s')" "concat segs' = concat segs @ [b]"
      "grows segs segs'" "cache_inv (concat segs @ [b]) (blockCache s')"
    have "mInfo (fileMgr s) = info_of segs" "mInfo (fileMgr s') = info_of segs'"
      using inv(1) s'(2) by (simp_all add: store_inv_def)
    then have "latestFileNumber (mInfo (fileMgr s')) \<le> Suc (latestFileNumber (mInfo (fileMgr s)))"
      using grows_length [OF s'(4)] by (simp add: info_of_def)
    with few have "latestFileNumber (mInfo (fileMgr s')) \<le> length (concat segs @ [b])" by simp
    moreover have "ledger_inv c conf (concat segs @ [b]) s'" unfolding ledger_inv_def using s'(2,3,5) by blast
    ultimately show ?thesis unfolding holds_def bs using s'(1) conf by blast
  qed
qed

section \<open>The interface of an append-only log\<close>

text \<open>Appending a list of entries, one after the other; the first error stops it.\<close>

fun append_all :: "('b \<Rightarrow> 's \<Rightarrow> (error option \<times> 's) go) \<Rightarrow> 'b list \<Rightarrow> 's \<Rightarrow> (error option \<times> 's) go" where
  "append_all add [] s = Ret (None, s)"
| "append_all add (b # bs) s = bind_go (add b s) (\<lambda>(err, s'). case err of Some e \<Rightarrow> Ret (Some e, s') | None \<Rightarrow> append_all add bs s')"

text \<open>Each entry of a list may follow those before it.\<close>

fun may_follow_all :: "('b list \<Rightarrow> 'b \<Rightarrow> bool) \<Rightarrow> 'b list \<Rightarrow> 'b list \<Rightarrow> bool" where
  "may_follow_all ok bs [] = True"
| "may_follow_all ok bs (x # xs) = (ok bs x \<and> may_follow_all ok (bs @ [x]) xs)"

locale append_log =
  fixes contains :: "'b list \<Rightarrow> 's \<Rightarrow> bool"
    and add :: "'b \<Rightarrow> 's \<Rightarrow> (error option \<times> 's) go"
    and get :: "'s \<Rightarrow> nat \<Rightarrow> (error + 'b) go"
    and may_follow :: "'b list \<Rightarrow> 'b \<Rightarrow> bool"
  assumes add: "contains bs s \<Longrightarrow> may_follow bs b \<Longrightarrow> \<exists>s'. add b s = Ret (None, s') \<and> contains (bs @ [b]) s'"
    and get: "contains bs s \<Longrightarrow> i < length bs \<Longrightarrow> get s i = Ret (Inr (bs ! i))"
begin

lemma append_all_contains:
  "contains bs s \<Longrightarrow> may_follow_all may_follow bs xs \<Longrightarrow> \<exists>s'. append_all add xs s = Ret (None, s') \<and> contains (bs @ xs) s'"
proof (induction xs arbitrary: bs s)
  case Nil
  then show ?case by simp
next
  case (Cons x xs)
  then obtain s1 where s1: "add x s = Ret (None, s1)" "contains (bs @ [x]) s1" using add by fastforce
  from Cons.IH [OF s1(2)] Cons.prems(2) s1(1) show ?case by simp
qed

text \<open>What is read after the appends is what was appended, and entries that were there before are unchanged.\<close>

lemma read_back:
  assumes "contains bs s" "may_follow_all may_follow bs xs" "i < length (bs @ xs)"
  shows "\<exists>s'. append_all add xs s = Ret (None, s') \<and> get s' i = Ret (Inr ((bs @ xs) ! i))"
  using append_all_contains [OF assms(1,2)] get assms(3) by blast

lemma earlier_unchanged:
  assumes "contains bs s" "may_follow_all may_follow bs xs" "append_all add xs s = Ret (None, s')" "i < length bs"
  shows "get s' i = get s i"
  using append_all_contains [OF assms(1,2)] assms(1,3,4) get by (fastforce simp: nth_append)

end

lemma holds_retrieve:
  assumes "holds c conf bs s" "i < length bs"
  shows "RetrieveBlockByNumber c conf s (of_nat i) = Ret (Inr (bs ! i))"
  using assms retrieve_by_number [of c conf _ "fileMgr s" i] by (auto simp: holds_def ledger_inv_def RetrieveBlockByNumber_def)

interpretation file_log: append_log "holds c conf" "Append c conf IoOk" "\<lambda>s i. RetrieveBlockByNumber c conf s (of_nat i)" "fits c conf"
  for c conf
proof unfold_locales
  show "\<exists>s'. Append c conf IoOk b s = Ret (None, s') \<and> holds c conf (bs @ [b]) s'" if "holds c conf bs s" "fits c conf bs b" for bs s b
    using holds_append [OF that] by (simp add: Append_def)
qed (rule holds_retrieve)

lemma newCache_inv: "cache_inv bs (newCache n)"
  unfolding cache_inv_def by (rule disjI2, rule exI [of _ "length bs"]) (simp add: cache_from_def newCache_def)

lemma newBlockStore_holds:
  assumes "conf_ok conf"
  shows "\<exists>s. newBlockStore c conf [] [] = Ret (Inr s) \<and> holds c conf [] s"
proof -
  obtain m where m: "newBlockfileMgr c conf [] [] = Ret (Inr m)" "store_inv c conf [[]] m"
    using newBlockfileMgr_fresh [OF assms] by blast
  moreover have "latestFileNumber (mInfo m) = 0" using m(2) by (simp add: store_inv_def info_of_def)
  ultimately show ?thesis using m assms by (auto simp: newBlockStore_def holds_def ledger_inv_def newCache_inv intro!: exI [of _ "[[]]"])
qed

section \<open>A reader beside the writer\<close>

text \<open>An interleaving of appends and calls of \<open>Next\<close>; a call that blocks is repeated later.\<close>

datatype ledger_event = Commit block | Read

fun commits :: "ledger_event list \<Rightarrow> block list" where
  "commits [] = []"
| "commits (Commit b # es) = b # commits es"
| "commits (Read # es) = commits es"

type_synonym reader_state = "block_store \<times> blocks_itr \<times> block list"

fun ledger_step :: "codec \<Rightarrow> store_conf \<Rightarrow> ledger_event \<Rightarrow> reader_state \<Rightarrow> reader_state option" where
  "ledger_step c conf (Commit b) (s, itr, out) =
     (case Append c conf IoOk b s of Ret (None, s') \<Rightarrow> Some (s', itr, out) | _ \<Rightarrow> None)"
| "ledger_step c conf Read (s, itr, out) =
     (case itr_Next c conf s itr of
        Ret (Delivers b itr') \<Rightarrow> Some (s, itr', out @ [b])
      | Ret Waits \<Rightarrow> Some (s, itr, out)
      | _ \<Rightarrow> None)"

fun ledger_steps :: "codec \<Rightarrow> store_conf \<Rightarrow> ledger_event list \<Rightarrow> reader_state \<Rightarrow> reader_state option" where
  "ledger_steps c conf [] st = Some st"
| "ledger_steps c conf (e # es) st = Option.bind (ledger_step c conf e st) (ledger_steps c conf es)"

lemma ledger_steps_append:
  "ledger_steps c conf (es @ fs) st = Option.bind (ledger_steps c conf es st) (ledger_steps c conf fs)"
  by (induction es arbitrary: st) (auto split: bind_splits)

lemma commits_append [simp]: "commits (es @ fs) = commits es @ commits fs"
  by (induction es rule: commits.induct) auto

lemma commits_reads [simp]: "commits (replicate n Read) = []"
  by (induction n) auto

definition reading :: "codec \<Rightarrow> store_conf \<Rightarrow> block list \<Rightarrow> nat \<Rightarrow> nat \<Rightarrow> reader_state \<Rightarrow> bool" where
  "reading c conf bs k n st \<longleftrightarrow> (case st of (s, itr, out) \<Rightarrow>
     holds c conf bs s \<and> reader_inv c conf bs s (k + n) itr \<and> out = take n (drop k bs))"

lemma reading_commit:
  assumes "reading c conf bs k n st" "fits c conf bs b"
  shows "\<exists>st'. ledger_step c conf (Commit b) st = Some st' \<and> reading c conf (bs @ [b]) k n st'"
proof -
  obtain s itr where st: "st = (s, itr, take n (drop k bs))" "holds c conf bs s" "reader_inv c conf bs s (k + n) itr"
    using assms(1) by (auto simp: reading_def)
  obtain s' where s': "addBlock c conf IoOk b s = Ret (None, s')" "holds c conf (bs @ [b]) s'" using holds_append [OF st(2) assms(2)] by blast
  then have "reader_inv c conf (bs @ [b]) s' (k + n) itr"
    using reader_step [OF st(3) _ assms(2)] st(2) by (auto simp: holds_def)
  moreover have "k + n \<le> length bs" using st(3) by (simp add: reader_inv_def)
  ultimately show ?thesis using st s' by (auto simp: reading_def Append_def)
qed

lemma reading_read:
  assumes "reading c conf bs k n st"
  shows "\<exists>st'. ledger_step c conf Read st = Some st' \<and> reading c conf bs k (if k + n < length bs then Suc n else n) st'"
proof -
  obtain s itr where st: "st = (s, itr, take n (drop k bs))" "holds c conf bs s" "reader_inv c conf bs s (k + n) itr"
    using assms(1) by (auto simp: reading_def)
  have "conf_ok conf" using st(2) by (simp add: holds_def)
  note nxt = itr_Next_inv [OF st(3) this]
  show ?thesis
  proof (cases "k + n < length bs")
    case True
    with nxt obtain itr' where "itr_Next c conf s itr = Ret (Delivers (bs ! (k + n)) itr')" "reader_inv c conf bs s (Suc (k + n)) itr'" by auto
    moreover have "take (Suc n) (drop k bs) = take n (drop k bs) @ [bs ! (k + n)]" using True by (simp add: take_Suc_conv_app_nth)
    ultimately show ?thesis using st True by (simp add: reading_def)
  next
    case False
    with nxt st show ?thesis by (simp add: reading_def)
  qed
qed

section \<open>Properties\<close>

text \<open>A small ledger to apply them to: two blocks with a transaction each, and a hash with a short result.\<close>

definition short_codec :: codec where
  "short_codec = sample_codec\<lparr>sha256 := (\<lambda>_. [7])\<rparr>"

definition small_conf :: store_conf where
  "small_conf = \<lparr>maxBlockfileSize = 100, AttrsToIndex = [IndexableAttrBlockNum, IndexableAttrBlockNumTranNum],
     marshalTxIDIndexValue = (\<lambda>_. []), unmarshalTxIDIndexValue = (\<lambda>_. None)\<rparr>"

definition small_block :: "u64 \<Rightarrow> bytes \<Rightarrow> bytes \<Rightarrow> block" where
  "small_block n prev tx = \<lparr>BHeader = \<lparr>Number = n, PreviousHash = prev, DataHash = [5]\<rparr>, BData = Some [tx], BMetadata = Some (replicate 5 [])\<rparr>"

abbreviation (input) "block_0 \<equiv> small_block 0 [] [1, 2]"
abbreviation (input) "block_1 \<equiv> small_block 1 [7] [3]"

lemma small_conf_ok: "conf_ok small_conf"
  by (simp add: conf_ok_def small_conf_def)

lemma small_frames: "length (bbytes block_0) = 14" "length (bbytes block_1) = 14" "length (frame block_0) = 15"
  by code_simp+

lemma small_fits: "fits short_codec small_conf [] block_0" "fits short_codec small_conf [block_0] block_1"
  using small_frames
  by (simp_all add: fits_def storable_def next_ok_def tip_hash_def indexable_def small_conf_def)
    (simp_all add: small_block_def short_codec_def BlockHeaderHash_def items_of_def)

lemma small_ledger:
  "\<exists>s0 s1. newBlockStore short_codec small_conf [] [] = Ret (Inr s0) \<and> holds short_codec small_conf [] s0 \<and>
     Append short_codec small_conf IoOk block_0 s0 = Ret (None, s1) \<and> holds short_codec small_conf [block_0] s1 \<and> \<not> cacheDisabled (blockCache s1)"
  using newBlockStore_holds [OF small_conf_ok, of short_codec] file_log.add [OF _ small_fits(1)] newBlockStore_enabled addBlock_disabled
  by (fastforce simp: Append_def)

lemma ledger_inv_cache: "store_inv c conf segs m \<Longrightarrow> ledger_inv c conf (concat segs) \<lparr>fileMgr = m, blockCache = newCache n\<rparr>"
  unfolding ledger_inv_def using newCache_inv by auto

lemma restart:
  assumes "store_inv c conf segs m" "conf_ok conf"
  shows "\<exists>m'. newBlockfileMgr c conf (mDir m) (mDb m) = Ret (Inr m') \<and> store_inv c conf segs m'"
proof -
  have "segs \<noteq> []" using assms(1) by (simp add: store_inv_def segs_ok_def)
  then obtain pre s where segs: "segs = pre @ [s @ []]" by (metis append_Nil2 segs_snoc)
  show ?thesis
    by (rule newBlockfileMgr_recovers [OF _ segs _ assms(2) torn_layout_Nil torn_Nil, where n = "length (concat segs)"])
      (use assms(1) segs in \<open>simp_all add: store_inv_def\<close>)
qed

lemma addBlock_write_fault:
  assumes "holds c conf bs s" "fits c conf bs b" "io = LengthFails k \<or> io = DataFails k"
  shows "\<exists>e s'. addBlock c conf io b s = Ret (Some e, s') \<and> ledger_inv c conf bs s'"
proof -
  obtain segs where inv: "store_inv c conf segs (fileMgr s)" "cache_inv (concat segs) (blockCache s)" and bs: "bs = concat segs"
    using assms(1) by (auto simp: holds_def ledger_inv_def)
  have few: "latestFileNumber (mInfo (fileMgr s)) \<le> length (concat segs)" and conf: "conf_ok conf"
    using assms(1) bs by (simp_all add: holds_def)
  note room = fits_room [OF inv(1) assms(2) [unfolded bs] few]
  obtain e m' segs' where w: "writeBlock c conf io b (fileMgr s) = Ret (Some e, m')" "store_inv c conf segs' m'" "concat segs' = concat segs"
    using addBlock_fault [OF inv(1) conf room, of io k] assms(3) by auto
  then have "addBlock c conf io b s = Ret (Some e, s\<lparr>fileMgr := m'\<rparr>)" using assms(3) by (auto simp: addBlock_def)
  moreover have "ledger_inv c conf bs (s\<lparr>fileMgr := m'\<rparr>)" using w(2,3) inv(2) bs by (auto simp: ledger_inv_def)
  ultimately show ?thesis by blast
qed

lemma addBlock_refused:
  assumes "holds c conf bs s" "\<not> next_ok c bs b"
  shows "\<exists>e. addBlock c conf io b s = Ret (Some e, s)"
proof -
  obtain segs where inv: "store_inv c conf segs (fileMgr s)" and bs: "bs = concat segs"
    using assms(1) by (auto simp: holds_def ledger_inv_def)
  have "length (concat segs) < 2 ^ 64" using inv by (simp add: store_inv_def segs_ok_def)
  from addBlock_refuses [OF inv this] assms(2) bs obtain e where "writeBlock c conf io b (fileMgr s) = Ret (Some e, fileMgr s)" by auto
  moreover have "\<not> (Number (BHeader b) = bcHeight (fileMgr s) \<and> PreviousHash (BHeader b) = bcCurrentHash (fileMgr s))"
    using inv assms(2) bs by (auto simp: store_inv_def next_ok_def)
  ultimately show ?thesis by (auto simp: addBlock_def)
qed



text \<open>C26: What is read from the ledger is what was appended: after any list of blocks that form a chain has been
  appended to a new ledger, looking up each number returns the block with that number, and the height
  is the number of blocks.\<close>

theorem ledger_read_back:
  assumes "conf_ok conf" "may_follow_all (fits c conf) [] bs" "i < length bs"
  shows "\<exists>s0 s1. newBlockStore c conf [] [] = Ret (Inr s0) \<and> append_all (Append c conf IoOk) bs s0 = Ret (None, s1) \<and>
    RetrieveBlockByNumber c conf s1 (of_nat i) = Ret (Inr (bs ! i)) \<and> Height s1 = of_nat (length bs)"
proof -
  obtain s0 where s0: "newBlockStore c conf [] [] = Ret (Inr s0)" "holds c conf [] s0" using newBlockStore_holds [OF assms(1)] by blast
  obtain s1 where s1: "append_all (Append c conf IoOk) bs s0 = Ret (None, s1)" "holds c conf bs s1"
    using file_log.append_all_contains [OF s0(2) assms(2)] by auto
  then have "Height s1 = of_nat (length bs)" by (auto simp: holds_def ledger_inv_def store_inv_def Height_def)
  with s0(1) s1 file_log.get [OF s1(2) assms(3)] show ?thesis by blast
qed

theorem ledger_read_back_witness:
  "\<exists>s0 s1. newBlockStore short_codec small_conf [] [] = Ret (Inr s0) \<and>
     append_all (Append short_codec small_conf IoOk) [block_0, block_1] s0 = Ret (None, s1) \<and>
     RetrieveBlockByNumber short_codec small_conf s1 1 = Ret (Inr block_1)"
  using ledger_read_back [OF small_conf_ok, of short_codec "[block_0, block_1]" 1] small_fits by auto

text \<open>C12: A restart keeps the ledger. Opening the files of a store that holds the blocks \<open>bs\<close> gives a store with
  these blocks; and whenever the process stops in the middle of appending a further block, with any
  part of it written, the next start succeeds and finds either the blocks before or the blocks with
  the new one, never a part of it.\<close>

theorem restart_keeps_blocks:
  assumes "holds c conf bs s" "fits c conf bs b"
  shows "(\<exists>s'. newBlockStore c conf (mDir (fileMgr s)) (mDb (fileMgr s)) = Ret (Inr s') \<and> ledger_inv c conf bs s') \<and>
    (\<forall>fs db. crash_during c conf b (fileMgr s) fs db \<longrightarrow>
       (\<exists>s' bs'. newBlockStore c conf fs db = Ret (Inr s') \<and> ledger_inv c conf bs' s' \<and> (bs' = bs \<or> bs' = bs @ [b])))"
proof -
  obtain segs where inv: "store_inv c conf segs (fileMgr s)" and bs: "bs = concat segs"
    using assms(1) by (auto simp: holds_def ledger_inv_def)
  have few: "latestFileNumber (mInfo (fileMgr s)) \<le> length (concat segs)" and conf: "conf_ok conf"
    using assms(1) bs by (simp_all add: holds_def)
  note room = fits_room [OF inv assms(2) [unfolded bs] few]
  have "\<exists>s' bs'. newBlockStore c conf fs db = Ret (Inr s') \<and> ledger_inv c conf bs' s' \<and> (bs' = bs \<or> bs' = bs @ [b])"
    if "crash_during c conf b (fileMgr s) fs db" for fs db
    using crash_recovery [OF inv conf room that] ledger_inv_cache by (fastforce simp: newBlockStore_def bs)
  moreover have "\<exists>s'. newBlockStore c conf (mDir (fileMgr s)) (mDb (fileMgr s)) = Ret (Inr s') \<and> ledger_inv c conf bs s'"
    using restart [OF inv conf] ledger_inv_cache by (fastforce simp: newBlockStore_def bs)
  ultimately show ?thesis by blast
qed

theorem restart_keeps_blocks_witness:
  "\<exists>s1. holds short_codec small_conf [block_0] s1 \<and>
     (\<exists>s' bs'. newBlockStore short_codec small_conf
         (append_file (mDir (target small_conf (fileMgr s1) block_1))
           (latestFileNumber (mInfo (target small_conf (fileMgr s1) block_1))) (take 5 (frame block_1)))
         (mDb (target small_conf (fileMgr s1) block_1)) = Ret (Inr s') \<and>
       ledger_inv short_codec small_conf bs' s' \<and> (bs' = [block_0] \<or> bs' = [block_0, block_1]))"
proof -
  obtain s1 where s1: "holds short_codec small_conf [block_0] s1" using small_ledger by blast
  let ?t = "target small_conf (fileMgr s1) block_1"
  have "crash_during short_codec small_conf block_1 (fileMgr s1)
      (append_file (mDir ?t) (latestFileNumber (mInfo ?t)) (take 5 (frame block_1))) (mDb ?t)"
    by (rule crash_during.writing) (rule refl)
  with restart_keeps_blocks [OF s1 small_fits(2)] s1 show ?thesis by fastforce
qed

lemma reading_steps:
  assumes "reading c conf bs k n st" "may_follow_all (fits c conf) bs (commits es)"
  shows "\<exists>st' n'. ledger_steps c conf es st = Some st' \<and> reading c conf (bs @ commits es) k n' st'"
  using assms
proof (induction es arbitrary: bs n st)
  case Nil
  then show ?case by auto
next
  case (Cons e es)
  show ?case
  proof (cases e)
    case (Commit b)
    with Cons.prems reading_commit obtain st' where "ledger_step c conf e st = Some st'" "reading c conf (bs @ [b]) k n st'" by fastforce
    with Cons.IH [of "bs @ [b]" n st'] Cons.prems(2) Commit show ?thesis by simp
  next
    case Read
    with Cons.prems(1) reading_read obtain st' n' where "ledger_step c conf e st = Some st'" "reading c conf bs k n' st'" by blast
    with Cons.IH [of bs n' st'] Cons.prems(2) Read show ?thesis by simp
  qed
qed

lemma reading_rest:
  assumes "reading c conf bs k n st" "length bs - (k + n) \<le> m"
  shows "\<exists>st'. ledger_steps c conf (replicate m Read) st = Some st' \<and> reading c conf bs k (length bs - k) st'"
  using assms
proof (induction m arbitrary: n st)
  case 0
  then have "n = length bs - k" by (auto simp: reading_def reader_inv_def)
  with 0 show ?case by simp
next
  case (Suc m)
  from reading_read [OF Suc.prems(1)] obtain st' where st': "ledger_step c conf Read st = Some st'"
      "reading c conf bs k (if k + n < length bs then Suc n else n) st'" by blast
  have "length bs - (k + (if k + n < length bs then Suc n else n)) \<le> m" using Suc.prems(2) by auto
  from Suc.IH [OF st'(2) this] st'(1) show ?case by simp
qed

text \<open>C25: An iterator on a ledger delivers every block from its start on, in order and each once, whatever the
  interleaving of its \<open>Next\<close> calls with the appends of further blocks: what it has delivered is always
  a prefix of the blocks from its start, no call fails, and when \<open>Next\<close> has been called often enough after
  the last append, it has delivered all of them.\<close>

theorem iterator_delivers_all:
  assumes "holds c conf bs s" "bs \<noteq> []" "k \<le> length bs" "may_follow_all (fits c conf) bs (commits es)"
    and "length (bs @ commits es) - k \<le> m"
  shows "(\<exists>s' itr' n. ledger_steps c conf es (s, newBlockItr s (of_nat k), []) = Some (s', itr', take n (drop k (bs @ commits es)))) \<and>
    (\<exists>s' itr'. ledger_steps c conf (es @ replicate m Read) (s, newBlockItr s (of_nat k), []) = Some (s', itr', drop k (bs @ commits es)))"
proof -
  have "reader_inv c conf bs s k (newBlockItr s (of_nat k))"
    using newBlockItr_inv [OF _ assms(2,3)] assms(1) by (simp add: holds_def)
  then have "reading c conf bs k 0 (s, newBlockItr s (of_nat k), [])" using assms(1) by (simp add: reading_def)
  from reading_steps [OF this assms(4)] obtain st n where st: "ledger_steps c conf es (s, newBlockItr s (of_nat k), []) = Some st"
      "reading c conf (bs @ commits es) k n st" by blast
  have "length (bs @ commits es) - (k + n) \<le> m" using assms(5) by linarith
  from reading_rest [OF st(2) this] obtain st' where "ledger_steps c conf (replicate m Read) st = Some st'"
      "reading c conf (bs @ commits es) k (length (bs @ commits es) - k) st'" by blast
  with st show ?thesis by (cases st; cases st') (auto simp: reading_def ledger_steps_append)
qed

theorem iterator_delivers_all_witness:
  "\<exists>s1 s' itr'. holds short_codec small_conf [block_0] s1 \<and>
     ledger_steps short_codec small_conf ([Read, Read, Commit block_1] @ replicate 2 Read) (s1, newBlockItr s1 0, []) =
       Some (s', itr', [block_0, block_1])"
proof -
  obtain s1 where s1: "holds short_codec small_conf [block_0] s1" using small_ledger by blast
  from iterator_delivers_all [OF s1, of 0 "[Read, Read, Commit block_1]" 2] small_fits(2) s1 show ?thesis by fastforce
qed



lemma addBlock_twice:
  assumes "Number (BHeader b) = bcHeight m" "PreviousHash (BHeader b) = bcCurrentHash m"
    and "maxSeq ca = Number (BHeader b)" "Number (BHeader b) \<noteq> 0" "\<not> cacheDisabled ca"
  shows "\<exists>p. addBlock c conf IoOk b \<lparr>fileMgr = m, blockCache = ca\<rparr> = Panic p"
proof -
  have put: "\<exists>p. cache_put b n ca = Panic p" for n using assms(3-5) by (auto simp: cache_put_def Let_def)
  have "addBlock c conf IoOk b \<lparr>fileMgr = m, blockCache = ca\<rparr> = bind_go (writeBlock c conf IoOk b m) (\<lambda>(err, m').
      bind_go (serializeBlock c b) (\<lambda>(bs, _). bind_go (cache_put b (length bs) ca) (\<lambda>ca. Ret (err, \<lparr>fileMgr = m', blockCache = ca\<rparr>))))"
    using assms(1,2) by (simp add: addBlock_def)
  also have "\<exists>p. \<dots> = Panic p"
    using put by (cases "writeBlock c conf IoOk b m"; cases "serializeBlock c b") (auto simp: case_prod_beta, metis bind_go.simps(2))
  finally show ?thesis .
qed





text \<open>C35: Writing a block and reading the bytes gives the block, and the positions of its transactions that reading
  computes are those that writing recorded: at each of them the bytes of the transaction stand.\<close>

theorem serialization_round_trip:
  assumes "serializeBlock c b = Ret (buf, info)" "BData b = Some data" "BMetadata b = Some ms" "length buf < 2 ^ 64"
  shows "deserializeBlock c buf = Inr b \<and> extractSerializedBlockInfo c buf = Inr info \<and> length (siTxOffsets info) = length data \<and>
    (\<forall>j < length data. let t = siTxOffsets info ! j in take (txLength t) (drop (txOffset t) buf) = AppendBytes (data ! j))"
proof -
  have buf: "buf = block_bytes b data ms" and info: "info = \<lparr>siHeader = BHeader b,
      siTxOffsets = fst (add_transactions c data (data_start b data)), siMetadata = Some ms\<rparr>"
    using assms(1) serializeBlock_eq [OF assms(2,3), of c] by simp_all
  have "take (txLength t) (drop (txOffset t) buf) = AppendBytes (data ! j)"
    if j: "j < length data" and t: "t = siTxOffsets info ! j" for j t
  proof -
    obtain rest where "buf = (data_start b data @ items_bytes (take j data)) @ AppendBytes (data ! j) @ rest"
      using block_bytes_split [OF j, of b ms] unfolding buf by blast
    then show ?thesis unfolding t info by (simp add: add_transactions_nth [OF j])
  qed
  with deserialize_serialize [OF assms(2,3), of c] assms(4) info show ?thesis unfolding buf by (simp add: Let_def)
qed

theorem serialization_round_trip_witness:
  "\<exists>buf info. serializeBlock short_codec block_0 = Ret (buf, info) \<and> deserializeBlock short_codec buf = Inr block_0"
proof -
  have b: "BData block_0 = Some [[1, 2]]" "BMetadata block_0 = Some (replicate 5 [])" by (simp_all add: small_block_def)
  obtain buf info where ser: "serializeBlock short_codec block_0 = Ret (buf, info)" "length buf = 14"
    using serialize_storable [of small_conf block_0 short_codec] small_fits(1) small_frames(1) by (auto simp: fits_def)
  then have "length buf < 2 ^ 64" by simp
  from serialization_round_trip [OF ser(1) b this] ser(1) show ?thesis by blast
qed

section \<open>Eviction\<close>

text \<open>C28: The eviction loop ends. When the next block of the chain is put into the cache, the loop always finds the
  block it has to evict, and it ends with a cache within its limit that holds a suffix of the chain, the
  newest blocks, with the size it has recorded for them; a block that is larger than the whole cache
  leaves it empty.\<close>

theorem eviction_ends:
  assumes "cache_inv bs ca" "\<not> cacheDisabled ca" "Number (BHeader b) = of_nat (length bs)" "length bs + 1 < 2 ^ 62"
  shows "\<exists>ca' k. cache_put b (length (bbytes b)) ca = Ret ca' \<and> sizeBytes ca' \<le> int (maxSizeBytes ca) \<and> k \<le> Suc (length bs) \<and>
    cacheMap ca' = map (cache_entry (bs @ [b])) [k..<Suc (length bs)] \<and> sizeBytes ca' = cached_bytes (bs @ [b]) k"
proof -
  obtain ca' where ca': "cache_put b (length (bbytes b)) ca = Ret ca'" "cache_inv (bs @ [b]) ca'" "\<not> cacheDisabled ca'"
      "sizeBytes ca' \<le> int (maxSizeBytes ca)"
    using cache_put_next [OF assms(1,3,4)] assms(2) by blast
  then obtain k where "cache_from (bs @ [b]) k ca'" by (auto simp: cache_inv_def)
  with ca'(1,4) show ?thesis by (intro exI [of _ ca'] exI [of _ k]) (simp add: cache_from_def)
qed

theorem eviction_ends_witness:
  "\<exists>ca' k. cache_put block_0 (length (bbytes block_0)) (newCache 10) = Ret ca' \<and> sizeBytes ca' \<le> 10 \<and>
     cacheMap ca' = map (cache_entry [block_0]) [k..<1]"
proof -
  have "Number (BHeader block_0) = of_nat (length ([] :: block list))" by (simp add: small_block_def)
  with eviction_ends [OF newCache_inv, of 10 block_0 "[]"] show ?thesis by (auto simp: newCache_def)
qed

end
