(* ===== verification/Block_Writer.thy ===== *)
theory Block_Writer
  imports Admission File_Ledger
begin

text \<open>
  The block writer of a channel, \<^verbatim>\<open>orderer/common/multichannel/blockwriter.go\<close>: it builds the next
  block of the chain from a batch, records the number of the last configuration block in it, signs
  it, and appends it to the ledger, for a normal block in a go-routine of its own.

  The state holds what the writer shares with the channel: the ledger and the current bundle. A
  pending commit is the metadata of the go-routine that holds the committing lock; \<open>finish\<close> is the
  rest of that go-routine, and taking the lock runs it first.
\<close>

section \<open>The writer\<close>

text \<open>The environment of the orderer, the configuration of its storage, and for each block number the
  outcome of the disk operations and the random bytes that are drawn while that block is committed.\<close>

record 'id writer_env =
  oEnv :: "'id orderer_env"
  storeConf :: store_conf
  disk :: "u64 \<Rightarrow> io_outcome"
  nonces :: "u64 \<Rightarrow> error + bytes"

record block_writer =
  lastConfigBlockNum :: u64
  lastConfigSeq :: u64
  lastBlock :: block
  committing :: "bytes option"
  wLedger :: block_store
  wBundle :: Bundle

abbreviation (input) "wCodec e \<equiv> pCodec (oEnv e)"

definition Sequence :: "block_writer \<Rightarrow> u64" where
  "Sequence bw = sequence (configtxManager (wBundle bw))"

definition newBlockWriter :: "codec \<Rightarrow> block \<Rightarrow> block_store \<Rightarrow> Bundle \<Rightarrow> block_writer go" where
  "newBlockWriter c lastBlk led bdl =
     (let bw = \<lparr>lastConfigBlockNum = 0, lastConfigSeq = sequence (configtxManager bdl), lastBlock = lastBlk, committing = None,
                wLedger = led, wBundle = bdl\<rparr>
      in if Number (BHeader lastBlk) \<noteq> 0 then
           bind_go (GetLastConfigIndexFromBlock c lastBlk) (\<lambda>r.
             case r of
               Inl _ \<Rightarrow> Panic ''Error extracting last config block from block metadata''
             | Inr n \<Rightarrow> Ret (bw\<lparr>lastConfigBlockNum := n\<rparr>))
         else Ret bw)"

definition CreateNextBlock :: "codec \<Rightarrow> block_writer \<Rightarrow> envelope list \<Rightarrow> block" where
  "CreateNextBlock c bw messages =
     (let data = map (marshalEnvelope c) messages;
          b = NewBlock (Number (BHeader (lastBlock bw)) + 1) (BlockHeaderHash c (BHeader (lastBlock bw)))
      in b\<lparr>BHeader := (BHeader b)\<lparr>DataHash := ComputeBlockDataHash c data\<rparr>, BData := Some data\<rparr>)"

text \<open>\<open>block.Metadata.Metadata[i] = v\<close>\<close>

definition set_metadata :: "block \<Rightarrow> nat \<Rightarrow> bytes \<Rightarrow> block go" where
  "set_metadata b i v =
     (case BMetadata b of
        None \<Rightarrow> Panic ''nil pointer dereference''
      | Some ms \<Rightarrow> if i < length ms then Ret (b\<lparr>BMetadata := Some (ms[i := v])\<rparr>) else Panic ''index out of range'')"

definition addLastConfig :: "codec \<Rightarrow> block_writer \<Rightarrow> block_writer go" where
  "addLastConfig c bw =
     (let configSeq = Sequence bw;
          bw = (if lastConfigSeq bw < configSeq
                then bw\<lparr>lastConfigBlockNum := Number (BHeader (lastBlock bw)), lastConfigSeq := configSeq\<rparr> else bw);
          v = marshalMetadata c \<lparr>MdValue = marshalLastConfig c (lastConfigBlockNum bw), MdSignatures = []\<rparr>
      in bind_go (set_metadata (lastBlock bw) BlockMetadataIndex_LAST_CONFIG v) (\<lambda>b. Ret (bw\<lparr>lastBlock := b\<rparr>)))"

definition NewSignatureHeaderOrPanic :: "signer \<Rightarrow> error + bytes \<Rightarrow> signature_header go" where
  "NewSignatureHeaderOrPanic sg nonce =
     (case NewSignatureHeader sg nonce of Inl _ \<Rightarrow> Panic ''failed generating a new SignatureHeader'' | Inr sh \<Rightarrow> Ret sh)"

definition SignOrPanic :: "signer \<Rightarrow> bytes \<Rightarrow> bytes go" where
  "SignOrPanic sg msg = (case Sign sg msg of Inl _ \<Rightarrow> Panic ''failed generating signature'' | Inr s \<Rightarrow> Ret s)"

definition addBlockSignature :: "'id writer_env \<Rightarrow> bytes \<Rightarrow> block_writer \<Rightarrow> block_writer go" where
  "addBlockSignature e consenterMetadata bw =
     (let c = wCodec e; b = lastBlock bw in
      bind_go (NewSignatureHeaderOrPanic (OrdererSigner (oEnv e)) (nonces e (Number (BHeader b)))) (\<lambda>sh.
        let header = marshalSignatureHeader (Builder (oEnv e)) sh;
            v = marshalOBM c \<lparr>ObmLastConfig = Some (lastConfigBlockNum bw),
                  ObmConsenterMetadata = marshalMetadata c \<lparr>MdValue = consenterMetadata, MdSignatures = []\<rparr>\<rparr>
        in bind_go (SignOrPanic (OrdererSigner (oEnv e)) (v @ header @ BlockHeaderBytes c (BHeader b))) (\<lambda>sig.
           bind_go (set_metadata b BlockMetadataIndex_SIGNATURES
                      (marshalMetadata c \<lparr>MdValue = v,
                         MdSignatures = [\<lparr>MsSignatureHeader = header, MsIdentifierHeader = [], MsSignature = sig\<rparr>]\<rparr>)) (\<lambda>b.
             Ret (bw\<lparr>lastBlock := b\<rparr>)))))"

text \<open>The read of the signatures slot panics as the assignment does; \<open>addLastConfig\<close> has checked the metadata
  for a larger index.\<close>

definition commitBlock :: "'id writer_env \<Rightarrow> bytes \<Rightarrow> block_writer \<Rightarrow> block_writer go" where
  "commitBlock e encodedMetadataValue bw =
     bind_go (addLastConfig (wCodec e) bw) (\<lambda>bw.
     bind_go (case BMetadata (lastBlock bw) of
                Some (sigs # _) \<Rightarrow> if length sigs = 0 then addBlockSignature e encodedMetadataValue bw else Ret bw
              | _ \<Rightarrow> Panic ''index out of range'') (\<lambda>bw.
     bind_go (Append (wCodec e) (storeConf e) (disk e (Number (BHeader (lastBlock bw)))) (lastBlock bw) (wLedger bw)) (\<lambda>(err, led).
       case err of
         Some _ \<Rightarrow> Panic ''Could not append block''
       | None \<Rightarrow> Ret (bw\<lparr>wLedger := led\<rparr>))))"

text \<open>The go-routine that holds the lock, if there is one, runs to its end.\<close>

definition finish :: "'id writer_env \<Rightarrow> block_writer \<Rightarrow> block_writer go" where
  "finish e bw =
     (case committing bw of
        None \<Rightarrow> Ret bw
      | Some md \<Rightarrow> bind_go (commitBlock e md bw) (\<lambda>bw. Ret (bw\<lparr>committing := None\<rparr>)))"

definition WriteBlock :: "'id writer_env \<Rightarrow> block \<Rightarrow> bytes \<Rightarrow> block_writer \<Rightarrow> block_writer go" where
  "WriteBlock e b encodedMetadataValue bw =
     bind_go (finish e bw) (\<lambda>bw. Ret (bw\<lparr>lastBlock := b, committing := Some encodedMetadataValue\<rparr>))"

definition WriteBlockSync :: "'id writer_env \<Rightarrow> block \<Rightarrow> bytes \<Rightarrow> block_writer \<Rightarrow> block_writer go" where
  "WriteBlockSync e b encodedMetadataValue bw =
     bind_go (finish e bw) (\<lambda>bw. commitBlock e encodedMetadataValue (bw\<lparr>lastBlock := b\<rparr>))"

text \<open>\<open>SharedConfig\<close> panics without an orderer section.\<close>

definition SharedConfig :: "Bundle \<Rightarrow> orderer_config go" where
  "SharedConfig b = (case OrdererConfig b of None \<Rightarrow> Panic ''has no orderer configuration'' | Some oc \<Rightarrow> Ret oc)"

definition or_panic :: "string \<Rightarrow> error + 'a \<Rightarrow> 'a go" where
  "or_panic msg r = (case r of Inl _ \<Rightarrow> Panic msg | Inr x \<Rightarrow> Ret x)"

definition WriteConfigBlock :: "'id writer_env \<Rightarrow> block \<Rightarrow> bytes \<Rightarrow> block_writer \<Rightarrow> block_writer go" where
  "WriteConfigBlock e b encodedMetadataValue bw =
     (let c = wCodec e; cc = pConfigCodec (oEnv e) in
      bind_go (or_panic ''could not get configtx'' (ExtractEnvelope c b 0)) (\<lambda>ctx.
      bind_go (or_panic ''configtx payload is invalid'' (UnmarshalPayload c (slice (Payload ctx)))) (\<lambda>p.
      case Header p of
        None \<Rightarrow> Panic ''configtx payload header is missing''
      | Some h \<Rightarrow>
        bind_go (or_panic ''invalid channel header'' (UnmarshalChannelHeader c (slice (ChannelHeaderBytes h)))) (\<lambda>chdr.
        if HdrType chdr = HeaderType_ORDERER_TRANSACTION then Panic ''the system channel is no longer supported''
        else if HdrType chdr = HeaderType_CONFIG then
          (case unmarshalConfigEnvelope cc (Data p) of
             None \<Rightarrow> Panic ''did not have config envelope encoded''
           | Some configEnvelope \<Rightarrow>
             bind_go (Validate c cc (bundle_msp (oEnv e) (wBundle bw)) (configtxManager (wBundle bw)) (Some configEnvelope)) (\<lambda>err.
             if err \<noteq> None then Panic ''could not apply it''
             else bind_go (bind_go (NewBundle (oEnv e) (ChannelId chdr) (CeConfig configEnvelope))
                                   (or_panic ''could not convert it to a bundle'')) (\<lambda>bdl.
             case OrdererConfig bdl of
               None \<Rightarrow> Panic ''OrdererConfig missing from bundle''
             | Some oc \<Rightarrow>
               bind_go (SharedConfig (wBundle bw)) (\<lambda>current.
               let md = (if ConsensusType current \<noteq> ConsensusType oc then [] else encodedMetadataValue) in
               bind_go (finish e bw) (\<lambda>bw.
               bind_go (Update bdl) (\<lambda>bdl.
                 WriteBlockSync e b md (bw\<lparr>wBundle := bdl\<rparr>)))))))
        else Panic ''unknown header type''))))"


section \<open>The block that a commit produces\<close>

text \<open>The signature header of the orderer and the signed bytes.\<close>

definition signature_header_of :: "'id writer_env \<Rightarrow> u64 \<Rightarrow> error + bytes" where
  "signature_header_of e n =
     bind_err (NewSignatureHeader (OrdererSigner (oEnv e)) (nonces e n)) (\<lambda>sh. Inr (marshalSignatureHeader (Builder (oEnv e)) sh))"

definition orderer_metadata :: "codec \<Rightarrow> u64 \<Rightarrow> bytes \<Rightarrow> bytes" where
  "orderer_metadata c n md = marshalOBM c \<lparr>ObmLastConfig = Some n, ObmConsenterMetadata = marshalMetadata c \<lparr>MdValue = md, MdSignatures = []\<rparr>\<rparr>"

definition signed_bytes :: "'id writer_env \<Rightarrow> bytes \<Rightarrow> u64 \<Rightarrow> bytes \<Rightarrow> block_header \<Rightarrow> bytes" where
  "signed_bytes e md n header h = orderer_metadata (wCodec e) n md @ header @ BlockHeaderBytes (wCodec e) h"

text \<open>A new block with the number \<open>n\<close> of the last configuration block and the signature of the orderer; an
  error is a failure to draw the nonce or to sign.\<close>

definition seal :: "'id writer_env \<Rightarrow> bytes \<Rightarrow> u64 \<Rightarrow> block \<Rightarrow> error + block" where
  "seal e md n b =
     (let c = wCodec e in
      bind_err (signature_header_of e (Number (BHeader b))) (\<lambda>header.
      bind_err (Sign (OrdererSigner (oEnv e)) (signed_bytes e md n header (BHeader b))) (\<lambda>sig.
        Inr (b\<lparr>BMetadata := Some
          [marshalMetadata c \<lparr>MdValue = orderer_metadata c n md,
             MdSignatures = [\<lparr>MsSignatureHeader = header, MsIdentifierHeader = [], MsSignature = sig\<rparr>]\<rparr>,
           marshalMetadata c \<lparr>MdValue = marshalLastConfig c n, MdSignatures = []\<rparr>, [], [], []]\<rparr>))))"

definition unsealed :: "block \<Rightarrow> bool" where
  "unsealed b \<longleftrightarrow> BMetadata b = Some (replicate 5 [])"

lemma CreateNextBlock_facts:
  "unsealed (CreateNextBlock c bw ms)" "Number (BHeader (CreateNextBlock c bw ms)) = Number (BHeader (lastBlock bw)) + 1"
  "PreviousHash (BHeader (CreateNextBlock c bw ms)) = BlockHeaderHash c (BHeader (lastBlock bw))"
  "BData (CreateNextBlock c bw ms) = Some (map (marshalEnvelope c) ms)"
  "DataHash (BHeader (CreateNextBlock c bw ms)) = ComputeBlockDataHash c (map (marshalEnvelope c) ms)"
  by (simp_all add: CreateNextBlock_def NewBlock_def unsealed_def Let_def)

lemma seal_facts:
  assumes "seal e md n b = Inr b'"
  obtains header sig where "BHeader b' = BHeader b" "BData b' = BData b" "signature_header_of e (Number (BHeader b)) = Inr header"
    "Sign (OrdererSigner (oEnv e)) (signed_bytes e md n header (BHeader b)) = Inr sig"
    "BMetadata b' = Some [marshalMetadata (wCodec e) \<lparr>MdValue = orderer_metadata (wCodec e) n md,
       MdSignatures = [\<lparr>MsSignatureHeader = header, MsIdentifierHeader = [], MsSignature = sig\<rparr>]\<rparr>,
     marshalMetadata (wCodec e) \<lparr>MdValue = marshalLastConfig (wCodec e) n, MdSignatures = []\<rparr>, [], [], []]"
  using assms by (auto simp: seal_def Let_def result_simps)

text \<open>The number of the last configuration block that a commit writes into its block.\<close>

definition config_num :: "block_writer \<Rightarrow> u64" where
  "config_num bw = (if lastConfigSeq bw < Sequence bw then Number (BHeader (lastBlock bw)) else lastConfigBlockNum bw)"

lemma commitBlock_eq:
  assumes "unsealed (lastBlock bw)" "seal e md (config_num bw) (lastBlock bw) = Inr b'"
  shows "commitBlock e md bw =
    bind_go (Append (wCodec e) (storeConf e) (disk e (Number (BHeader (lastBlock bw)))) b' (wLedger bw)) (\<lambda>(err, led).
      case err of Some _ \<Rightarrow> Panic ''Could not append block''
      | None \<Rightarrow> Ret (bw\<lparr>lastConfigBlockNum := config_num bw, lastConfigSeq := max (lastConfigSeq bw) (Sequence bw), lastBlock := b',
                        wLedger := led\<rparr>))"
proof (rule seal_facts [OF assms(2)])
  fix header sig
  let ?b = "lastBlock bw" and ?c = "wCodec e"
  let ?lc = "marshalMetadata ?c \<lparr>MdValue = marshalLastConfig ?c (config_num bw), MdSignatures = []\<rparr>"
  let ?bw = "bw\<lparr>lastConfigBlockNum := config_num bw, lastConfigSeq := max (lastConfigSeq bw) (Sequence bw),
      lastBlock := ?b\<lparr>BMetadata := Some [[], ?lc, [], [], []]\<rparr>\<rparr>"
  assume f: "BHeader b' = BHeader ?b" "BData b' = BData ?b" "signature_header_of e (Number (BHeader ?b)) = Inr header"
    "Sign (OrdererSigner (oEnv e)) (signed_bytes e md (config_num bw) header (BHeader ?b)) = Inr sig"
    "BMetadata b' = Some [marshalMetadata ?c \<lparr>MdValue = orderer_metadata ?c (config_num bw) md,
       MdSignatures = [\<lparr>MsSignatureHeader = header, MsIdentifierHeader = [], MsSignature = sig\<rparr>]\<rparr>, ?lc, [], [], []]"
  have five: "replicate 5 [] = [[], [], [], [], [] :: bytes]" by (simp add: numeral_eq_Suc)
  have lc: "addLastConfig ?c bw = Ret ?bw"
    using assms(1) unfolding unsealed_def five
    by (simp add: addLastConfig_def Let_def set_metadata_def config_num_def max_def not_less less_imp_le)
  obtain sh where sh: "NewSignatureHeader (OrdererSigner (oEnv e)) (nonces e (Number (BHeader ?b))) = Inr sh"
      "header = marshalSignatureHeader (Builder (oEnv e)) sh"
    using f(3) by (auto simp: signature_header_of_def result_simps)
  have b': "?b\<lparr>BMetadata := BMetadata b'\<rparr> = b'" using f(1,2) by (cases b'; cases ?b) simp
  have "addBlockSignature e md ?bw = Ret (?bw\<lparr>lastBlock := b'\<rparr>)"
    using sh f(4) b' [unfolded f(5)]
    by (simp add: addBlockSignature_def Let_def NewSignatureHeaderOrPanic_def SignOrPanic_def set_metadata_def
        signed_bytes_def orderer_metadata_def)
  with lc f(1) show ?thesis by (simp add: commitBlock_def)
qed

section \<open>Writing\<close>

text \<open>The storage of an orderer is not indexed by transaction identifier.\<close>

definition env_ok :: "'id writer_env \<Rightarrow> bool" where
  "env_ok e \<longleftrightarrow> IndexableAttrTxID \<notin> set (AttrsToIndex (storeConf e)) \<and> (\<forall>n. disk e n = IoOk)"

text \<open>The writer when its chain is \<open>bs\<close>: once the pending commit is finished, the ledger holds these blocks.\<close>

definition writer_at :: "'id writer_env \<Rightarrow> block list \<Rightarrow> block_writer \<Rightarrow> bool" where
  "writer_at e bs bw \<longleftrightarrow> bs \<noteq> [] \<and> BHeader (lastBlock bw) = BHeader (last bs) \<and>
     lastConfigSeq bw = Sequence bw \<and> OrdererConfig (wBundle bw) \<noteq> None \<and>
     (\<exists>led b. finish e bw = Ret (bw\<lparr>lastBlock := b, committing := None, wLedger := led\<rparr>) \<and> BHeader b = BHeader (last bs) \<and>
        holds (wCodec e) (storeConf e) bs led)"

lemma sealed_fits:
  assumes "seal e md n b = Inr b'" "next_ok c bs b" "BData b \<noteq> None" "bs \<noteq> []" "env_ok e" "length (bbytes b') < 2 ^ 56"
    and "length bs + 2 < 2 ^ 62"
  shows "fits c (storeConf e) bs b'"
proof (rule seal_facts [OF assms(1)])
  assume "BHeader b' = BHeader b" "BData b' = BData b"
  moreover have "indexable (storeConf e) (BMetadata b') (length (items_of (BData b')))"
    by (rule seal_facts [OF assms(1)]) (use assms(5) in \<open>simp add: indexable_def env_ok_def\<close>)
  ultimately show ?thesis using assms(2-4,6,7) by (simp add: fits_def storable_def next_ok_def)
qed

text \<open>Committing a new block at the end of the chain.\<close>

lemma commit_next:
  assumes "holds (wCodec e) (storeConf e) bs (wLedger bw)" "env_ok e" "unsealed (lastBlock bw)"
    and "seal e md (config_num bw) (lastBlock bw) = Inr b'" "fits (wCodec e) (storeConf e) bs b'"
  shows "\<exists>led. commitBlock e md bw = Ret (bw\<lparr>lastConfigBlockNum := config_num bw, lastConfigSeq := max (lastConfigSeq bw) (Sequence bw),
      lastBlock := b', wLedger := led\<rparr>) \<and> holds (wCodec e) (storeConf e) (bs @ [b']) led"
proof -
  obtain led where "Append (wCodec e) (storeConf e) IoOk b' (wLedger bw) = Ret (None, led)" "holds (wCodec e) (storeConf e) (bs @ [b']) led"
    using file_log.add [OF assms(1,5)] by blast
  with assms(2) show ?thesis unfolding commitBlock_eq [OF assms(3,4)] by (intro exI [of _ led]) (simp add: env_ok_def)
qed

lemma next_after:
  assumes "writer_at e bs bw" "length bs < 2 ^ 62"
  shows "next_ok (wCodec e) bs (CreateNextBlock (wCodec e) bw ms)"
proof -
  have "chain_ok (wCodec e) bs" "bs \<noteq> []"
    using assms(1) by (auto simp: writer_at_def holds_def ledger_inv_def store_inv_def segs_ok_def)
  then have "Number (BHeader (last bs)) = of_nat (length bs - 1)" by (simp add: chain_ok_def last_conv_nth)
  with assms(1) \<open>bs \<noteq> []\<close> of_nat_pred [of "length bs"] show ?thesis
    by (simp add: next_ok_def CreateNextBlock_facts tip_hash_def writer_at_def)
qed

lemma finish_committing: "finish e bw = Ret bw' \<Longrightarrow> committing bw' = None"
  by (auto simp: finish_def result_simps split: option.splits)

lemma finish_idle [simp]: "committing bw = None \<Longrightarrow> finish e bw = Ret bw"
  by (simp add: finish_def)

lemma WriteBlock_next:
  assumes w: "writer_at e bs bw" and env: "env_ok e" and len: "length bs + 2 < 2 ^ 62"
    and sl: "seal e md (lastConfigBlockNum bw) (CreateNextBlock (wCodec e) bw ms) = Inr b'" and sz: "length (bbytes b') < 2 ^ 56"
  shows "\<exists>bw'. WriteBlock e (CreateNextBlock (wCodec e) bw ms) md bw = Ret bw' \<and> writer_at e (bs @ [b']) bw' \<and>
    lastConfigBlockNum bw' = lastConfigBlockNum bw \<and> wBundle bw' = wBundle bw"
proof -
  let ?b = "CreateNextBlock (wCodec e) bw ms"
  obtain led b where f: "finish e bw = Ret (bw\<lparr>lastBlock := b, committing := None, wLedger := led\<rparr>)"
      "holds (wCodec e) (storeConf e) bs led" and s: "bs \<noteq> []" "lastConfigSeq bw = Sequence bw" "OrdererConfig (wBundle bw) \<noteq> None"
    using w by (auto simp: writer_at_def)
  let ?bw = "bw\<lparr>lastBlock := ?b, committing := Some md, wLedger := led\<rparr>"
  have nxt: "next_ok (wCodec e) bs ?b" by (rule next_after [OF w]) (use len in linarith)
  have fit: "fits (wCodec e) (storeConf e) bs b'"
    by (rule sealed_fits [OF sl nxt _ s(1) env sz len]) (simp add: CreateNextBlock_facts)
  have num: "config_num ?bw = lastConfigBlockNum bw" using s(2) by (simp add: config_num_def Sequence_def)
  obtain led' where led': "commitBlock e md ?bw = Ret (?bw\<lparr>lastConfigBlockNum := config_num ?bw,
      lastConfigSeq := max (lastConfigSeq ?bw) (Sequence ?bw), lastBlock := b', wLedger := led'\<rparr>)"
      "holds (wCodec e) (storeConf e) (bs @ [b']) led'"
    using commit_next [of e bs ?bw md b'] f(2) env fit sl num by (auto simp: CreateNextBlock_facts)
  have hdr: "BHeader b' = BHeader ?b" by (rule seal_facts [OF sl]) simp
  have "max (lastConfigSeq ?bw) (Sequence ?bw) = lastConfigSeq ?bw" using s(2) by (simp add: Sequence_def)
  then have "finish e ?bw = Ret (?bw\<lparr>lastBlock := b', committing := None, wLedger := led'\<rparr>)"
    using led'(1) unfolding num by (cases bw) (simp add: finish_def)
  with led'(2) hdr s have "writer_at e (bs @ [b']) ?bw" unfolding writer_at_def by (fastforce simp: Sequence_def)
  moreover have "WriteBlock e ?b md bw = Ret ?bw" using f(1) by (simp add: WriteBlock_def)
  ultimately show ?thesis by fastforce
qed

text \<open>A message with a configuration that the channel can switch to: its bytes decode to it, the configuration
  manager accepts it, and the bundle \<open>bdl\<close> with supported capabilities can be built from it.\<close>

definition config_ok :: "'id writer_env \<Rightarrow> Bundle \<Rightarrow> envelope \<Rightarrow> Bundle \<Rightarrow> bool" where
  "config_ok e b env bdl \<longleftrightarrow> unmarshalEnvelope (wCodec e) (marshalEnvelope (wCodec e) env) = Some env \<and>
     (\<exists>chdr ce. UnmarshalEnvelopeOfType (wCodec e) (unmarshalConfigEnvelope (pConfigCodec (oEnv e))) env HeaderType_CONFIG = Inr (chdr, ce) \<and>
        Validate (wCodec e) (pConfigCodec (oEnv e)) (bundle_msp (oEnv e) b) (configtxManager b) (Some ce) = Ret None \<and>
        NewBundle (oEnv e) (ChannelId chdr) (CeConfig ce) = Ret (Inr bdl) \<and> checkResources bdl = None)"

lemma Validate_sequence:
  "Validate c cc m vi (Some ce) = Ret None \<Longrightarrow> \<exists>cfg. CeConfig ce = Some cfg \<and> CfgSequence cfg = sequence vi + 1"
  by (auto simp: Validate_def split: option.splits if_splits)

lemma config_ok_sequence:
  assumes "config_ok e b env bdl"
  shows "sequence (configtxManager bdl) = sequence (configtxManager b) + 1" "OrdererConfig bdl \<noteq> None"
proof -
  obtain chdr :: channel_header and ce where ce: "Validate (wCodec e) (pConfigCodec (oEnv e)) (bundle_msp (oEnv e) b) (configtxManager b) (Some ce) = Ret None"
      "NewBundle (oEnv e) (ChannelId chdr) (CeConfig ce) = Ret (Inr bdl)" "checkResources bdl = None"
    using assms unfolding config_ok_def by blast
  obtain cfg where "CeConfig ce = Some cfg" "bundle_valid (ChannelId chdr) cfg bdl" using NewBundle_valid [OF ce(2)] by blast
  with Validate_sequence [OF ce(1)] show "sequence (configtxManager bdl) = sequence (configtxManager b) + 1"
    by (auto simp: bundle_valid_def)
  show "OrdererConfig bdl \<noteq> None" using ce(3) by (auto simp: checkResources_def split: option.splits)
qed

text \<open>What remains of \<open>WriteConfigBlock\<close> when the configuration is accepted.\<close>

lemma WriteConfigBlock_eq:
  assumes "config_ok e (wBundle bw) env bdl" "OrdererConfig (wBundle bw) \<noteq> None" "BData b = Some [marshalEnvelope (wCodec e) env]"
  shows "WriteConfigBlock e b [] bw = bind_go (finish e bw) (\<lambda>bw. WriteBlockSync e b [] (bw\<lparr>wBundle := bdl\<rparr>))"
proof -
  obtain chdr ce where ce: "unmarshalEnvelope (wCodec e) (marshalEnvelope (wCodec e) env) = Some env"
      "UnmarshalEnvelopeOfType (wCodec e) (unmarshalConfigEnvelope (pConfigCodec (oEnv e))) env HeaderType_CONFIG = Inr (chdr, ce)"
      "Validate (wCodec e) (pConfigCodec (oEnv e)) (bundle_msp (oEnv e) (wBundle bw)) (configtxManager (wBundle bw)) (Some ce) = Ret None"
      "NewBundle (oEnv e) (ChannelId chdr) (CeConfig ce) = Ret (Inr bdl)" "checkResources bdl = None"
    using assms(1) unfolding config_ok_def by blast
  obtain p h where p: "UnmarshalPayload (wCodec e) (slice (Payload env)) = Inr p" "Header p = Some h"
      "UnmarshalChannelHeader (wCodec e) (slice (ChannelHeaderBytes h)) = Inr chdr" "HdrType chdr = HeaderType_CONFIG"
      "unmarshalConfigEnvelope (pConfigCodec (oEnv e)) (Data p) = Some ce"
    using ce(2) by (auto simp: UnmarshalEnvelopeOfType_def result_simps split: option.splits if_splits)
  obtain oc noc where oc: "OrdererConfig (wBundle bw) = Some oc" "OrdererConfig bdl = Some noc"
    using assms(2) config_ok_sequence(2) [OF assms(1)] by auto
  have "ExtractEnvelope (wCodec e) b 0 = Inr env" using ce(1) assms(3) by (simp add: ExtractEnvelope_def GetEnvelopeFromBlock_def)
  with p ce(3-5) oc show ?thesis
    by (simp add: WriteConfigBlock_def Let_def or_panic_def SharedConfig_def Update_def)
qed

lemma writer_at_idle:
  assumes "committing bw = None" "bs \<noteq> []" "BHeader (lastBlock bw) = BHeader (last bs)" "lastConfigSeq bw = Sequence bw"
    and "OrdererConfig (wBundle bw) \<noteq> None" "holds (wCodec e) (storeConf e) bs (wLedger bw)"
  shows "writer_at e bs bw"
proof -
  have "bw = bw\<lparr>lastBlock := lastBlock bw, committing := None, wLedger := wLedger bw\<rparr>" using assms(1) by (cases bw) simp
  then have "finish e bw = Ret (bw\<lparr>lastBlock := lastBlock bw, committing := None, wLedger := wLedger bw\<rparr>)" using assms(1) by simp
  with assms(2-6) show ?thesis unfolding writer_at_def by blast
qed

lemma WriteConfigBlock_next:
  assumes w: "writer_at e bs bw" and env: "env_ok e" and len: "length bs + 2 < 2 ^ 62" and sq: "Sequence bw + 1 \<noteq> 0"
    and ok: "config_ok e (wBundle bw) env bdl"
    and sl: "seal e [] (of_nat (length bs)) (CreateNextBlock (wCodec e) bw [env]) = Inr b'" and sz: "length (bbytes b') < 2 ^ 56"
  shows "\<exists>bw'. WriteConfigBlock e (CreateNextBlock (wCodec e) bw [env]) [] bw = Ret bw' \<and> writer_at e (bs @ [b']) bw' \<and>
    lastConfigBlockNum bw' = of_nat (length bs) \<and> wBundle bw' = bdl"
proof -
  let ?b = "CreateNextBlock (wCodec e) bw [env]"
  obtain led b where f: "finish e bw = Ret (bw\<lparr>lastBlock := b, committing := None, wLedger := led\<rparr>)"
      "holds (wCodec e) (storeConf e) bs led" and s: "bs \<noteq> []" "lastConfigSeq bw = Sequence bw" "OrdererConfig (wBundle bw) \<noteq> None"
    using w by (auto simp: writer_at_def)
  let ?bw = "bw\<lparr>committing := None, wLedger := led, wBundle := bdl, lastBlock := ?b\<rparr>"
  note bdl = config_ok_sequence [OF ok]
  have nxt: "next_ok (wCodec e) bs ?b" by (rule next_after [OF w]) (use len in linarith)
  then have num: "Number (BHeader ?b) = of_nat (length bs)" by (simp add: next_ok_def)
  have "Sequence bw < Sequence bw + 1" using unatSuc [of "Sequence bw"] sq by (simp add: word_less_nat_alt add.commute)
  then have lt: "lastConfigSeq ?bw < Sequence ?bw" using s(2) bdl(1) by (simp add: Sequence_def)
  then have cn: "config_num ?bw = of_nat (length bs)" "max (lastConfigSeq ?bw) (Sequence ?bw) = Sequence ?bw"
    using num less_imp_le [OF lt] by (simp_all add: config_num_def max_absorb2)
  have fit: "fits (wCodec e) (storeConf e) bs b'"
    by (rule sealed_fits [OF sl nxt _ s(1) env sz len]) (simp add: CreateNextBlock_facts)
  obtain led' where led': "commitBlock e [] ?bw = Ret (?bw\<lparr>lastConfigBlockNum := config_num ?bw,
      lastConfigSeq := max (lastConfigSeq ?bw) (Sequence ?bw), lastBlock := b', wLedger := led'\<rparr>)"
      "holds (wCodec e) (storeConf e) (bs @ [b']) led'"
    using commit_next [of e bs ?bw "[]" b'] f(2) env fit sl cn(1) by (auto simp: CreateNextBlock_facts)
  have "WriteConfigBlock e ?b [] bw = commitBlock e [] ?bw"
    unfolding WriteConfigBlock_eq [OF ok s(3), of ?b, simplified, OF CreateNextBlock_facts(4) [of _ _ "[env]", simplified]] f(1)
    by (simp add: WriteBlockSync_def finish_def)
  moreover have "BHeader b' = BHeader ?b" by (rule seal_facts [OF sl]) simp
  then have "writer_at e (bs @ [b']) (?bw\<lparr>lastConfigBlockNum := of_nat (length bs), lastConfigSeq := Sequence ?bw, lastBlock := b',
      wLedger := led'\<rparr>)"
    using led'(2) bdl(2) by (intro writer_at_idle) (simp_all add: Sequence_def)
  ultimately show ?thesis using led'(1) unfolding cn by (intro exI conjI) (assumption | simp)+
qed

section \<open>Sequences of blocks\<close>

text \<open>What a consenter asks for: a block with a batch of normal messages, or a block with a configuration.\<close>

datatype write_cmd = NormalBatch "envelope list" | ConfigTx envelope

fun cmd_messages :: "write_cmd \<Rightarrow> envelope list" where
  "cmd_messages (NormalBatch ms) = ms"
| "cmd_messages (ConfigTx env) = [env]"

fun write_one :: "'id writer_env \<Rightarrow> write_cmd \<Rightarrow> block_writer \<Rightarrow> block_writer go" where
  "write_one e (NormalBatch ms) bw = WriteBlock e (CreateNextBlock (wCodec e) bw ms) [] bw"
| "write_one e (ConfigTx env) bw = WriteConfigBlock e (CreateNextBlock (wCodec e) bw [env]) [] bw"

fun write_all :: "'id writer_env \<Rightarrow> write_cmd list \<Rightarrow> block_writer \<Rightarrow> block_writer go" where
  "write_all e [] bw = Ret bw"
| "write_all e (cmd # cmds) bw = bind_go (write_one e cmd bw) (write_all e cmds)"

text \<open>The number of the last configuration block up to and including the block for a command, when the chain
  has \<open>n\<close> blocks before and \<open>k\<close> is the last configuration block among them.\<close>

fun config_at :: "nat \<Rightarrow> u64 \<Rightarrow> write_cmd \<Rightarrow> u64" where
  "config_at n k (NormalBatch ms) = k"
| "config_at n k (ConfigTx env) = of_nat n"

fun config_nums :: "nat \<Rightarrow> u64 \<Rightarrow> write_cmd list \<Rightarrow> u64 list" where
  "config_nums n k [] = []"
| "config_nums n k (cmd # cmds) = config_at n k cmd # config_nums (Suc n) (config_at n k cmd) cmds"

text \<open>The conditions under which a command can be carried out: the orderer can sign, the block is within the
  sizes of the storage, and a configuration is one that the channel can switch to.\<close>

definition sealable :: "'id writer_env \<Rightarrow> u64 \<Rightarrow> block \<Rightarrow> bool" where
  "sealable e n b = (case seal e [] n b of Inl _ \<Rightarrow> False | Inr b' \<Rightarrow> length (bbytes b') < 2 ^ 56)"

fun cmd_ok :: "'id writer_env \<Rightarrow> nat \<Rightarrow> write_cmd \<Rightarrow> block_writer \<Rightarrow> bool" where
  "cmd_ok e n (NormalBatch ms) bw = sealable e (lastConfigBlockNum bw) (CreateNextBlock (wCodec e) bw ms)"
| "cmd_ok e n (ConfigTx env) bw = (sealable e (of_nat n) (CreateNextBlock (wCodec e) bw [env]) \<and>
     Sequence bw + 1 \<noteq> 0 \<and> (\<exists>bdl. config_ok e (wBundle bw) env bdl))"

fun writable :: "'id writer_env \<Rightarrow> nat \<Rightarrow> write_cmd list \<Rightarrow> block_writer \<Rightarrow> bool" where
  "writable e n [] bw = True"
| "writable e n (cmd # cmds) bw = (n + 2 < 2 ^ 62 \<and> cmd_ok e n cmd bw \<and> (\<forall>bw'. write_one e cmd bw = Ret bw' \<longrightarrow> writable e (Suc n) cmds bw'))"

text \<open>The block for a command, with the number of its last configuration block.\<close>

definition written :: "'id writer_env \<Rightarrow> u64 \<Rightarrow> write_cmd \<Rightarrow> block \<Rightarrow> bool" where
  "written e k cmd b \<longleftrightarrow> (\<exists>base. seal e [] k base = Inr b) \<and>
     BData b = Some (map (marshalEnvelope (wCodec e)) (cmd_messages cmd)) \<and>
     DataHash (BHeader b) = ComputeBlockDataHash (wCodec e) (map (marshalEnvelope (wCodec e)) (cmd_messages cmd))"

lemma sealed_written:
  assumes "seal e [] k (CreateNextBlock (wCodec e) bw (cmd_messages cmd)) = Inr b"
  shows "written e k cmd b"
  by (rule seal_facts [OF assms]) (use assms in \<open>auto simp: written_def CreateNextBlock_facts\<close>)

lemma write_one_ok:
  assumes "writer_at e bs bw" "env_ok e" "length bs + 2 < 2 ^ 62" "cmd_ok e (length bs) cmd bw"
  shows "\<exists>bw' b. write_one e cmd bw = Ret bw' \<and> writer_at e (bs @ [b]) bw' \<and> written e (config_at (length bs) (lastConfigBlockNum bw) cmd) cmd b \<and>
    lastConfigBlockNum bw' = config_at (length bs) (lastConfigBlockNum bw) cmd"
proof (cases cmd)
  case (NormalBatch ms)
  then obtain b where b: "seal e [] (lastConfigBlockNum bw) (CreateNextBlock (wCodec e) bw ms) = Inr b" "length (bbytes b) < 2 ^ 56"
    using assms(4) by (auto simp: sealable_def split: sum.splits)
  from WriteBlock_next [OF assms(1-3) b] sealed_written [of e _ bw cmd b] b NormalBatch show ?thesis by fastforce
next
  case (ConfigTx env)
  then obtain b bdl where b: "seal e [] (of_nat (length bs)) (CreateNextBlock (wCodec e) bw [env]) = Inr b" "length (bbytes b) < 2 ^ 56"
      "Sequence bw + 1 \<noteq> 0" "config_ok e (wBundle bw) env bdl"
    using assms(4) by (auto simp: sealable_def split: sum.splits)
  from WriteConfigBlock_next [OF assms(1-3) b(3,4,1,2)] sealed_written [of e _ bw cmd b] b ConfigTx show ?thesis by fastforce
qed

lemma write_all_ok:
  assumes "writer_at e bs bw" "env_ok e" "writable e (length bs) cmds bw"
  shows "\<exists>bw' new. write_all e cmds bw = Ret bw' \<and> writer_at e (bs @ new) bw' \<and>
    list_all2 (\<lambda>(k, cmd) b. written e k cmd b) (zip (config_nums (length bs) (lastConfigBlockNum bw) cmds) cmds) new \<and>
    lastConfigBlockNum bw' = last (lastConfigBlockNum bw # config_nums (length bs) (lastConfigBlockNum bw) cmds)"
  using assms
proof (induction cmds arbitrary: bs bw)
  case Nil
  then show ?case by (intro exI [of _ bw] exI [of _ "[]"]) simp
next
  case (Cons cmd cmds)
  let ?k = "config_at (length bs) (lastConfigBlockNum bw) cmd"
  obtain bw1 b where 1: "write_one e cmd bw = Ret bw1" "writer_at e (bs @ [b]) bw1" "written e ?k cmd b" "lastConfigBlockNum bw1 = ?k"
    using write_one_ok [OF Cons.prems(1,2), of cmd] Cons.prems(3) by auto
  obtain bw' new where 2: "write_all e cmds bw1 = Ret bw'" "writer_at e ((bs @ [b]) @ new) bw'"
      "list_all2 (\<lambda>(k, cmd) b. written e k cmd b) (zip (config_nums (length (bs @ [b])) ?k cmds) cmds) new"
      "lastConfigBlockNum bw' = last (?k # config_nums (length (bs @ [b])) ?k cmds)"
    using Cons.IH [OF 1(2) Cons.prems(2)] Cons.prems(3) 1(1,4) by auto
  then show ?case using 1 by (intro exI [of _ bw'] exI [of _ "b # new"]) simp
qed

lemma length_config_nums [simp]: "length (config_nums n k cmds) = length cmds"
  by (induction cmds arbitrary: n k) simp_all

text \<open>The chain after the commands, read block by block.\<close>

lemma write_all_chain:
  assumes "writer_at e bs bw" "env_ok e" "writable e (length bs) cmds bw"
  obtains bw' bw'' new where "write_all e cmds bw = Ret bw'" "finish e bw' = Ret bw''" "writer_at e (bs @ new) bw''" "committing bw'' = None"
    "holds (wCodec e) (storeConf e) (bs @ new) (wLedger bw'')" "length new = length cmds"
    "\<And>i. i < length cmds \<Longrightarrow> written e (config_nums (length bs) (lastConfigBlockNum bw) cmds ! i) (cmds ! i) (new ! i)"
    "lastConfigBlockNum bw'' = last (lastConfigBlockNum bw # config_nums (length bs) (lastConfigBlockNum bw) cmds)"
proof -
  obtain bw' new where w: "write_all e cmds bw = Ret bw'" "writer_at e (bs @ new) bw'"
      "list_all2 (\<lambda>(k, cmd) b. written e k cmd b) (zip (config_nums (length bs) (lastConfigBlockNum bw) cmds) cmds) new"
      "lastConfigBlockNum bw' = last (lastConfigBlockNum bw # config_nums (length bs) (lastConfigBlockNum bw) cmds)"
    using write_all_ok [OF assms] by blast
  obtain led b where f: "finish e bw' = Ret (bw'\<lparr>lastBlock := b, committing := None, wLedger := led\<rparr>)"
      "BHeader b = BHeader (last (bs @ new))" "holds (wCodec e) (storeConf e) (bs @ new) led"
    using w(2) by (auto simp: writer_at_def)
  let ?bw = "bw'\<lparr>lastBlock := b, committing := None, wLedger := led\<rparr>"
  have "writer_at e (bs @ new) ?bw" using w(2) f(2,3) by (intro writer_at_idle) (auto simp: writer_at_def Sequence_def)
  moreover have "length new = length cmds" using list_all2_lengthD [OF w(3)] by simp
  moreover have "written e (config_nums (length bs) (lastConfigBlockNum bw) cmds ! i) (cmds ! i) (new ! i)" if "i < length cmds" for i
    using list_all2_nthD [OF w(3), of i] that by simp
  ultimately show thesis using that [of bw' ?bw new] w f by simp
qed

end
