(* ===== verification/Block_Writer_Facts.thy ===== *)
theory Block_Writer_Facts
  imports Block_Writer
begin

text \<open>
  What the block writer promises: the blocks it appends form a hash chain with the data of the
  batches, every block names its last configuration block and carries a signature that the block
  verifier reads, the commits in the background do not change the result, a configuration that the
  message processor accepted is written without a panic, and a restarted writer continues where
  the old one stopped.
\<close>

section \<open>A writer to apply the properties to\<close>

definition orderer_conf :: store_conf where
  "orderer_conf = \<lparr>maxBlockfileSize = 64 * 1024 * 1024, AttrsToIndex = [IndexableAttrBlockNum],
     marshalTxIDIndexValue = (\<lambda>_. []), unmarshalTxIDIndexValue = (\<lambda>_. None)\<rparr>"

definition sample_writer_env :: "bytes writer_env" where
  "sample_writer_env = \<lparr>oEnv = sample_env, storeConf = orderer_conf, disk = (\<lambda>_. IoOk), nonces = (\<lambda>_. Inr [9])\<rparr>"

definition sample_genesis :: block where
  "sample_genesis = small_block 0 [] [1]"

definition sample_writer :: "block_store \<Rightarrow> block_writer" where
  "sample_writer led = \<lparr>lastConfigBlockNum = 0, lastConfigSeq = 7, lastBlock = sample_genesis, committing = None, wLedger = led,
     wBundle = sample_bundle 7 0 10\<rparr>"

lemma sample_env_ok: "env_ok sample_writer_env"
  by (simp add: env_ok_def sample_writer_env_def orderer_conf_def)

lemma sample_writer_at: "\<exists>led. writer_at sample_writer_env [sample_genesis] (sample_writer led)"
proof -
  have conf: "conf_ok orderer_conf" by (simp add: conf_ok_def orderer_conf_def)
  have "length (bbytes sample_genesis) = 13" by code_simp
  moreover have "length (frame sample_genesis) = 14" by code_simp
  ultimately have "fits sample_codec orderer_conf [] sample_genesis"
    by (simp add: fits_def storable_def next_ok_def tip_hash_def indexable_def orderer_conf_def)
      (simp add: sample_genesis_def small_block_def)
  then obtain led where "holds sample_codec orderer_conf [sample_genesis] led"
    using newBlockStore_holds [OF conf, of sample_codec] file_log.add by fastforce
  then have "writer_at sample_writer_env [sample_genesis] (sample_writer led)"
    by (intro writer_at_idle)
      (simp_all add: sample_writer_def sample_writer_env_def Sequence_def sample_orderer_config, simp_all add: sample_bundle_def sample_env_def)
  then show ?thesis by blast
qed

text \<open>A new block depends on the header of the last one only.\<close>

definition next_block :: "codec \<Rightarrow> block_header \<Rightarrow> envelope list \<Rightarrow> block" where
  "next_block c h ms = \<lparr>BHeader = \<lparr>Number = Number h + 1, PreviousHash = BlockHeaderHash c h,
      DataHash = ComputeBlockDataHash c (map (marshalEnvelope c) ms)\<rparr>,
     BData = Some (map (marshalEnvelope c) ms), BMetadata = Some (replicate 5 [])\<rparr>"

lemma CreateNextBlock_header: "CreateNextBlock c bw ms = next_block c (BHeader (lastBlock bw)) ms"
  by (simp add: CreateNextBlock_def next_block_def NewBlock_def Let_def)


lemma sample_seal:
  "seal sample_writer_env md n b = Inr (b\<lparr>BMetadata := Some
     [put_items [put_items [be_bytes 8 (unat n), put_items [md]], put_items [[1], [9]], [], [1]],
      put_items [be_bytes 8 (unat n)], [], [], []]\<rparr>)"
  by (simp add: seal_def signature_header_of_def NewSignatureHeader_def result_simps orderer_metadata_def Let_def
      sample_writer_env_def sample_env_def sample_codec_def sample_builder_def sample_orderer_def)

definition plain_next :: "envelope \<Rightarrow> block_header" where
  "plain_next env = \<lparr>Number = 1, PreviousHash = put_items [be_bytes 8 0, [], DataHash (BHeader sample_genesis)],
     DataHash = pb_marshal env\<rparr>"

lemma sample_next:
  "next_block (wCodec sample_writer_env) (BHeader sample_genesis) [env] =
    \<lparr>BHeader = plain_next env, BData = Some [pb_marshal env], BMetadata = Some (replicate 5 [])\<rparr>"
  by (simp add: next_block_def plain_next_def sample_writer_env_def sample_env_def sample_codec_def BlockHeaderHash_def BlockHeaderBytes_def
      ComputeBlockDataHash_def sample_genesis_def small_block_def)
definition plain_block :: "u64 \<Rightarrow> envelope \<Rightarrow> block" where
  "plain_block n env = \<lparr>BHeader = plain_next env, BData = Some [pb_marshal env], BMetadata = Some
     [put_items [put_items [be_bytes 8 (unat n), put_items [[]]], put_items [[1], [9]], [], [1]],
      put_items [be_bytes 8 (unat n)], [], [], []]\<rparr>"

lemma sample_block_sizes:
  "length (bbytes (plain_block 0 (sample_msg 1))) = 121"
  "length (bbytes (plain_block 1 (sample_message HeaderType_CONFIG))) = 183"
  by code_simp (unfold sample_message, code_simp)

lemma sample_sealed:
  "seal sample_writer_env [] n (next_block (wCodec sample_writer_env) (BHeader sample_genesis) [env]) = Inr (plain_block n env)"
  by (simp add: sample_seal sample_next plain_block_def)

lemma sample_sealable:
  "sealable sample_writer_env 0 (CreateNextBlock (wCodec sample_writer_env) (sample_writer led) [sample_msg 1])"
  "sealable sample_writer_env 1 (CreateNextBlock (wCodec sample_writer_env) (sample_writer led) [sample_message HeaderType_CONFIG])"
  by (simp_all add: sealable_def CreateNextBlock_header sample_writer_def sample_sealed sample_block_sizes)

lemma sample_wf:
  "map_wf (configMap (configtxManager (sample_bundle 7 0 10)))"
  "unmarshalConfigUpdate (pConfigCodec sample_env) data = Some u \<Longrightarrow> opt_wf (CuWriteSet u)"
proof -
  obtain cfg where "Some (sample_config 7 0 10) = Some cfg" "bundle_valid ''ch'' cfg (sample_bundle 7 0 10)"
    by (rule NewBundle_valid [OF sample_NewBundle [of 10 7 0]]) auto
  then have "mapConfig (CfgChannelGroup (sample_config 7 0 10)) RootGroupKey = Inr (configMap (configtxManager (sample_bundle 7 0 10)))"
    by (simp add: bundle_valid_def)
  moreover have "opt_wf (CfgChannelGroup (sample_config 7 0 10))"
    by (simp add: opt_wf_def sample_config_def sample_channel_group_def)
  ultimately show "map_wf (configMap (configtxManager (sample_bundle 7 0 10)))" by (rule mapConfig_wf)
  show "unmarshalConfigUpdate (pConfigCodec sample_env) data = Some u \<Longrightarrow> opt_wf (CuWriteSet u)"
    by (auto simp: sample_env_def sample_channel_update_def opt_wf_def)
qed

lemma sample_config_ok:
  "config_ok sample_writer_env (sample_bundle 7 0 10) (sample_message HeaderType_CONFIG) (sample_bundle 8 1 20)"
proof -
  have env: "oEnv sample_writer_env = sample_env" "pCodec sample_env = sample_codec" "bundle_msp sample_env b = sample_msp" for b
    by (simp_all add: sample_writer_env_def sample_env_def bundle_msp_def)
  have "UnmarshalEnvelopeOfType sample_codec (unmarshalConfigEnvelope (pConfigCodec sample_env)) (sample_message HeaderType_CONFIG) HeaderType_CONFIG
    = Inr (\<lparr>HdrType = 1, ChannelId = ''ch'', TxId = ''''\<rparr>, sample_new_config)"
    by code_simp
  moreover have "Validate sample_codec (pConfigCodec sample_env) sample_msp (configtxManager (sample_bundle 7 0 10)) (Some sample_new_config) = Ret None"
    by (rule Validate_propose [OF sample_proposal]) (simp_all add: sample_wf)
  moreover have "canonical (sample_message HeaderType_CONFIG)"
    by (simp add: canonical_def sample_message put_items_def bytes_of_string_def slice_def)
  moreover have "checkResources (sample_bundle 8 1 20) = None"
    by (rule ProposeConfigUpdate_facts [OF sample_ProposeConfigUpdate]) (auto simp: sample_new_config_def sample_NewBundle sample_bundle_def)
  ultimately show ?thesis
    unfolding config_ok_def env
    by (simp add: sample_NewBundle sample_new_config_def sample_codec_def pb_roundtrip)
qed

lemma sample_writable:
  "writable sample_writer_env 1 [NormalBatch [sample_msg 1]] (sample_writer led)"
  "writable sample_writer_env 1 [ConfigTx (sample_message HeaderType_CONFIG)] (sample_writer led)"
  using sample_sealable [of led] sample_config_ok by (auto simp: Sequence_def sample_writer_def sample_bundle_def)

section \<open>Chains\<close>

lemma holds_chain: "holds c conf bs led \<Longrightarrow> chain_ok c bs"
  by (auto simp: holds_def ledger_inv_def store_inv_def segs_ok_def)

text \<open>C5: The invariant of the chain. From any state in which the ledger holds the blocks \<open>bs\<close>, a sequence of
  normal batches and accepted configurations is written without a panic, and when the last commit is
  finished the ledger holds \<open>bs\<close> and one new block for each command: the numbers are consecutive, every
  block has the hash of the header before it, and the data of the block and its data hash are those of
  the messages of the command, in their order.\<close>

theorem writer_builds_chain:
  assumes "writer_at e bs bw" "env_ok e" "writable e (length bs) cmds bw"
  shows "\<exists>bw' bw'' new. write_all e cmds bw = Ret bw' \<and> finish e bw' = Ret bw'' \<and>
    holds (wCodec e) (storeConf e) (bs @ new) (wLedger bw'') \<and> chain_ok (wCodec e) (bs @ new) \<and> length new = length cmds \<and>
    (\<forall>i < length cmds. BData (new ! i) = Some (map (marshalEnvelope (wCodec e)) (cmd_messages (cmds ! i))) \<and>
       DataHash (BHeader (new ! i)) = ComputeBlockDataHash (wCodec e) (map (marshalEnvelope (wCodec e)) (cmd_messages (cmds ! i))))"
proof (rule write_all_chain [OF assms])
  fix bw' bw'' new
  assume "write_all e cmds bw = Ret bw'" "finish e bw' = Ret bw''" and h: "holds (wCodec e) (storeConf e) (bs @ new) (wLedger bw'')"
    and "length new = length cmds"
    and "\<And>i. i < length cmds \<Longrightarrow> written e (config_nums (length bs) (lastConfigBlockNum bw) cmds ! i) (cmds ! i) (new ! i)"
  with holds_chain [OF h] h show ?thesis unfolding written_def by blast
qed

theorem writer_builds_chain_witness:
  "\<exists>led bw' bw'' b. write_all sample_writer_env [NormalBatch [sample_msg 1]] (sample_writer led) = Ret bw' \<and>
     finish sample_writer_env bw' = Ret bw'' \<and>
     holds (wCodec sample_writer_env) (storeConf sample_writer_env) [sample_genesis, b] (wLedger bw'') \<and>
     BData b = Some [marshalEnvelope (wCodec sample_writer_env) (sample_msg 1)]"
proof -
  obtain led where led: "writer_at sample_writer_env [sample_genesis] (sample_writer led)" using sample_writer_at by blast
  obtain bw' bw'' new where w: "write_all sample_writer_env [NormalBatch [sample_msg 1]] (sample_writer led) = Ret bw'"
      "finish sample_writer_env bw' = Ret bw''" "holds (wCodec sample_writer_env) (storeConf sample_writer_env) ([sample_genesis] @ new) (wLedger bw'')"
      "length new = 1" "BData (new ! 0) = Some [marshalEnvelope (wCodec sample_writer_env) (sample_msg 1)]"
    using writer_builds_chain [OF led sample_env_ok, of "[NormalBatch [sample_msg 1]]"] sample_writable(1) [of led] by auto
  obtain b where "new = [b]" using w(4) by (auto simp: length_Suc_conv)
  with w show ?thesis by (simp only: append.simps nth_Cons_0) blast
qed

section \<open>Metadata\<close>

lemma sealed_last_config:
  assumes "metadata_codec (wCodec e)" "seal e md n base = Inr b"
  shows "GetLastConfigIndexFromBlock (wCodec e) b = Ret (Inr n)"
  by (rule seal_facts [OF assms(2)])
    (use assms(1) in \<open>simp add: GetLastConfigIndexFromBlock_def GetMetadataFromBlock_def metadata_codec_def orderer_metadata_def\<close>)

text \<open>C13: The last configuration block. Every block that is written names the last configuration block of the
  chain up to and including itself: a configuration block its own number, and a normal block the number
  of the latest configuration block before it, whatever was written in between. The number is what the
  readers of the block obtain with \<open>GetLastConfigIndexFromBlock\<close>.\<close>

theorem last_config_recorded:
  assumes "writer_at e bs bw" "env_ok e" "writable e (length bs) cmds bw" "metadata_codec (wCodec e)"
  shows "\<exists>bw' bw'' new. write_all e cmds bw = Ret bw' \<and> finish e bw' = Ret bw'' \<and>
    holds (wCodec e) (storeConf e) (bs @ new) (wLedger bw'') \<and> length new = length cmds \<and>
    (\<forall>i < length cmds. GetLastConfigIndexFromBlock (wCodec e) (new ! i)
       = Ret (Inr (config_nums (length bs) (lastConfigBlockNum bw) cmds ! i)))"
proof (rule write_all_chain [OF assms(1-3)])
  fix bw' bw'' new
  assume f: "write_all e cmds bw = Ret bw'" "finish e bw' = Ret bw''" "holds (wCodec e) (storeConf e) (bs @ new) (wLedger bw'')"
    "length new = length cmds"
    and w: "\<And>i. i < length cmds \<Longrightarrow> written e (config_nums (length bs) (lastConfigBlockNum bw) cmds ! i) (cmds ! i) (new ! i)"
  have "GetLastConfigIndexFromBlock (wCodec e) (new ! i) = Ret (Inr (config_nums (length bs) (lastConfigBlockNum bw) cmds ! i))"
    if "i < length cmds" for i
    using w [OF that] sealed_last_config [OF assms(4)] unfolding written_def by blast
  with f show ?thesis by blast
qed

theorem last_config_recorded_witness:
  "\<exists>led bw' bw'' b. write_all sample_writer_env [ConfigTx (sample_message HeaderType_CONFIG)] (sample_writer led) = Ret bw' \<and>
     finish sample_writer_env bw' = Ret bw'' \<and> GetLastConfigIndexFromBlock (wCodec sample_writer_env) b = Ret (Inr 1) \<and>
     holds (wCodec sample_writer_env) (storeConf sample_writer_env) [sample_genesis, b] (wLedger bw'')"
proof -
  have "metadata_codec (wCodec sample_writer_env)" using sample_metadata_codec by (simp add: sample_writer_env_def sample_env_def)
  moreover obtain led where led: "writer_at sample_writer_env [sample_genesis] (sample_writer led)" using sample_writer_at by blast
  ultimately obtain bw' bw'' new where w:
      "write_all sample_writer_env [ConfigTx (sample_message HeaderType_CONFIG)] (sample_writer led) = Ret bw'"
      "finish sample_writer_env bw' = Ret bw''" "holds (wCodec sample_writer_env) (storeConf sample_writer_env) ([sample_genesis] @ new) (wLedger bw'')"
      "length new = 1" "GetLastConfigIndexFromBlock (wCodec sample_writer_env) (new ! 0) = Ret (Inr 1)"
    using last_config_recorded [OF led sample_env_ok, of "[ConfigTx (sample_message HeaderType_CONFIG)]"] sample_writable(2) [of led] by auto
  obtain b where "new = [b]" using w(4) by (auto simp: length_Suc_conv)
  with w show ?thesis by (simp only: append.simps nth_Cons_0) blast
qed

text \<open>The orderer's own header and signature of a block, as the verifier of block signatures reads them.\<close>

lemma sealed_signature:
  assumes "metadata_codec (wCodec e)" "seal e md n base = Inr b" "Serialize (OrdererSigner (oEnv e)) = Inr creator"
    and "\<And>sh. unmarshalSignatureHeader (wCodec e) (marshalSignatureHeader (Builder (oEnv e)) sh) = Some sh"
    and "\<And>sh. Creator sh \<noteq> [] \<Longrightarrow> marshalSignatureHeader (Builder (oEnv e)) sh \<noteq> []" "creator \<noteq> []"
  shows "\<exists>header sig. Sign (OrdererSigner (oEnv e)) (signed_bytes e md n header (BHeader b)) = Inr sig \<and>
    BlockSignatureVerifier (wCodec e) bft cs policy (BHeader b) (BMetadata b)
      = policy [\<lparr>SdData = signed_bytes e md n header (BHeader b), SdIdentity = creator, SdSignature = sig\<rparr>]"
proof (rule seal_facts [OF assms(2)])
  fix header sig
  assume f: "BHeader b = BHeader base" "signature_header_of e (Number (BHeader base)) = Inr header"
    "Sign (OrdererSigner (oEnv e)) (signed_bytes e md n header (BHeader base)) = Inr sig"
    "BMetadata b = Some [marshalMetadata (wCodec e) \<lparr>MdValue = orderer_metadata (wCodec e) n md,
       MdSignatures = [\<lparr>MsSignatureHeader = header, MsIdentifierHeader = [], MsSignature = sig\<rparr>]\<rparr>,
     marshalMetadata (wCodec e) \<lparr>MdValue = marshalLastConfig (wCodec e) n, MdSignatures = []\<rparr>, [], [], []]"
  obtain sh where sh: "header = marshalSignatureHeader (Builder (oEnv e)) sh" "Creator sh = creator"
    using f(2) assms(3) by (auto simp: signature_header_of_def NewSignatureHeader_def result_simps)
  have "BlockSignatureVerifier (wCodec e) bft cs policy (BHeader b) (BMetadata b)
      = policy [\<lparr>SdData = signed_bytes e md n header (BHeader b), SdIdentity = creator, SdSignature = sig\<rparr>]"
    using assms(1,4-6) f(4) sh by (simp add: BlockSignatureVerifier_def metadata_codec_def signed_bytes_def)
  with f(1,3) show ?thesis by (intro exI conjI) simp_all
qed

text \<open>C14: Block signatures. For every block that is written, whether or not the channel uses BFT, the verifier of
  block signatures hands the policy exactly one signed datum: the orderer's serialized identity, and the
  signature that the orderer's key gave for the orderer metadata with the number of the last
  configuration block, the signature header and the encoded block header. So a block verifies if and
  only if the policy accepts the signature of this orderer.\<close>

theorem block_signature_readable:
  assumes "writer_at e bs bw" "env_ok e" "writable e (length bs) cmds bw" "metadata_codec (wCodec e)"
    and "Serialize (OrdererSigner (oEnv e)) = Inr creator" "creator \<noteq> []"
    and "\<And>sh. unmarshalSignatureHeader (wCodec e) (marshalSignatureHeader (Builder (oEnv e)) sh) = Some sh"
    and "\<And>sh. Creator sh \<noteq> [] \<Longrightarrow> marshalSignatureHeader (Builder (oEnv e)) sh \<noteq> []"
  shows "\<exists>bw' bw'' new. write_all e cmds bw = Ret bw' \<and> finish e bw' = Ret bw'' \<and>
    holds (wCodec e) (storeConf e) (bs @ new) (wLedger bw'') \<and> length new = length cmds \<and>
    (\<forall>i < length cmds. \<exists>header sig. let signed = signed_bytes e [] (config_nums (length bs) (lastConfigBlockNum bw) cmds ! i) header (BHeader (new ! i)) in
       Sign (OrdererSigner (oEnv e)) signed = Inr sig \<and>
       BlockSignatureVerifier (wCodec e) bft cs policy (BHeader (new ! i)) (BMetadata (new ! i))
         = policy [\<lparr>SdData = signed, SdIdentity = creator, SdSignature = sig\<rparr>])"
proof (rule write_all_chain [OF assms(1-3)])
  fix bw' bw'' new
  assume f: "write_all e cmds bw = Ret bw'" "finish e bw' = Ret bw''" "holds (wCodec e) (storeConf e) (bs @ new) (wLedger bw'')"
    "length new = length cmds"
    and w: "\<And>i. i < length cmds \<Longrightarrow> written e (config_nums (length bs) (lastConfigBlockNum bw) cmds ! i) (cmds ! i) (new ! i)"
  have "\<exists>header sig. Sign (OrdererSigner (oEnv e)) (signed_bytes e [] n header (BHeader b)) = Inr sig \<and>
      BlockSignatureVerifier (wCodec e) bft cs policy (BHeader b) (BMetadata b)
        = policy [\<lparr>SdData = signed_bytes e [] n header (BHeader b), SdIdentity = creator, SdSignature = sig\<rparr>]"
    if "written e n cmd b" for n cmd b
    using that sealed_signature [OF assms(4) _ assms(5,7,8,6)] unfolding written_def by blast
  with w f show ?thesis unfolding Let_def by blast
qed

theorem block_signature_readable_witness:
  "\<exists>(b :: block) header sig. BlockSignatureVerifier (wCodec sample_writer_env) False [] (\<lambda>sds. if map SdIdentity sds = [[1]] then None else Some (Errorf ''''))
     (BHeader b) (BMetadata b) = None \<and>
   Sign (OrdererSigner (oEnv sample_writer_env)) (signed_bytes sample_writer_env [] 0 header (BHeader b)) = Inr sig"
proof -
  obtain led where led: "writer_at sample_writer_env [sample_genesis] (sample_writer led)" using sample_writer_at by blast
  have c: "metadata_codec (wCodec sample_writer_env)" using sample_metadata_codec by (simp add: sample_writer_env_def sample_env_def)
  have s: "Serialize (OrdererSigner (oEnv sample_writer_env)) = Inr [1]"
    "unmarshalSignatureHeader (wCodec sample_writer_env) (marshalSignatureHeader (Builder (oEnv sample_writer_env)) sh) = Some sh"
    "marshalSignatureHeader (Builder (oEnv sample_writer_env)) sh \<noteq> []" for sh
    by (simp_all add: sample_writer_env_def sample_env_def sample_orderer_def sample_builder_def sample_codec_def)
  have "config_nums (length [sample_genesis]) (lastConfigBlockNum (sample_writer led)) [NormalBatch [sample_msg 1]] = [0]"
    by (simp add: sample_writer_def)
  with block_signature_readable [OF led sample_env_ok _ c s(1) _ s(2,3), of "[NormalBatch [sample_msg 1]]" False "[]"
      "\<lambda>sds. if map SdIdentity sds = [[1]] then None else Some (Errorf '''')"] sample_writable(1) [of led]
  obtain new :: "block list" and header sig where "BlockSignatureVerifier (wCodec sample_writer_env) False []
      (\<lambda>sds. if map SdIdentity sds = [[1]] then None else Some (Errorf '''')) (BHeader (new ! 0)) (BMetadata (new ! 0)) = None"
      "Sign (OrdererSigner (oEnv sample_writer_env)) (signed_bytes sample_writer_env [] 0 header (BHeader (new ! 0))) = Inr sig"
    by (auto simp: Let_def)
  then show ?thesis by blast
qed

section \<open>Restart\<close>

text \<open>C30: Restarting the writer. A writer that is created from the last block in the ledger and the current bundle
  has recovered the number of the last configuration block from the metadata of that block, knows the
  sequence number of the configuration, and is at the same chain, so that it continues as the writer
  that was stopped would.\<close>

theorem restarted_writer_continues:
  assumes "writer_at e bs bw" "env_ok e" "writable e (length bs) (cmd # cmds) bw" "metadata_codec (wCodec e)"
  shows "\<exists>bw' bw'' new w. write_all e (cmd # cmds) bw = Ret bw' \<and> finish e bw' = Ret bw'' \<and>
    newBlockWriter (wCodec e) (last new) (wLedger bw'') (wBundle bw'') = Ret w \<and>
    lastConfigBlockNum w = lastConfigBlockNum bw'' \<and> lastConfigSeq w = lastConfigSeq bw'' \<and>
    holds (wCodec e) (storeConf e) (bs @ new) (wLedger w) \<and> writer_at e (bs @ new) w"
proof (rule write_all_chain [OF assms(1-3)])
  fix bw' bw'' and new :: "block list"
  let ?nums = "config_nums (length bs) (lastConfigBlockNum bw) (cmd # cmds)" and ?b = "last new"
  assume f: "write_all e (cmd # cmds) bw = Ret bw'" "finish e bw' = Ret bw''" "writer_at e (bs @ new) bw''"
    "holds (wCodec e) (storeConf e) (bs @ new) (wLedger bw'')" "length new = length (cmd # cmds)"
    "lastConfigBlockNum bw'' = last (lastConfigBlockNum bw # ?nums)"
    and w: "\<And>i. i < length (cmd # cmds) \<Longrightarrow> written e (?nums ! i) ((cmd # cmds) ! i) (new ! i)"
  have ne: "new \<noteq> []" using f(5) by auto
  then have blk: "?b = new ! length cmds" using f(5) by (simp add: last_conv_nth)
  have "?nums \<noteq> []" by simp
  then have "lastConfigBlockNum bw'' = ?nums ! length cmds" using f(6) by (simp add: last_conv_nth del: config_nums.simps)
  with w [of "length cmds"] blk have lc: "GetLastConfigIndexFromBlock (wCodec e) ?b = Ret (Inr (lastConfigBlockNum bw''))"
    using sealed_last_config [OF assms(4)] unfolding written_def by auto
  have len: "length (bs @ new) < 2 ^ 62" using f(4) by (auto simp: holds_def ledger_inv_def store_inv_def segs_ok_def)
  have "Number (BHeader ?b) = of_nat (length (bs @ new) - 1)"
    using holds_chain [OF f(4)] ne last_conv_nth [of "bs @ new"] by (simp add: chain_ok_def)
  moreover have "length (bs @ new) - 1 \<noteq> 0" using assms(1) ne by (cases bs; cases new) (auto simp: writer_at_def)
  ultimately have "Number (BHeader ?b) \<noteq> 0" using of_nat_eq_small [of "length (bs @ new) - 1" 0] len by auto
  moreover define w where "w = \<lparr>lastConfigBlockNum = lastConfigBlockNum bw'', lastConfigSeq = Sequence bw'', lastBlock = ?b,
      committing = None, wLedger = wLedger bw'', wBundle = wBundle bw''\<rparr>"
  ultimately have "newBlockWriter (wCodec e) ?b (wLedger bw'') (wBundle bw'') = Ret w"
    using lc by (simp add: newBlockWriter_def Let_def Sequence_def)
  moreover have "lastConfigSeq bw'' = Sequence bw''" "BHeader (lastBlock bw'') = BHeader ?b" "OrdererConfig (wBundle bw'') \<noteq> None"
    using f(3) ne by (simp_all add: writer_at_def)
  then have "writer_at e (bs @ new) w" "lastConfigSeq w = lastConfigSeq bw''"
    using f(4) ne by (simp_all add: writer_at_idle w_def Sequence_def)
  moreover have "lastConfigBlockNum w = lastConfigBlockNum bw''" "wLedger w = wLedger bw''" by (simp_all add: w_def)
  ultimately show ?thesis using f(1,2,4) by metis
qed

theorem restarted_writer_continues_witness:
  "\<exists>led bw' bw'' b w. write_all sample_writer_env [ConfigTx (sample_message HeaderType_CONFIG)] (sample_writer led) = Ret bw' \<and>
     finish sample_writer_env bw' = Ret bw'' \<and> newBlockWriter (wCodec sample_writer_env) b (wLedger bw'') (wBundle bw'') = Ret w \<and>
     lastConfigBlockNum w = lastConfigBlockNum bw''"
proof -
  have "metadata_codec (wCodec sample_writer_env)" using sample_metadata_codec by (simp add: sample_writer_env_def sample_env_def)
  moreover obtain led where led: "writer_at sample_writer_env [sample_genesis] (sample_writer led)" using sample_writer_at by blast
  moreover have "writable sample_writer_env (length [sample_genesis]) [ConfigTx (sample_message HeaderType_CONFIG)] (sample_writer led)"
    using sample_writable(2) [of led] by simp
  ultimately show ?thesis using restarted_writer_continues [OF led sample_env_ok] by blast
qed

section \<open>Commits in the background\<close>

text \<open>The commands with every commit carried out at once.\<close>

fun write_sync :: "'id writer_env \<Rightarrow> write_cmd list \<Rightarrow> block_writer \<Rightarrow> block_writer go" where
  "write_sync e [] bw = Ret bw"
| "write_sync e (cmd # cmds) bw = bind_go (bind_go (write_one e cmd bw) (finish e)) (write_sync e cmds)"

text \<open>The interleavings of the caller and the go-routine that commits: at any point the pending commit may run,
  or the caller goes on with its next command.\<close>

inductive schedule :: "'id writer_env \<Rightarrow> write_cmd list \<Rightarrow> block_writer \<Rightarrow> block_writer \<Rightarrow> bool" for e where
  schedule_done: "schedule e [] bw bw"
| schedule_background: "committing bw \<noteq> None \<Longrightarrow> finish e bw = Ret bw1 \<Longrightarrow> schedule e cmds bw1 bw' \<Longrightarrow> schedule e cmds bw bw'"
| schedule_caller: "write_one e cmd bw = Ret bw1 \<Longrightarrow> schedule e cmds bw1 bw' \<Longrightarrow> schedule e (cmd # cmds) bw bw'"

lemma commitBlock_frame:
  assumes "commitBlock e md bw = Ret bw'"
  shows "wBundle bw' = wBundle bw" "BHeader (lastBlock bw') = BHeader (lastBlock bw)"
  using assms
  by (auto simp: commitBlock_def addLastConfig_def addBlockSignature_def set_metadata_def Let_def result_simps
      split: option.splits if_splits list.splits)

lemma finish_frame:
  assumes "finish e bw = Ret bw'"
  shows "wBundle bw' = wBundle bw" "BHeader (lastBlock bw') = BHeader (lastBlock bw)"
  using assms commitBlock_frame by (fastforce simp: finish_def result_simps split: option.splits)+

lemma WriteConfigBlock_finish:
  assumes "WriteConfigBlock e b md bw = Ret bw'"
  shows "\<exists>bw1. finish e bw = Ret bw1 \<and> WriteConfigBlock e b md bw1 = Ret bw'"
proof -
  obtain bw1 where f: "finish e bw = Ret bw1"
    using assms by (auto simp: WriteConfigBlock_def Let_def result_simps split: option.splits if_splits)
  have idle: "finish e bw1 = Ret bw1" by (rule finish_idle [OF finish_committing [OF f]])
  have "WriteConfigBlock e b md bw1 = WriteConfigBlock e b md bw"
    unfolding WriteConfigBlock_def finish_frame(1) [OF f] f idle by (rule refl)
  with f assms show ?thesis by simp
qed

lemma write_one_finish:
  assumes "write_one e cmd bw = Ret bw'"
  shows "\<exists>bw1. finish e bw = Ret bw1 \<and> write_one e cmd bw1 = Ret bw'"
proof (cases cmd)
  case (NormalBatch ms)
  then obtain bw1 where f: "finish e bw = Ret bw1" "bw' = bw1\<lparr>lastBlock := CreateNextBlock (wCodec e) bw ms, committing := Some []\<rparr>"
    using assms by (auto simp: WriteBlock_def result_simps)
  moreover have "finish e bw1 = Ret bw1" by (rule finish_idle [OF finish_committing [OF f(1)]])
  ultimately show ?thesis using finish_frame(2) [OF f(1)] NormalBatch by (simp add: WriteBlock_def CreateNextBlock_header)
next
  case (ConfigTx env)
  obtain bw1 where f: "finish e bw = Ret bw1" "WriteConfigBlock e (CreateNextBlock (wCodec e) bw [env]) [] bw1 = Ret bw'"
    using WriteConfigBlock_finish [of e "CreateNextBlock (wCodec e) bw [env]" "[]" bw bw'] assms ConfigTx by auto
  then show ?thesis using finish_frame(2) [OF f(1)] ConfigTx by (simp add: CreateNextBlock_header)
qed

text \<open>C7: The background commits are invisible. Whatever the interleaving of the caller, which goes on to create
  and hand over blocks, and of the go-routine that signs and appends the block before, a run that ends
  with no commit pending has exactly the result of the sequential execution in which every command
  signs and appends its block before the next one starts.\<close>

theorem background_commits_invisible:
  assumes "schedule e cmds bw bw'" "committing bw' = None"
  shows "bind_go (finish e bw) (write_sync e cmds) = Ret bw'"
  using assms
proof (induction rule: schedule.induct)
  case (schedule_done bw)
  then show ?case by simp
next
  case (schedule_background bw bw1 cmds bw')
  then have "finish e bw1 = Ret bw1" by (intro finish_idle finish_committing)
  with schedule_background show ?case by simp
next
  case (schedule_caller cmd bw bw1 cmds bw')
  obtain bw0 where "finish e bw = Ret bw0" "write_one e cmd bw0 = Ret bw1" using write_one_finish [OF schedule_caller.hyps(1)] by blast
  with schedule_caller show ?case by simp
qed

theorem background_commits_invisible_witness:
  "\<exists>led bw'. schedule sample_writer_env [NormalBatch [sample_msg 1]] (sample_writer led) bw' \<and> committing bw' = None \<and>
     bind_go (finish sample_writer_env (sample_writer led)) (write_sync sample_writer_env [NormalBatch [sample_msg 1]]) = Ret bw'"
proof -
  obtain led where led: "writer_at sample_writer_env [sample_genesis] (sample_writer led)" using sample_writer_at by blast
  obtain bw1 bw' where w: "write_all sample_writer_env [NormalBatch [sample_msg 1]] (sample_writer led) = Ret bw1"
      "finish sample_writer_env bw1 = Ret bw'"
    by (rule write_all_chain [OF led sample_env_ok, of "[NormalBatch [sample_msg 1]]"]) (use sample_writable(1) [of led] in simp_all)
  then have 1: "write_one sample_writer_env (NormalBatch [sample_msg 1]) (sample_writer led) = Ret bw1" by (auto simp: result_simps)
  then have "committing bw1 \<noteq> None" by (auto simp: WriteBlock_def result_simps)
  with 1 w(2) have "schedule sample_writer_env [NormalBatch [sample_msg 1]] (sample_writer led) bw'"
    by (blast intro: schedule.intros)
  with background_commits_invisible finish_committing [OF w(2)] show ?thesis by blast
qed

section \<open>Accepted configurations are written\<close>

text \<open>What the encodings of a configuration message promise: payloads with a header and the channel header of a
  configuration message decode to what was encoded.\<close>

definition builder_codec :: "codec \<Rightarrow> builder \<Rightarrow> bool" where
  "builder_codec c bld \<longleftrightarrow>
     (\<forall>ch sh d. let p = \<lparr>Header = Some \<lparr>ChannelHeaderBytes = Some ch, SignatureHeaderBytes = sh\<rparr>, Data = d\<rparr>
        in unmarshalPayload c (marshalPayload bld p) = Some p) \<and>
     (\<forall>tm ch. HdrType ch = HeaderType_CONFIG \<longrightarrow> unmarshalChannelHeader c (marshalChannelHeader bld tm ch) = Some ch)"

lemma proposal_config_ok:
  assumes "ProcessConfigUpdateMsg (oEnv e) b clk nonce (Some tx) = Ret (Inr (config, sq))" "builder_codec (wCodec e) (Builder (oEnv e))"
    and "unmarshalEnvelope (wCodec e) (marshalEnvelope (wCodec e) config) = Some config"
    and rt: "\<And>ce. ProposeConfigUpdate (oEnv e) b tx = Ret (Inr ce) \<Longrightarrow>
      unmarshalConfigEnvelope (pConfigCodec (oEnv e)) (marshalConfigEnvelope (Builder (oEnv e)) ce) = Some ce"
    and "map_wf (configMap (configtxManager b))"
    and "\<And>data u. unmarshalConfigUpdate (pConfigCodec (oEnv e)) data = Some u \<Longrightarrow> opt_wf (CuWriteSet u)"
  shows "\<exists>bdl. config_ok e b config bdl"
proof (rule ProcessConfigUpdateMsg_facts [OF assms(1)])
  fix tx' ce
  assume "Some tx = Some tx'" "ProposeConfigUpdate (oEnv e) b tx' = Ret (Inr ce)"
    and env: "CreateSignedEnvelope (Builder (oEnv e)) (OrdererSigner (oEnv e)) (clk 1) nonce HeaderType_CONFIG
       (channelID (configtxManager b)) (marshalConfigEnvelope (Builder (oEnv e)) ce) = Inr config"
  then have p: "ProposeConfigUpdate (oEnv e) b tx = Ret (Inr ce)" by simp
  let ?ch = "\<lparr>HdrType = HeaderType_CONFIG, ChannelId = channelID (configtxManager b), TxId = ''''\<rparr>"
  obtain sh where "Payload config = Some (marshalPayload (Builder (oEnv e)) \<lparr>Header = Some (MakePayloadHeader (Builder (oEnv e)) (clk 1) ?ch sh),
      Data = marshalConfigEnvelope (Builder (oEnv e)) ce\<rparr>)"
    by (rule CreateSignedEnvelope_facts [OF env])
  then have "UnmarshalEnvelopeOfType (wCodec e) (unmarshalConfigEnvelope (pConfigCodec (oEnv e))) config HeaderType_CONFIG = Inr (?ch, ce)"
    using assms(2) rt [OF p]
    by (simp add: UnmarshalEnvelopeOfType_def UnmarshalPayload_def UnmarshalChannelHeader_def slice_def MakePayloadHeader_def builder_codec_def Let_def)
  moreover obtain bdl where
      "proposeConfigUpdate (wCodec e) (pConfigCodec (oEnv e)) (bundle_msp (oEnv e) b) (configtxManager b) tx = Ret (Inr ce)"
      "NewBundle (oEnv e) (channelID (configtxManager b)) (CeConfig ce) = Ret (Inr bdl)" "checkResources bdl = None"
    by (rule ProposeConfigUpdate_facts [OF p])
  moreover from this(1) have "Validate (wCodec e) (pConfigCodec (oEnv e)) (bundle_msp (oEnv e) b) (configtxManager b) (Some ce) = Ret None"
    by (rule Validate_propose [OF _ assms(5,6)])
  ultimately show ?thesis unfolding config_ok_def using assms(3) by (intro exI [of _ bdl] conjI exI [of _ ?ch] exI [of _ ce]) simp_all
qed

text \<open>C8: From the message processor to the ledger. When the processor accepts a configuration update under the
  bundle that is current in the writer, the writer can write the message it produced: no check of
  \<open>WriteConfigBlock\<close> panics, the block is appended to the chain as its own last configuration block, and
  the new bundle has the sequence number after the one the processor returned.\<close>

theorem accepted_config_is_written:
  assumes "writer_at e bs bw" "env_ok e" "length bs + 2 < 2 ^ 62" "Sequence bw + 1 \<noteq> 0"
    and "ProcessConfigUpdateMsg (oEnv e) (wBundle bw) clk nonce (Some tx) = Ret (Inr (config, sq))"
    and "sealable e (of_nat (length bs)) (CreateNextBlock (wCodec e) bw [config])"
    and "builder_codec (wCodec e) (Builder (oEnv e))" "unmarshalEnvelope (wCodec e) (marshalEnvelope (wCodec e) config) = Some config"
    and "\<And>ce. ProposeConfigUpdate (oEnv e) (wBundle bw) tx = Ret (Inr ce) \<Longrightarrow>
      unmarshalConfigEnvelope (pConfigCodec (oEnv e)) (marshalConfigEnvelope (Builder (oEnv e)) ce) = Some ce"
    and "map_wf (configMap (configtxManager (wBundle bw)))"
    and "\<And>data u. unmarshalConfigUpdate (pConfigCodec (oEnv e)) data = Some u \<Longrightarrow> opt_wf (CuWriteSet u)"
  shows "\<exists>bw' b. WriteConfigBlock e (CreateNextBlock (wCodec e) bw [config]) [] bw = Ret bw' \<and> writer_at e (bs @ [b]) bw' \<and>
    BData b = Some [marshalEnvelope (wCodec e) config] \<and> lastConfigBlockNum bw' = Number (BHeader b) \<and> Sequence bw' = sq + 1"
proof -
  have "\<exists>bdl. config_ok e (wBundle bw) config bdl" by (rule proposal_config_ok [OF assms(5,7,8)]) (fact assms(9-11))+
  then obtain bdl where ok: "config_ok e (wBundle bw) config bdl" by blast
  obtain b where b: "seal e [] (of_nat (length bs)) (CreateNextBlock (wCodec e) bw [config]) = Inr b" "length (bbytes b) < 2 ^ 56"
    using assms(6) by (auto simp: sealable_def split: sum.splits)
  obtain bw' where w: "WriteConfigBlock e (CreateNextBlock (wCodec e) bw [config]) [] bw = Ret bw'" "writer_at e (bs @ [b]) bw'"
      "lastConfigBlockNum bw' = of_nat (length bs)" "wBundle bw' = bdl"
    using WriteConfigBlock_next [OF assms(1-4) ok b] by blast
  have "sq = sequence (configtxManager (wBundle bw))" by (rule ProcessConfigUpdateMsg_facts [OF assms(5)])
  then have "Sequence bw' = sq + 1" using config_ok_sequence(1) [OF ok] w(4) by (simp add: Sequence_def)
  moreover have "BHeader b = BHeader (CreateNextBlock (wCodec e) bw [config])" "BData b = BData (CreateNextBlock (wCodec e) bw [config])"
    by (rule seal_facts [OF b(1)], simp)+
  moreover have "next_ok (wCodec e) bs (CreateNextBlock (wCodec e) bw [config])" by (rule next_after [OF assms(1)]) (use assms(3) in linarith)
  ultimately show ?thesis using w(1-3) by (intro exI [of _ bw'] exI [of _ b]) (simp add: CreateNextBlock_facts next_ok_def)
qed

lemma string_of_bytes_of_string [simp]: "string_of_bytes (bytes_of_string s) = s"
proof -
  have "char_of (unat (of_nat (of_char ch) :: byte)) = ch" for ch
    using nat_of_char_less_256 [of ch] by (simp only: unat_of_nat) simp
  then have "char_of (unat (of_char ch :: byte)) = ch" for ch by (simp only: of_nat_of_char)
  then show ?thesis by (simp only: string_of_bytes_def bytes_of_string_def map_map comp_def list.map_ident)
qed

theorem accepted_config_is_written_witness:
  "\<exists>led bw' (b :: block). ProcessConfigUpdateMsg sample_env (wBundle (sample_writer led)) (\<lambda>_. 0) (Inr [9]) (Some (sample_message HeaderType_CONFIG_UPDATE))
     = Ret (Inr (sample_message HeaderType_CONFIG, 7)) \<and> BData b = Some [marshalEnvelope sample_codec (sample_message HeaderType_CONFIG)] \<and>
   WriteConfigBlock sample_writer_env (CreateNextBlock sample_codec (sample_writer led) [sample_message HeaderType_CONFIG]) [] (sample_writer led)
     = Ret bw' \<and> lastConfigBlockNum bw' = Number (BHeader b) \<and> Sequence bw' = 8"
proof -
  obtain led where led: "writer_at sample_writer_env [sample_genesis] (sample_writer led)" using sample_writer_at by blast
  have env: "oEnv sample_writer_env = sample_env" "pCodec sample_env = sample_codec" "wBundle (sample_writer led) = sample_bundle 7 0 10"
    by (simp_all add: sample_writer_env_def sample_env_def sample_writer_def)
  have "Sequence (sample_writer led) + 1 \<noteq> 0" by (simp add: Sequence_def env sample_bundle_def)
  moreover have "builder_codec sample_codec (Builder sample_env)"
    by (auto simp: builder_codec_def Let_def sample_env_def sample_builder_def sample_codec_def slice_def)
  moreover have "unmarshalEnvelope sample_codec (marshalEnvelope sample_codec (sample_message HeaderType_CONFIG)) = Some (sample_message HeaderType_CONFIG)"
    using sample_config_ok by (simp add: config_ok_def env)
  moreover have "unmarshalConfigEnvelope (pConfigCodec sample_env) (marshalConfigEnvelope (Builder sample_env) ce) = Some ce"
    if "ProposeConfigUpdate sample_env (sample_bundle 7 0 10) (sample_message HeaderType_CONFIG_UPDATE) = Ret (Inr ce)" for ce
    using that sample_ProposeConfigUpdate by (simp add: sample_env_def)
  ultimately obtain bw' and b :: block where "BData b = Some [marshalEnvelope sample_codec (sample_message HeaderType_CONFIG)]"
      "WriteConfigBlock sample_writer_env (CreateNextBlock sample_codec (sample_writer led) [sample_message HeaderType_CONFIG]) [] (sample_writer led)
        = Ret bw'" "lastConfigBlockNum bw' = Number (BHeader b)" "Sequence bw' = 8"
    using accepted_config_is_written [OF led sample_env_ok, of "\<lambda>_. 0" "Inr [9]" "sample_message HeaderType_CONFIG_UPDATE"
        "sample_message HeaderType_CONFIG" 7]
      sample_config_update sample_sealable(2) [of led] sample_wf unfolding env by auto
  then show ?thesis using sample_config_update env(3) by metis
qed

end
