(* ===== verification/Nopaxos_Chain.thy ===== *)
theory Nopaxos_Chain
  imports Block_Writer_Facts
begin

text \<open>
  The consensus chain of a channel, \<^verbatim>\<open>orderer/consensus/nopaxos/chain.go\<close>: the main loop takes
  messages from the send channel, validates again those that were checked under an older
  configuration, hands normal messages to the block cutter, and writes the blocks it forms. A timer
  cuts a batch that is not full.

  A Go channel without a buffer is a rendezvous: receiving is an event of the loop. An event carries
  the clocks and the random bytes that are read while it is handled. The timer is the duration it was
  started with.
\<close>

section \<open>The chain\<close>

record chain_msg =
  msgConfigSeq :: u64
  normalMsg :: "envelope option"
  configMsg :: "envelope option"

record nopaxos =
  support :: block_writer
  cutter :: receiver
  timer :: "int option"
  exitChan :: bool

definition newChain :: "block_writer \<Rightarrow> nopaxos" where
  "newChain w = \<lparr>support = w, cutter = NewReceiverImpl, timer = None, exitChan = False\<rparr>"

definition Halt :: "nopaxos \<Rightarrow> nopaxos" where
  "Halt ch = (if exitChan ch then ch else ch\<lparr>exitChan := True\<rparr>)"

text \<open>The messages that \<open>Order\<close> and \<open>Configure\<close> send; the two numbers of the sequencer are not part of it.\<close>

definition Order :: "envelope option \<Rightarrow> u64 \<Rightarrow> u64 \<Rightarrow> u64 \<Rightarrow> chain_msg" where
  "Order env configSeq sequencerId sequencerNumber = \<lparr>msgConfigSeq = configSeq, normalMsg = env, configMsg = None\<rparr>"

definition Configure :: "envelope option \<Rightarrow> u64 \<Rightarrow> chain_msg" where
  "Configure config configSeq = \<lparr>msgConfigSeq = configSeq, normalMsg = None, configMsg = config\<rparr>"

section \<open>The main loop\<close>

fun write_batches :: "'id writer_env \<Rightarrow> envelope list list \<Rightarrow> block_writer \<Rightarrow> block_writer go" where
  "write_batches e [] w = Ret w"
| "write_batches e (batch # batches) w =
     bind_go (WriteBlock e (CreateNextBlock (wCodec e) w batch) [] w) (write_batches e batches)"

definition switch_timer :: "bool \<Rightarrow> nopaxos \<Rightarrow> nopaxos go" where
  "switch_timer pending ch =
     (if timer ch \<noteq> None \<and> \<not> pending then Ret (ch\<lparr>timer := None\<rparr>)
      else if timer ch = None \<and> pending
        then bind_go (SharedConfig (wBundle (support ch))) (\<lambda>oc. Ret (ch\<lparr>timer := Some (BatchTimeout oc)\<rparr>))
      else Ret ch)"

definition order_normal :: "'id writer_env \<Rightarrow> (nat \<Rightarrow> int) \<Rightarrow> envelope option \<Rightarrow> nopaxos \<Rightarrow> nopaxos go" where
  "order_normal e clk msg ch =
     (case msg of
        None \<Rightarrow> Panic ''nil pointer dereference''
      | Some env \<Rightarrow>
          bind_go (Ordered clk (map_option BatchSize (OrdererConfig (wBundle (support ch)))) env (cutter ch)) (\<lambda>(batches, pending, r).
          bind_go (write_batches e batches (support ch)) (\<lambda>w.
            switch_timer pending (ch\<lparr>support := w, cutter := r\<rparr>))))"

definition handle_normal ::
    "'id writer_env \<Rightarrow> (nat \<Rightarrow> int) \<Rightarrow> (nat \<Rightarrow> int) \<Rightarrow> chain_msg \<Rightarrow> nopaxos \<Rightarrow> nopaxos go" where
  "handle_normal e now clk msg ch =
     (if msgConfigSeq msg < Sequence (support ch)
      then bind_go (ProcessNormalMsg (oEnv e) (wBundle (support ch)) (now 0) (normalMsg msg)) (\<lambda>r.
             case r of Inl _ \<Rightarrow> Ret ch | Inr _ \<Rightarrow> order_normal e clk (normalMsg msg) ch)
      else order_normal e clk (normalMsg msg) ch)"

definition order_config :: "'id writer_env \<Rightarrow> (nat \<Rightarrow> int) \<Rightarrow> envelope \<Rightarrow> nopaxos \<Rightarrow> nopaxos go" where
  "order_config e clk config ch =
     (let (batch, r) = Cut (clk 0) (cutter ch) in
      bind_go (if batch \<noteq> [] then WriteBlock e (CreateNextBlock (wCodec e) (support ch) batch) [] (support ch) else Ret (support ch)) (\<lambda>w.
      bind_go (WriteConfigBlock e (CreateNextBlock (wCodec e) w [config]) [] w) (\<lambda>w.
        Ret (ch\<lparr>support := w, cutter := r, timer := None\<rparr>))))"

definition handle_config ::
    "'id writer_env \<Rightarrow> (nat \<Rightarrow> int) \<Rightarrow> error + bytes \<Rightarrow> (nat \<Rightarrow> int) \<Rightarrow> chain_msg \<Rightarrow> envelope \<Rightarrow> nopaxos \<Rightarrow> nopaxos go" where
  "handle_config e now nonce clk msg config ch =
     (if msgConfigSeq msg < Sequence (support ch)
      then bind_go (ProcessConfigMsg (oEnv e) (wBundle (support ch)) now nonce config) (\<lambda>r.
             case r of Inl _ \<Rightarrow> Ret ch | Inr (config, _) \<Rightarrow> order_config e clk config ch)
      else order_config e clk config ch)"

definition handle_timer :: "'id writer_env \<Rightarrow> (nat \<Rightarrow> int) \<Rightarrow> nopaxos \<Rightarrow> nopaxos go" where
  "handle_timer e clk ch =
     (let (batch, r) = Cut (clk 0) (cutter ch) in
      if length batch = 0 then Ret (ch\<lparr>cutter := r, timer := None\<rparr>)
      else bind_go (WriteBlock e (CreateNextBlock (wCodec e) (support ch) batch) [] (support ch)) (\<lambda>w.
        Ret (ch\<lparr>support := w, cutter := r, timer := None\<rparr>)))"

datatype chain_event = Receive "nat \<Rightarrow> int" "error + bytes" "nat \<Rightarrow> int" chain_msg | Expire "nat \<Rightarrow> int"

text \<open>One iteration of the loop for the case that \<open>select\<close> has chosen. The loop ends when the exit channel
  is chosen, with no effect on the chain.\<close>

fun main_iteration :: "'id writer_env \<Rightarrow> chain_event \<Rightarrow> nopaxos \<Rightarrow> nopaxos go" where
  "main_iteration e (Receive now nonce clk msg) ch =
     (case configMsg msg of
        None \<Rightarrow> handle_normal e now clk msg ch
      | Some config \<Rightarrow> handle_config e now nonce clk msg config ch)"
| "main_iteration e (Expire clk) ch = handle_timer e clk ch"

fun main_loop :: "'id writer_env \<Rightarrow> chain_event list \<Rightarrow> nopaxos \<Rightarrow> nopaxos go" where
  "main_loop e [] ch = Ret ch"
| "main_loop e (ev # evs) ch = bind_go (main_iteration e ev ch) (main_loop e evs)"

section \<open>What an iteration decides\<close>

text \<open>The outcome of the validation of an event: a message is taken or discarded.\<close>

datatype intake = Discard | TakeNormal "nat \<Rightarrow> int" envelope | TakeConfig "nat \<Rightarrow> int" envelope | Flush "nat \<Rightarrow> int"

definition take_normal :: "(nat \<Rightarrow> int) \<Rightarrow> envelope option \<Rightarrow> intake go" where
  "take_normal clk msg = (case msg of None \<Rightarrow> Panic ''nil pointer dereference'' | Some env \<Rightarrow> Ret (TakeNormal clk env))"

fun decide :: "'id writer_env \<Rightarrow> chain_event \<Rightarrow> nopaxos \<Rightarrow> intake go" where
  "decide e (Receive now nonce clk msg) ch =
     (let stale = msgConfigSeq msg < Sequence (support ch); b = wBundle (support ch) in
      case configMsg msg of
        None \<Rightarrow>
          if stale then bind_go (ProcessNormalMsg (oEnv e) b (now 0) (normalMsg msg)) (\<lambda>r.
            case r of Inl _ \<Rightarrow> Ret Discard | Inr _ \<Rightarrow> take_normal clk (normalMsg msg))
          else take_normal clk (normalMsg msg)
      | Some config \<Rightarrow>
          if stale then bind_go (ProcessConfigMsg (oEnv e) b now nonce config) (\<lambda>r.
            case r of Inl _ \<Rightarrow> Ret Discard | Inr (config, _) \<Rightarrow> Ret (TakeConfig clk config))
          else Ret (TakeConfig clk config))"
| "decide e (Expire clk) ch = Ret (Flush clk)"

fun intake_messages :: "intake \<Rightarrow> envelope list" where
  "intake_messages (TakeNormal clk env) = [env]"
| "intake_messages (TakeConfig clk env) = [env]"
| "intake_messages _ = []"

definition flush :: "receiver \<Rightarrow> write_cmd list" where
  "flush r = (if pendingBatch r = [] then [] else [NormalBatch (pendingBatch r)])"

text \<open>The blocks that follow from the decision, the cutter afterwards and whether a timer runs.\<close>

fun react :: "batch_size option \<Rightarrow> intake \<Rightarrow> receiver \<Rightarrow> (write_cmd list \<times> bool \<times> receiver) go" where
  "react bz Discard r = Ret ([], pendingBatch r \<noteq> [], r)"
| "react bz (TakeNormal clk env) r =
     bind_go (Ordered clk bz env r) (\<lambda>(batches, pending, r). Ret (map NormalBatch batches, pending, r))"
| "react bz (TakeConfig clk config) r = Ret (flush r @ [ConfigTx config], False, snd (Cut (clk 0) r))"
| "react bz (Flush clk) r = Ret (flush r, False, snd (Cut (clk 0) r))"

abbreviation (input) "batch_size_of ch \<equiv> map_option BatchSize (OrdererConfig (wBundle (support ch)))"

lemma bind_go_assoc: "bind_go (bind_go m f) g = bind_go m (\<lambda>x. bind_go (f x) g)"
  by (cases m) simp_all


lemma write_batches_all: "write_batches e batches w = write_all e (map NormalBatch batches) w"
proof (induction batches arbitrary: w)
  case (Cons batch batches)
  then show ?case by (cases "WriteBlock e (CreateNextBlock (wCodec e) w batch) [] w") simp_all
qed simp

lemma write_all_append: "write_all e (cmds @ cmds') w = bind_go (write_all e cmds w) (write_all e cmds')"
proof (induction cmds arbitrary: w)
  case (Cons cmd cmds)
  then show ?case by (cases "write_one e cmd w") simp_all
qed simp

lemma cut_pending: "fst (Cut t r) = pendingBatch r" "pendingBatch (snd (Cut t r)) = []"
  by (simp_all add: Cut_def Let_def)

lemma cut_wf: "receiver_wf r \<Longrightarrow> receiver_wf (snd (Cut t r))"
  using bc.cut_wf [of r t] by (cases "Cut t r") auto

lemma react_queue:
  assumes "receiver_wf r" "react bz i r = Ret (cmds, p, r')"
  shows "concat (map cmd_messages cmds) @ pendingBatch r' = pendingBatch r @ intake_messages i \<and>
    (p \<longleftrightarrow> pendingBatch r' \<noteq> []) \<and> receiver_wf r'"
proof (cases i)
  case (TakeNormal clk env)
  with assms(2) obtain batches where "Ordered clk bz env r = Ret (batches, p, r')" "cmds = map NormalBatch batches"
    by (auto simp: result_simps)
  moreover have "concat (map cmd_messages (map NormalBatch bs)) = concat bs" for bs by (induction bs) simp_all
  ultimately show ?thesis using Ordered_queue [OF assms(1)] TakeNormal by fastforce
qed (use assms in \<open>auto simp: flush_def cut_pending cut_wf\<close>)

definition new_timer :: "orderer_config \<Rightarrow> bool \<Rightarrow> int option \<Rightarrow> int option" where
  "new_timer oc pending t = (if \<not> pending then None else if t = None then Some (BatchTimeout oc) else t)"

lemma new_timer_iff: "new_timer oc p t \<noteq> None \<longleftrightarrow> p"
  by (auto simp: new_timer_def)

lemma switch_timer_eq:
  "OrdererConfig (wBundle (support ch)) = Some oc \<Longrightarrow> switch_timer p ch = Ret (ch\<lparr>timer := new_timer oc p (timer ch)\<rparr>)"
  by (cases ch) (auto simp: switch_timer_def SharedConfig_def new_timer_def)

lemma order_normal_eq:
  assumes "Ordered clk (batch_size_of ch) env (cutter ch) = Ret (batches, p, r)"
    and "write_all e (map NormalBatch batches) (support ch) = Ret w" "OrdererConfig (wBundle w) = Some oc"
  shows "order_normal e clk (Some env) ch = Ret (ch\<lparr>support := w, cutter := r, timer := new_timer oc p (timer ch)\<rparr>)"
  using assms by (simp add: order_normal_def write_batches_all switch_timer_eq)

lemma flush_write:
  "(if pendingBatch r \<noteq> [] then WriteBlock e (CreateNextBlock (wCodec e) w (pendingBatch r)) [] w else Ret w) = write_all e (flush r) w"
  by (cases "WriteBlock e (CreateNextBlock (wCodec e) w (pendingBatch r)) [] w") (simp_all add: flush_def)

lemma order_config_eq:
  assumes "write_all e (flush (cutter ch) @ [ConfigTx config]) (support ch) = Ret w"
  shows "order_config e clk config ch = Ret (ch\<lparr>support := w, cutter := snd (Cut (clk 0) (cutter ch)), timer := None\<rparr>)"
proof -
  obtain w1 where "write_all e (flush (cutter ch)) (support ch) = Ret w1"
      "WriteConfigBlock e (CreateNextBlock (wCodec e) w1 [config]) [] w1 = Ret w"
    using assms by (auto simp: write_all_append result_simps)
  then show ?thesis
    unfolding order_config_def case_prod_beta Let_def cut_pending(1) flush_write by simp
qed

lemma handle_timer_eq:
  assumes "write_all e (flush (cutter ch)) (support ch) = Ret w"
  shows "handle_timer e clk ch = Ret (ch\<lparr>support := w, cutter := snd (Cut (clk 0) (cutter ch)), timer := None\<rparr>)"
  using assms by (auto simp: handle_timer_def case_prod_beta Let_def cut_pending(1) flush_def result_simps)

lemma decide_normal:
  assumes "decide e (Receive now nonce clk msg) ch = Ret i" "configMsg msg = None"
  shows "i = Discard \<and> main_iteration e (Receive now nonce clk msg) ch = Ret ch \<or>
    (\<exists>env. i = TakeNormal clk env \<and> main_iteration e (Receive now nonce clk msg) ch = order_normal e clk (Some env) ch)"
proof (cases "msgConfigSeq msg < Sequence (support ch)")
  case True
  then show ?thesis
    using assms
    by (cases "ProcessNormalMsg (oEnv e) (wBundle (support ch)) (now 0) (normalMsg msg)")
      (auto simp: handle_normal_def take_normal_def split: sum.splits option.splits)
next
  case False
  then show ?thesis using assms by (auto simp: handle_normal_def take_normal_def split: option.splits)
qed

lemma decide_config:
  assumes "decide e (Receive now nonce clk msg) ch = Ret i" "configMsg msg = Some config"
  shows "i = Discard \<and> main_iteration e (Receive now nonce clk msg) ch = Ret ch \<or>
    (\<exists>config'. i = TakeConfig clk config' \<and> main_iteration e (Receive now nonce clk msg) ch = order_config e clk config' ch)"
proof (cases "msgConfigSeq msg < Sequence (support ch)")
  case True
  then show ?thesis
    using assms by (cases "ProcessConfigMsg (oEnv e) (wBundle (support ch)) now nonce config") (auto simp: handle_config_def split: sum.splits)
next
  case False
  then show ?thesis using assms by (auto simp: handle_config_def)
qed

lemma main_iteration_eq:
  assumes "decide e ev ch = Ret i" "react (batch_size_of ch) i (cutter ch) = Ret (cmds, p, r)"
    and "write_all e cmds (support ch) = Ret w" "OrdererConfig (wBundle w) \<noteq> None" "timer ch \<noteq> None \<longleftrightarrow> pendingBatch (cutter ch) \<noteq> []"
  shows "\<exists>t. main_iteration e ev ch = Ret (ch\<lparr>support := w, cutter := r, timer := t\<rparr>) \<and> (t \<noteq> None \<longleftrightarrow> p)"
proof (cases ev)
  case (Expire clk)
  then have "i = Flush clk" using assms(1) by simp
  then show ?thesis using Expire assms(2,3) handle_timer_eq [of e ch w clk] by (intro exI [of _ None]) simp
next
  case (Receive now nonce clk msg)
  have discard: ?thesis if d: "main_iteration e ev ch = Ret ch" "i = Discard"
  proof -
    have "w = support ch" "r = cutter ch" "p \<longleftrightarrow> timer ch \<noteq> None" using assms(2,3,5) d(2) by auto
    then show ?thesis using d(1) by (intro exI [of _ "timer ch"]) (cases ch, simp)
  qed
  obtain oc where oc: "OrdererConfig (wBundle w) = Some oc" using assms(4) by blast
  show ?thesis
  proof (cases "configMsg msg")
    case None
    then consider "main_iteration e ev ch = Ret ch" "i = Discard"
      | env where "i = TakeNormal clk env" "main_iteration e ev ch = order_normal e clk (Some env) ch"
      using decide_normal assms(1) Receive by blast
    then show ?thesis
    proof cases
      case (2 env)
      then obtain batches where "Ordered clk (batch_size_of ch) env (cutter ch) = Ret (batches, p, r)" "cmds = map NormalBatch batches"
        using assms(2) by (auto simp: result_simps)
      with order_normal_eq [OF _ _ oc] assms(3) 2(2) have "main_iteration e ev ch = Ret (ch\<lparr>support := w, cutter := r, timer := new_timer oc p (timer ch)\<rparr>)"
        by simp
      with new_timer_iff show ?thesis by blast
    qed (rule discard)
  next
    case (Some config)
    then consider "main_iteration e ev ch = Ret ch" "i = Discard"
      | config' where "i = TakeConfig clk config'" "main_iteration e ev ch = order_config e clk config' ch"
      using decide_config assms(1) Receive by blast
    then show ?thesis
    proof cases
      case (2 config')
      then show ?thesis using assms(2,3) order_config_eq [of e ch config' w clk] by (intro exI [of _ None]) simp
    qed (rule discard)
  qed
qed

section \<open>Runs\<close>

text \<open>The state of a chain whose blocks are \<open>bs\<close>: its writer is at these blocks, and a timer runs exactly
  when messages are waiting in the cutter.\<close>

definition chain_at :: "'id writer_env \<Rightarrow> block list \<Rightarrow> nopaxos \<Rightarrow> bool" where
  "chain_at e bs ch \<longleftrightarrow> writer_at e bs (support ch) \<and> receiver_wf (cutter ch) \<and> (timer ch \<noteq> None \<longleftrightarrow> pendingBatch (cutter ch) \<noteq> [])"

text \<open>The conditions for a run without a panic: the messages are not nil, and the blocks that the events lead
  to can be signed and stored.\<close>

fun runnable :: "'id writer_env \<Rightarrow> nat \<Rightarrow> chain_event list \<Rightarrow> nopaxos \<Rightarrow> bool" where
  "runnable e n [] ch = True"
| "runnable e n (ev # evs) ch =
     (case decide e ev ch of
        Panic _ \<Rightarrow> False
      | Ret i \<Rightarrow>
          (case react (batch_size_of ch) i (cutter ch) of
             Panic _ \<Rightarrow> False
           | Ret (cmds, p, r) \<Rightarrow> writable e n cmds (support ch) \<and>
               (case main_iteration e ev ch of Panic _ \<Rightarrow> True | Ret ch' \<Rightarrow> runnable e (n + length cmds) evs ch')))"

text \<open>The messages that a run takes, in the order in which the loop receives them.\<close>

fun taken :: "'id writer_env \<Rightarrow> chain_event list \<Rightarrow> nopaxos \<Rightarrow> envelope list" where
  "taken e [] ch = []"
| "taken e (ev # evs) ch =
     (case decide e ev ch of Panic _ \<Rightarrow> [] | Ret i \<Rightarrow> intake_messages i) @
     (case main_iteration e ev ch of Panic _ \<Rightarrow> [] | Ret ch' \<Rightarrow> taken e evs ch')"

abbreviation (input) "block_data b \<equiv> items_of (BData b)"

lemma written_data:
  assumes "list_all2 (\<lambda>(k, cmd) b. written e k cmd b) (zip ks cmds) new" "length ks = length cmds"
  shows "concat (map block_data new) = map (marshalEnvelope (wCodec e)) (concat (map cmd_messages cmds))"
  using assms
proof (induction cmds arbitrary: ks new)
  case (Cons cmd cmds)
  obtain k ks' where ks: "ks = k # ks'" using Cons.prems(2) by (cases ks) auto
  obtain b new' where new: "new = b # new'" "written e k cmd b" "list_all2 (\<lambda>(k, cmd) b. written e k cmd b) (zip ks' cmds) new'"
    using Cons.prems(1) unfolding ks by (auto simp: list_all2_Cons1)
  have "block_data b = map (marshalEnvelope (wCodec e)) (cmd_messages cmd)" using new(2) by (simp add: written_def items_of_def)
  with Cons.IH [OF new(3)] Cons.prems(2) show ?case by (simp add: ks new(1))
qed simp

lemma iteration_ok:
  assumes at: "chain_at e bs ch" and "env_ok e" "decide e ev ch = Ret i" and r: "react (batch_size_of ch) i (cutter ch) = Ret (cmds, p, r)"
    and "writable e (length bs) cmds (support ch)"
  shows "\<exists>ch' new. main_iteration e ev ch = Ret ch' \<and> chain_at e (bs @ new) ch' \<and> length new = length cmds \<and>
    concat (map block_data new) @ map (marshalEnvelope (wCodec e)) (pendingBatch (cutter ch'))
      = map (marshalEnvelope (wCodec e)) (pendingBatch (cutter ch) @ intake_messages i)"
proof -
  have w: "writer_at e bs (support ch)" "receiver_wf (cutter ch)" "timer ch \<noteq> None \<longleftrightarrow> pendingBatch (cutter ch) \<noteq> []"
    using at by (simp_all add: chain_at_def)
  let ?ks = "config_nums (length bs) (lastConfigBlockNum (support ch)) cmds"
  obtain bw' new where n: "write_all e cmds (support ch) = Ret bw'" "writer_at e (bs @ new) bw'"
      "list_all2 (\<lambda>(k, cmd) b. written e k cmd b) (zip ?ks cmds) new"
    using write_all_ok [OF w(1) assms(2,5)] by blast
  have q: "concat (map cmd_messages cmds) @ pendingBatch r = pendingBatch (cutter ch) @ intake_messages i"
      "p \<longleftrightarrow> pendingBatch r \<noteq> []" "receiver_wf r"
    using react_queue [OF w(2) r] by simp_all
  have "OrdererConfig (wBundle bw') \<noteq> None" using n(2) by (simp add: writer_at_def)
  then obtain t where t: "main_iteration e ev ch = Ret (ch\<lparr>support := bw', cutter := r, timer := t\<rparr>)" "t \<noteq> None \<longleftrightarrow> p"
    using main_iteration_eq [OF assms(3) r n(1) _ w(3)] by blast
  have "chain_at e (bs @ new) (ch\<lparr>support := bw', cutter := r, timer := t\<rparr>)"
    using n(2) q(2,3) t(2) by (simp add: chain_at_def)
  moreover have "length new = length cmds" using list_all2_lengthD [OF n(3)] by simp
  moreover have "concat (map block_data new) = map (marshalEnvelope (wCodec e)) (concat (map cmd_messages cmds))"
    by (rule written_data [OF n(3)]) simp
  then have "concat (map block_data new) @ map (marshalEnvelope (wCodec e)) (pendingBatch r)
      = map (marshalEnvelope (wCodec e)) (pendingBatch (cutter ch) @ intake_messages i)"
    unfolding q(1) [symmetric] by simp
  ultimately show ?thesis using t(1) by (intro exI [of _ "ch\<lparr>support := bw', cutter := r, timer := t\<rparr>"] exI [of _ new]) simp
qed

lemma loop_ok:
  assumes "chain_at e bs ch" "env_ok e" "runnable e (length bs) (evs @ rest) ch"
  shows "\<exists>ch' new. main_loop e evs ch = Ret ch' \<and> chain_at e (bs @ new) ch' \<and> runnable e (length (bs @ new)) rest ch' \<and>
    concat (map block_data new) @ map (marshalEnvelope (wCodec e)) (pendingBatch (cutter ch'))
      = map (marshalEnvelope (wCodec e)) (pendingBatch (cutter ch) @ taken e evs ch)"
  using assms
proof (induction evs arbitrary: bs ch)
  case Nil
  then show ?case by (intro exI [of _ ch] exI [of _ "[]"]) simp
next
  case (Cons ev evs)
  let ?m = "map (marshalEnvelope (wCodec e))"
  obtain i cmds p r where d: "decide e ev ch = Ret i" "react (batch_size_of ch) i (cutter ch) = Ret (cmds, p, r)"
      "writable e (length bs) cmds (support ch)"
    using Cons.prems(3) by (auto split: go.splits)
  obtain ch1 new1 where 1: "main_iteration e ev ch = Ret ch1" "chain_at e (bs @ new1) ch1" "length new1 = length cmds"
      "concat (map block_data new1) @ ?m (pendingBatch (cutter ch1)) = ?m (pendingBatch (cutter ch) @ intake_messages i)"
    using iteration_ok [OF Cons.prems(1,2) d] by blast
  have "runnable e (length (bs @ new1)) (evs @ rest) ch1" using Cons.prems(3) d 1(1,3) by simp
  then obtain ch' new where 2: "main_loop e evs ch1 = Ret ch'" "chain_at e ((bs @ new1) @ new) ch'"
      "runnable e (length ((bs @ new1) @ new)) rest ch'"
      "concat (map block_data new) @ ?m (pendingBatch (cutter ch')) = ?m (pendingBatch (cutter ch1) @ taken e evs ch1)"
    using Cons.IH [OF 1(2) Cons.prems(2)] by blast
  have "concat (map block_data (new1 @ new)) @ ?m (pendingBatch (cutter ch')) = ?m (pendingBatch (cutter ch) @ taken e (ev # evs) ch)"
    using 1(1,4) 2(4) d(1) by simp
  with 1(1) 2(1-3) show ?case by (intro exI [of _ ch'] exI [of _ "new1 @ new"]) simp
qed

lemma new_chain_at: "writer_at e bs w \<Longrightarrow> chain_at e bs (newChain w)"
  using bc.pend_init bc.wf_init by (simp add: chain_at_def newChain_def)

lemma chain_ledger:
  assumes "chain_at e bs ch"
  shows "\<exists>w. finish e (support ch) = Ret w \<and> holds (wCodec e) (storeConf e) bs (wLedger w)"
  using assms by (auto simp: chain_at_def writer_at_def)

section \<open>Properties\<close>

text \<open>A message that is checked under the current configuration waits in the cutter until the timer expires.\<close>

definition sample_events :: "chain_event list" where
  "sample_events = [Receive (\<lambda>_. 0) (Inr [9]) (\<lambda>_. 0) (Order (Some (sample_msg 1)) 7 1 0)]"

definition sample_pending :: receiver where
  "sample_pending = NewReceiverImpl\<lparr>pendingBatch := [sample_msg 1], pendingBatchSizeBytes := 3\<rparr>"

lemma sample_react:
  "react (batch_size_of (newChain (sample_writer led))) (TakeNormal (\<lambda>_. 0) (sample_msg 1)) NewReceiverImpl = Ret ([], True, sample_pending)"
proof -
  have "batch_size_of (newChain (sample_writer led)) = Some \<lparr>MaxMessageCount = 10, AbsoluteMaxBytes = 1000, PreferredMaxBytes = 100\<rparr>"
    by (simp add: newChain_def sample_writer_def sample_orderer_config sample_oc_def)
  moreover have "Ordered (\<lambda>_. 0) (Some \<lparr>MaxMessageCount = 10, AbsoluteMaxBytes = 1000, PreferredMaxBytes = 100\<rparr>) (sample_msg 1) NewReceiverImpl
      = Ret ([], True, sample_pending)"
    by code_simp
  ultimately show ?thesis by (simp del: map_option_eq_Some)
qed

lemma sample_sequence: "sequence (configtxManager (sample_bundle sq ver count)) = sq"
  by (simp add: sample_bundle_def)

lemma sample_received:
  "main_iteration sample_writer_env (hd sample_events) (newChain (sample_writer led))
     = Ret (newChain (sample_writer led)\<lparr>cutter := sample_pending, timer := Some 2\<rparr>)"
  using sample_react [of led]
  by (auto simp: sample_events_def Order_def handle_normal_def order_normal_def result_simps switch_timer_def SharedConfig_def
      newChain_def sample_writer_def Sequence_def sample_sequence sample_orderer_config sample_oc_def zero_orderer_def split: go.splits prod.splits)

lemma sample_runnable: "runnable sample_writer_env 1 (sample_events @ [Expire (\<lambda>_. 0)]) (newChain (sample_writer led))"
proof -
  let ?ch = "newChain (sample_writer led)" and ?ch' = "newChain (sample_writer led)\<lparr>cutter := sample_pending, timer := Some 2\<rparr>"
  obtain ev where ev: "sample_events = [ev]" "main_iteration sample_writer_env ev ?ch = Ret ?ch'"
    using sample_received [of led] by (simp add: sample_events_def)
  have "decide sample_writer_env ev ?ch = Ret (TakeNormal (\<lambda>_. 0) (sample_msg 1))"
    using ev(1) by (auto simp: sample_events_def Order_def take_normal_def newChain_def sample_writer_def Sequence_def sample_sequence)
  moreover have "cutter ?ch = NewReceiverImpl" "flush sample_pending = [NormalBatch [sample_msg 1]]" "support ?ch' = sample_writer led"
    "cutter ?ch' = sample_pending"
    by (simp_all add: newChain_def flush_def sample_pending_def)
  ultimately show ?thesis
    using ev(2) sample_react [of led] sample_writable(1) [of led] unfolding ev(1) by (simp split: go.split)
qed

text \<open>C2: Total order. A chain that starts on the blocks \<open>bs\<close> and is fed any sequence of normal messages,
  configuration messages and timer expiries whose blocks can be signed and stored does not panic, and its
  ledger is extended by blocks that form a hash chain with \<open>bs\<close>. The data of the new blocks, one after the
  other, followed by the messages that wait in the cutter, are exactly the messages that the loop took,
  each once and in the order in which it received them; a message that is discarded leaves no trace.\<close>

theorem nopaxos_total_order:
  assumes "writer_at e bs w" "env_ok e" "runnable e (length bs) evs (newChain w)"
  shows "\<exists>ch w' new. main_loop e evs (newChain w) = Ret ch \<and> finish e (support ch) = Ret w' \<and>
    holds (wCodec e) (storeConf e) (bs @ new) (wLedger w') \<and> chain_ok (wCodec e) (bs @ new) \<and>
    concat (map block_data new) @ map (marshalEnvelope (wCodec e)) (pendingBatch (cutter ch))
      = map (marshalEnvelope (wCodec e)) (taken e evs (newChain w))"
proof -
  obtain ch new where ch: "main_loop e evs (newChain w) = Ret ch" "chain_at e (bs @ new) ch"
      "concat (map block_data new) @ map (marshalEnvelope (wCodec e)) (pendingBatch (cutter ch))
        = map (marshalEnvelope (wCodec e)) (pendingBatch (cutter (newChain w)) @ taken e evs (newChain w))"
    using loop_ok [OF new_chain_at [OF assms(1)] assms(2), of evs "[]"] assms(3) by auto
  obtain w' where w': "finish e (support ch) = Ret w'" "holds (wCodec e) (storeConf e) (bs @ new) (wLedger w')"
    using chain_ledger [OF ch(2)] by blast
  have "pendingBatch (cutter (newChain w)) = []" using bc.pend_init by (simp add: newChain_def)
  with ch(3) have "concat (map block_data new) @ map (marshalEnvelope (wCodec e)) (pendingBatch (cutter ch))
      = map (marshalEnvelope (wCodec e)) (taken e evs (newChain w))" by simp
  with ch(1) w' holds_chain [OF w'(2)] show ?thesis by blast
qed

theorem nopaxos_total_order_witness:
  "\<exists>led ch (new :: block list). main_loop sample_writer_env (sample_events @ [Expire (\<lambda>_. 0)]) (newChain (sample_writer led)) = Ret ch \<and>
     concat (map block_data new) @ map (marshalEnvelope (wCodec sample_writer_env)) (pendingBatch (cutter ch)) =
       map (marshalEnvelope (wCodec sample_writer_env)) (taken sample_writer_env (sample_events @ [Expire (\<lambda>_. 0)]) (newChain (sample_writer led)))"
proof -
  obtain led where "writer_at sample_writer_env [sample_genesis] (sample_writer led)" using sample_writer_at by blast
  from nopaxos_total_order [OF this sample_env_ok, of "sample_events @ [Expire (\<lambda>_. 0)]"] sample_runnable [of led]
  show ?thesis by auto
qed

text \<open>C9: No message waits for ever. After any run the batch timer is running exactly when messages wait in the
  cutter, and when it expires they are all written: the data of the blocks since the start are then
  exactly the messages that were taken, and nothing waits any longer.\<close>

theorem timer_flushes_pending:
  assumes "writer_at e bs w" "env_ok e" "runnable e (length bs) (evs @ [Expire clk]) (newChain w)"
  shows "\<exists>ch1 ch2 w' new. main_loop e evs (newChain w) = Ret ch1 \<and> (timer ch1 \<noteq> None \<longleftrightarrow> pendingBatch (cutter ch1) \<noteq> []) \<and>
    main_iteration e (Expire clk) ch1 = Ret ch2 \<and> timer ch2 = None \<and> pendingBatch (cutter ch2) = [] \<and>
    finish e (support ch2) = Ret w' \<and> holds (wCodec e) (storeConf e) (bs @ new) (wLedger w') \<and>
    concat (map block_data new) = map (marshalEnvelope (wCodec e)) (taken e evs (newChain w))"
proof -
  let ?m = "map (marshalEnvelope (wCodec e))"
  obtain ch1 new1 where 1: "main_loop e evs (newChain w) = Ret ch1" "chain_at e (bs @ new1) ch1"
      "runnable e (length (bs @ new1)) [Expire clk] ch1"
      "concat (map block_data new1) @ ?m (pendingBatch (cutter ch1)) = ?m (pendingBatch (cutter (newChain w)) @ taken e evs (newChain w))"
    using loop_ok [OF new_chain_at [OF assms(1)] assms(2,3)] by blast
  have "decide e (Expire clk) ch1 = Ret (Flush clk)" "react (batch_size_of ch1) (Flush clk) (cutter ch1)
      = Ret (flush (cutter ch1), False, snd (Cut (clk 0) (cutter ch1)))" "writable e (length (bs @ new1)) (flush (cutter ch1)) (support ch1)"
    using 1(3) by simp_all
  from iteration_ok [OF 1(2) assms(2) this] obtain ch2 new2 where 2: "main_iteration e (Expire clk) ch1 = Ret ch2"
      "chain_at e ((bs @ new1) @ new2) ch2"
      "concat (map block_data new2) @ ?m (pendingBatch (cutter ch2)) = ?m (pendingBatch (cutter ch1))"
    by auto
  have cut: "pendingBatch (cutter ch2) = []" "timer ch2 = None"
    using 2(1) by (auto simp: handle_timer_def Let_def case_prod_beta cut_pending result_simps split: if_splits)
  obtain w' where "finish e (support ch2) = Ret w'" "holds (wCodec e) (storeConf e) (bs @ new1 @ new2) (wLedger w')"
    using chain_ledger [OF 2(2)] by auto
  moreover have "concat (map block_data (new1 @ new2)) = ?m (taken e evs (newChain w))"
    using 1(4) 2(3) cut(1) bc.pend_init by (simp add: newChain_def)
  ultimately show ?thesis using 1(1,2) 2(1) cut unfolding chain_at_def by blast
qed

theorem timer_flushes_pending_witness:
  "\<exists>led ch1 ch2 (new :: block list). main_loop sample_writer_env sample_events (newChain (sample_writer led)) = Ret ch1 \<and> pendingBatch (cutter ch1) = [sample_msg 1] \<and>
     main_iteration sample_writer_env (Expire (\<lambda>_. 0)) ch1 = Ret ch2 \<and> pendingBatch (cutter ch2) = [] \<and>
     concat (map block_data new) = map (marshalEnvelope (wCodec sample_writer_env)) (taken sample_writer_env sample_events (newChain (sample_writer led)))"
proof -
  obtain led where led: "writer_at sample_writer_env [sample_genesis] (sample_writer led)" using sample_writer_at by blast
  obtain ch1 ch2 w' and new :: "block list" where 1: "main_loop sample_writer_env sample_events (newChain (sample_writer led)) = Ret ch1"
      "main_iteration sample_writer_env (Expire (\<lambda>_. 0)) ch1 = Ret ch2" "pendingBatch (cutter ch2) = []"
      "concat (map block_data new) = map (marshalEnvelope (wCodec sample_writer_env)) (taken sample_writer_env sample_events (newChain (sample_writer led)))"
    using timer_flushes_pending [OF led sample_env_ok, of sample_events "\<lambda>_. 0"] sample_runnable [of led] by auto
  have "ch1 = newChain (sample_writer led)\<lparr>cutter := sample_pending, timer := Some 2\<rparr>"
    using sample_received [of led] 1(1) by (simp add: sample_events_def)
  then have "pendingBatch (cutter ch1) = [sample_msg 1]" by (simp add: sample_pending_def)
  with 1 show ?thesis by blast
qed

end
