(* ===== verification/Ordering_Service.thy ===== *)
theory Ordering_Service
  imports Nopaxos_Chain
begin

text \<open>
  How messages reach the consensus chain of a channel: the look-up of the channel
  (\<^verbatim>\<open>orderer/common/multichannel/registrar.go\<close>), the handler of the broadcast service
  (\<^verbatim>\<open>orderer/common/broadcast/broadcast.go\<close>), the path over UDP from the gateway of a peer
  (\<^verbatim>\<open>internal/pkg/gateway/submit.go\<close>) through the sequencer (\<^verbatim>\<open>sequencer/sequencer.go\<close>) to the
  orderer (\<^verbatim>\<open>orderer/common/server/udpServer.go\<close>), and the interleaving of many submissions with the
  main loop of the chain.

  Sending to the chain is a rendezvous with its main loop. Whether the loop takes the message or the
  closed exit channel is chosen first is an argument of the operations.
\<close>

section \<open>Looking up a channel\<close>

type_synonym registrar = "(string \<times> nopaxos) list"

definition GetChain :: "registrar \<Rightarrow> string \<Rightarrow> nopaxos option" where
  "GetChain chs chainID = map_of chs chainID"

text \<open>The channel header, if it could be read, and an error or whether the message is a configuration update
  together with the chain.\<close>

definition BroadcastChannelSupport ::
    "codec \<Rightarrow> registrar \<Rightarrow> envelope option \<Rightarrow> channel_header option \<times> (error + bool \<times> nopaxos)" where
  "BroadcastChannelSupport c chs msg =
     (case ChannelHeader c msg of
        Inl er \<Rightarrow> (None, Inl (WithMessage er ''could not determine channel ID''))
      | Inr chdr \<Rightarrow>
          (Some chdr,
           case GetChain chs (ChannelId chdr) of
             None \<Rightarrow> Inl (Errorf ''channel does not exist'')
           | Some cs \<Rightarrow>
               (case ClassifyMsg chdr of
                  ConfigUpdateMsg \<Rightarrow> Inr (True, cs)
                | ConfigMsg \<Rightarrow> Inl (Errorf ''message is of type that cannot be processed directly'')
                | UnsupportedMsg \<Rightarrow> Inl (Errorf ''message is of type that is no longer supported'')
                | NormalMsg \<Rightarrow> Inr (False, cs))))"

section \<open>The broadcast service\<close>

definition ClassifyError :: "error \<Rightarrow> status" where
  "ClassifyError err =
     (case cause err of
        ErrChannelDoesNotExist \<Rightarrow> Status_NOT_FOUND
      | ErrPermissionDenied \<Rightarrow> Status_FORBIDDEN
      | ErrMaintenanceMode \<Rightarrow> Status_SERVICE_UNAVAILABLE
      | _ \<Rightarrow> Status_BAD_REQUEST)"

text \<open>A response; its text is the one of the error.\<close>

record broadcast_response =
  respStatus :: status
  respInfo :: "error option"

text \<open>The labels with which a metrics tracker records a message.\<close>

record metrics_tracker =
  trChannelID :: string
  trTxType :: string

definition Record :: "metrics_tracker \<Rightarrow> broadcast_response \<Rightarrow> status \<times> string \<times> string" where
  "Record mt resp = (respStatus resp, trChannelID mt, trTxType mt)"

text \<open>What \<open>Order\<close> and \<open>Configure\<close> return when the main loop takes the message or not.\<close>

definition rendezvous :: "bool \<Rightarrow> nopaxos \<Rightarrow> error option" where
  "rendezvous received ch = (if exitChan ch \<and> \<not> received then Some (Errorf ''Exiting'') else None)"

definition WaitReady :: "nopaxos \<Rightarrow> error option" where
  "WaitReady ch = None"

definition reply :: "status \<Rightarrow> error \<Rightarrow> broadcast_response" where
  "reply s er = \<lparr>respStatus = s, respInfo = Some er\<rparr>"

definition hand_over :: "nopaxos \<Rightarrow> bool \<Rightarrow> chain_msg \<Rightarrow> broadcast_response \<times> chain_msg option" where
  "hand_over ch received m =
     (case WaitReady ch of
        Some er \<Rightarrow> (reply Status_SERVICE_UNAVAILABLE er, None)
      | None \<Rightarrow>
          (case rendezvous received ch of
             Some er \<Rightarrow> (reply Status_SERVICE_UNAVAILABLE er, None)
           | None \<Rightarrow> (\<lparr>respStatus = Status_SUCCESS, respInfo = None\<rparr>, Some m)))"

text \<open>The response, the message that was handed to the chain, if there is one, and the recorded labels. The
  name of a header type comes from generated code.\<close>

definition ProcessMessage ::
    "'id orderer_env \<Rightarrow> (int \<Rightarrow> string) \<Rightarrow> registrar \<Rightarrow> (nat \<Rightarrow> int) \<Rightarrow> error + bytes \<Rightarrow> bool \<Rightarrow> envelope option
      \<Rightarrow> (broadcast_response \<times> chain_msg option \<times> status \<times> string \<times> string) go" where
  "ProcessMessage e typeName chs clk nonce received msg =
     (let (chdr, r) = BroadcastChannelSupport (pCodec e) chs msg;
          tracker = (case chdr of
              None \<Rightarrow> \<lparr>trChannelID = ''unknown'', trTxType = ''unknown''\<rparr>
            | Some ch \<Rightarrow> \<lparr>trChannelID = ChannelId ch, trTxType = typeName (HdrType ch)\<rparr>);
          done = (\<lambda>(resp, m). Ret (resp, m, Record tracker resp))
      in case r of
           Inl er \<Rightarrow> done (reply Status_BAD_REQUEST er, None)
         | Inr (isConfig, processor) \<Rightarrow>
             (let b = wBundle (support processor) in
              if \<not> isConfig then
                bind_go (ProcessNormalMsg e b (clk 0) msg) (\<lambda>r. case r of
                    Inl er \<Rightarrow> done (reply (ClassifyError er) er, None)
                  | Inr configSeq \<Rightarrow> done (hand_over processor received (Order msg configSeq 0 0)))
              else
                bind_go (ProcessConfigUpdateMsg e b clk nonce msg) (\<lambda>r. case r of
                    Inl er \<Rightarrow> done (reply (ClassifyError er) er, None)
                  | Inr (config, configSeq) \<Rightarrow> done (hand_over processor received (Configure (Some config) configSeq)))))"

text \<open>\<open>Handle\<close> on what the stream delivers, each message with the result of sending its response: the
  responses, and the error it returns, or nothing while it waits for more.\<close>

datatype 'm stream_recv = Recv 'm "error option" | RecvEOF | RecvError error

fun Handle :: "('m \<Rightarrow> broadcast_response) \<Rightarrow> 'm stream_recv list \<Rightarrow> broadcast_response list \<times> error option option" where
  "Handle process [] = ([], None)"
| "Handle process (RecvEOF # rest) = ([], Some None)"
| "Handle process (RecvError er # rest) = ([], Some (Some er))"
| "Handle process (Recv m sendErr # rest) =
     (let resp = process m in
      if respStatus resp \<noteq> Status_SUCCESS then ([resp], Some sendErr)
      else if sendErr \<noteq> None then ([resp], Some sendErr)
      else (let (resps, r) = Handle process rest in (resp # resps, r)))"

section \<open>The path over UDP\<close>

text \<open>A read into a buffer of 10240 bytes; the rest of a longer datagram is lost.\<close>

definition ReadFromUDP :: "bytes \<Rightarrow> bytes" where
  "ReadFromUDP dgram = take 10240 dgram"

text \<open>The datagram that the gateway sends, and what the sequencer makes of a datagram: nothing when it is too
  short or does not decode.\<close>

definition broadcastByUDP :: "codec \<Rightarrow> envelope \<Rightarrow> bytes" where
  "broadcastByUDP c txn = marshalEnvelope c txn @ [0, 0]"

definition forward :: "codec \<Rightarrow> envelope \<Rightarrow> bytes" where
  "forward c tx = marshalEnvelope c tx @ [0, 0]"

definition sequencer_step :: "codec \<Rightarrow> bytes \<Rightarrow> bytes option" where
  "sequencer_step c dgram =
     (let buffer = ReadFromUDP dgram; n = length buffer in
      if n < 2 then None
      else (case unmarshalEnvelope c (take (n - 2) buffer) of
              None \<Rightarrow> None
            | Some env \<Rightarrow> Some (forward c env)))"

text \<open>The envelope of a datagram, with its last two bytes as a number.\<close>

definition udp_decode :: "codec \<Rightarrow> bytes \<Rightarrow> (u64 \<times> envelope) option" where
  "udp_decode c dgram =
     (let buffer = ReadFromUDP dgram; n = length buffer in
      if n < 2 then None
      else (let extraUint64 = BigEndian_Uint64 (replicate 6 0 @ drop (n - 2) buffer) in
            map_option (Pair extraUint64) (unmarshalEnvelope c (take (n - 2) buffer))))"

text \<open>One iteration of the server of the orderer: the message that it hands to a chain.\<close>

definition udp_handle ::
    "'id orderer_env \<Rightarrow> registrar \<Rightarrow> (nat \<Rightarrow> int) \<Rightarrow> error + bytes \<Rightarrow> bool \<Rightarrow> bytes \<Rightarrow> chain_msg option go" where
  "udp_handle e chs clk nonce received dgram =
     (case udp_decode (pCodec e) dgram of
        None \<Rightarrow> Ret None
      | Some (extraUint64, env) \<Rightarrow>
          (case snd (BroadcastChannelSupport (pCodec e) chs (Some env)) of
             Inl _ \<Rightarrow> Ret None
           | Inr (isConfig, processor) \<Rightarrow>
               (let b = wBundle (support processor) in
                if \<not> isConfig then
                  bind_go (ProcessNormalMsg e b (clk 0) (Some env)) (\<lambda>r. case r of
                      Inl _ \<Rightarrow> Ret None
                    | Inr configSeq \<Rightarrow> Ret (snd (hand_over processor received (Order (Some env) configSeq 1 extraUint64))))
                else
                  bind_go (ProcessConfigUpdateMsg e b clk nonce (Some env)) (\<lambda>r. case r of
                      Inl _ \<Rightarrow> Ret None
                    | Inr (config, configSeq) \<Rightarrow> Ret (snd (hand_over processor received (Configure (Some config) configSeq)))))))"

section \<open>Submissions and the main loop\<close>

text \<open>Many go-routines validate normal messages while the main loop runs. \<open>ProcessNormalMsg\<close> looks at the consensus
  state, reads the sequence number, and applies the filters one by one; the configuration may change
  between any two of these steps. A submission is at one of these points; when no filter is left the
  go-routine waits for the main loop.\<close>

datatype submission = Checked envelope | Checking u64 "rule list" envelope

record system =
  sysChain :: nopaxos
  submissions :: "submission list"

abbreviation (input) "current s \<equiv> wBundle (support (sysChain s))"
abbreviation (input) "channel_filters e \<equiv> CreateStandardChannelFilters (NoExpirationChecks (oEnv e))"

text \<open>The steps of the go-routines, of the main loop, which takes a message of any go-routine, any configuration
  message, or the expiry of the timer, and of the go-routine that commits a block. The sequence number of
  the configuration does not wrap.\<close>

inductive sys_step :: "'id writer_env \<Rightarrow> system \<Rightarrow> system \<Rightarrow> bool" for e where
  arrive: "normal_mode (current s) \<Longrightarrow> sys_step e s (s\<lparr>submissions := Checked env # submissions s\<rparr>)"
| read_sequence: "submissions s = xs @ Checked env # ys \<Longrightarrow>
    sys_step e s (s\<lparr>submissions := xs @ Checking (Sequence (support (sysChain s))) (channel_filters e) env # ys\<rparr>)"
| accept: "submissions s = xs @ Checking sq (r # rs) env # ys \<Longrightarrow> Apply (oEnv e) (current s) now r (Some env) = Ret None \<Longrightarrow>
    sys_step e s (s\<lparr>submissions := xs @ Checking sq rs env # ys\<rparr>)"
| reject: "submissions s = xs @ Checking sq (r # rs) env # ys \<Longrightarrow> Apply (oEnv e) (current s) now r (Some env) = Ret (Some er) \<Longrightarrow>
    sys_step e s (s\<lparr>submissions := xs @ ys\<rparr>)"
| deliver: "submissions s = xs @ Checking sq [] env # ys \<Longrightarrow>
    main_iteration e (Receive now nonce clk (Order (Some env) sq sequencerId sequencerNumber)) (sysChain s) = Ret ch \<Longrightarrow>
    sys_step e s \<lparr>sysChain = ch, submissions = xs @ ys\<rparr>"
| configure: "Sequence (support (sysChain s)) + 1 \<noteq> 0 \<Longrightarrow>
    main_iteration e (Receive now nonce clk (Configure (Some config) sq)) (sysChain s) = Ret ch \<Longrightarrow>
    sys_step e s (s\<lparr>sysChain := ch\<rparr>)"
| expire: "timer (sysChain s) \<noteq> None \<Longrightarrow> main_iteration e (Expire clk) (sysChain s) = Ret ch \<Longrightarrow> sys_step e s (s\<lparr>sysChain := ch\<rparr>)"
| background: "finish e (support (sysChain s)) = Ret w \<Longrightarrow> sys_step e s (s\<lparr>sysChain := (sysChain s)\<lparr>support := w\<rparr>\<rparr>)"
| halt: "sys_step e s (s\<lparr>sysChain := Halt (sysChain s)\<rparr>)"

inductive reachable :: "'id writer_env \<Rightarrow> block_writer \<Rightarrow> system \<Rightarrow> bool" for e w where
  start: "reachable e w \<lparr>sysChain = newChain w, submissions = []\<rparr>"
| step: "reachable e w s \<Longrightarrow> sys_step e s s' \<Longrightarrow> reachable e w s'"

text \<open>Without a change of the configuration the steps of a go-routine are \<open>ProcessNormalMsg\<close>.\<close>

lemma ProcessNormalMsg_steps:
  "ProcessNormalMsg (oEnv e) b now (Some env) = Ret (Inr sq) \<longleftrightarrow>
     normal_mode b \<and> sq = sequence (configtxManager b) \<and> (\<forall>r \<in> set (channel_filters e). Apply (oEnv e) b now r (Some env) = Ret None)"
  unfolding apply_rules_accept [symmetric] apply_filters_def [symmetric]
  by (auto simp: ProcessNormalMsg_def normal_mode_def Let_def result_simps split: option.splits)

section \<open>The configuration in force\<close>

definition accepted_by :: "'id writer_env \<Rightarrow> Bundle \<Rightarrow> rule list \<Rightarrow> envelope \<Rightarrow> bool" where
  "accepted_by e b rs env \<longleftrightarrow> (\<forall>r \<in> set rs. \<exists>now. Apply (oEnv e) b now r (Some env) = Ret None)"

fun submission_ok :: "'id writer_env \<Rightarrow> Bundle \<Rightarrow> submission \<Rightarrow> bool" where
  "submission_ok e b (Checked env) = True"
| "submission_ok e b (Checking sq rs env) = (let cur = sequence (configtxManager b) in
     sq \<le> cur \<and> (sq = cur \<longrightarrow> (\<exists>checked. channel_filters e = checked @ rs \<and> accepted_by e b checked env)))"

definition system_inv :: "'id writer_env \<Rightarrow> system \<Rightarrow> bool" where
  "system_inv e s \<longleftrightarrow> receiver_wf (cutter (sysChain s)) \<and>
     (\<forall>m \<in> set (pendingBatch (cutter (sysChain s))). accepted_by e (current s) (channel_filters e) m) \<and>
     (\<forall>x \<in> set (submissions s). submission_ok e (current s) x)"

lemma WriteBlock_bundle: "WriteBlock e b md w = Ret w' \<Longrightarrow> wBundle w' = wBundle w"
  using finish_frame(1) by (fastforce simp: WriteBlock_def result_simps)

lemma write_batches_bundle: "write_batches e batches w = Ret w' \<Longrightarrow> wBundle w' = wBundle w"
  by (induction batches arbitrary: w) (auto simp: result_simps dest: WriteBlock_bundle)

lemma WriteBlockSync_bundle: "WriteBlockSync e b md w = Ret w' \<Longrightarrow> wBundle w' = wBundle w"
  using finish_frame(1) commitBlock_frame(1) by (fastforce simp: WriteBlockSync_def result_simps)

lemma WriteConfigBlock_sequence:
  assumes "WriteConfigBlock e b md w = Ret w'"
  shows "Sequence w' = Sequence w + 1"
proof -
  obtain ce chan bdl w1 md' where v: "Validate (wCodec e) (pConfigCodec (oEnv e)) (bundle_msp (oEnv e) (wBundle w)) (configtxManager (wBundle w)) (Some ce) = Ret None"
      "NewBundle (oEnv e) chan (CeConfig ce) = Ret (Inr bdl)" "WriteBlockSync e b md' (w1\<lparr>wBundle := bdl\<rparr>) = Ret w'"
    using assms
    by (auto simp: WriteConfigBlock_def Let_def or_panic_def Update_def result_simps split: option.splits if_splits sum.splits)
  obtain cfg where "CeConfig ce = Some cfg" "bundle_valid chan cfg bdl" by (rule NewBundle_valid [OF v(2)])
  with Validate_sequence [OF v(1)] WriteBlockSync_bundle [OF v(3)] show ?thesis by (auto simp: bundle_valid_def Sequence_def)
qed

text \<open>What an iteration does to the cutter and to the configuration.\<close>

lemma order_normal_effect:
  assumes "order_normal e clk (Some env) ch = Ret ch'" "receiver_wf (cutter ch)"
  shows "set (pendingBatch (cutter ch')) \<subseteq> set (pendingBatch (cutter ch) @ [env])" "receiver_wf (cutter ch')"
    "wBundle (support ch') = wBundle (support ch)"
proof -
  obtain batches p r w where o: "Ordered clk (batch_size_of ch) env (cutter ch) = Ret (batches, p, r)"
      "write_batches e batches (support ch) = Ret w" "switch_timer p (ch\<lparr>support := w, cutter := r\<rparr>) = Ret ch'"
    using assms(1) by (auto simp: order_normal_def result_simps)
  have ch': "cutter ch' = r" "support ch' = w"
    using o(3) by (auto simp: switch_timer_def result_simps split: if_splits)
  have "concat batches @ pendingBatch r = pendingBatch (cutter ch) @ [env]" "receiver_wf r"
    using Ordered_queue [OF assms(2) o(1)] by simp_all
  moreover from this(1) have "set (pendingBatch r) \<subseteq> set (pendingBatch (cutter ch) @ [env])" by (metis Un_upper2 set_append)
  ultimately show "set (pendingBatch (cutter ch')) \<subseteq> set (pendingBatch (cutter ch) @ [env])" "receiver_wf (cutter ch')"
    unfolding ch' by simp_all
  show "wBundle (support ch') = wBundle (support ch)" using write_batches_bundle [OF o(2)] ch' by simp
qed

lemma order_config_effect:
  assumes "order_config e clk config ch = Ret ch'" "receiver_wf (cutter ch)"
  shows "pendingBatch (cutter ch') = []" "receiver_wf (cutter ch')" "Sequence (support ch') = Sequence (support ch) + 1"
proof -
  obtain w1 w2 where w: "(if pendingBatch (cutter ch) \<noteq> [] then WriteBlock e (CreateNextBlock (wCodec e) (support ch) (pendingBatch (cutter ch))) [] (support ch)
        else Ret (support ch)) = Ret w1" "WriteConfigBlock e (CreateNextBlock (wCodec e) w1 [config]) [] w1 = Ret w2"
      "ch' = ch\<lparr>support := w2, cutter := snd (Cut (clk 0) (cutter ch)), timer := None\<rparr>"
    using assms(1) unfolding order_config_def Let_def case_prod_beta cut_pending(1) bind_go_Ret_iff by blast
  have "wBundle w1 = wBundle (support ch)" using w(1) by (auto dest: WriteBlock_bundle split: if_splits)
  with WriteConfigBlock_sequence [OF w(2)] show "Sequence (support ch') = Sequence (support ch) + 1" by (simp add: w(3) Sequence_def)
  show "pendingBatch (cutter ch') = []" "receiver_wf (cutter ch')" using cut_pending cut_wf [OF assms(2)] by (simp_all add: w(3))
qed

lemma handle_timer_effect:
  assumes "handle_timer e clk ch = Ret ch'" "receiver_wf (cutter ch)"
  shows "pendingBatch (cutter ch') = []" "receiver_wf (cutter ch')" "wBundle (support ch') = wBundle (support ch)"
  using assms cut_wf [OF assms(2)]
  by (auto simp: handle_timer_def Let_def case_prod_beta cut_pending result_simps dest: WriteBlock_bundle split: if_splits)

text \<open>A configuration message that is not discarded raises the sequence number and leaves the cutter empty.\<close>

lemma configure_effect:
  assumes "main_iteration e (Receive now nonce clk (Configure (Some config) sq)) ch = Ret ch'" "receiver_wf (cutter ch)"
  shows "ch' = ch \<or> pendingBatch (cutter ch') = [] \<and> receiver_wf (cutter ch') \<and> Sequence (support ch') = Sequence (support ch) + 1"
proof -
  have "ch' = ch \<or> (\<exists>cfg. order_config e clk cfg ch = Ret ch')"
    using assms(1)
    by (cases "ProcessConfigMsg (oEnv e) (wBundle (support ch)) now nonce config")
      (auto simp: Configure_def handle_config_def split: if_splits sum.splits)
  with order_config_effect [OF _ assms(2)] show ?thesis by blast
qed

text \<open>A normal message that is not discarded has been accepted by all filters under the current configuration:
  either when its sequence number is the current one, or in the second validation.\<close>

lemma taken_accepted:
  assumes "decide e (Receive now nonce clk (Order (Some env) sq sid num)) ch = Ret (TakeNormal clk' env')"
    and "submission_ok e (wBundle (support ch)) (Checking sq [] env)"
  shows "env' = env \<and> accepted_by e (wBundle (support ch)) (channel_filters e) env"
proof (cases "sq < Sequence (support ch)")
  case True
  then obtain sq' where "ProcessNormalMsg (oEnv e) (wBundle (support ch)) (now 0) (Some env) = Ret (Inr sq')" "env' = env"
    using assms(1)
    by (cases "ProcessNormalMsg (oEnv e) (wBundle (support ch)) (now 0) (Some env)")
      (auto simp: Order_def take_normal_def split: sum.splits)
  then show ?thesis unfolding ProcessNormalMsg_steps accepted_by_def by blast
next
  case False
  then have "env' = env" using assms(1) by (simp add: Order_def take_normal_def)
  moreover have "sq = sequence (configtxManager (wBundle (support ch)))"
    using False assms(2) by (simp add: Sequence_def Let_def)
  ultimately show ?thesis using assms(2) by (simp add: Let_def)
qed

lemma deliver_effect:
  assumes "main_iteration e (Receive now nonce clk (Order (Some env) sq sid num)) ch = Ret ch'"
  shows "ch' = ch \<or> decide e (Receive now nonce clk (Order (Some env) sq sid num)) ch = Ret (TakeNormal clk env) \<and>
    order_normal e clk (Some env) ch = Ret ch'"
  using assms
  by (cases "ProcessNormalMsg (oEnv e) (wBundle (support ch)) (now 0) (Some env)")
    (auto simp: Order_def handle_normal_def take_normal_def split: if_splits sum.splits)

lemma submission_ok_stale:
  assumes "submission_ok e b x" "sequence (configtxManager b') = sequence (configtxManager b) + 1" "sequence (configtxManager b) + 1 \<noteq> 0"
  shows "submission_ok e b' x"
proof (cases x)
  case (Checking sq rs env)
  have "sequence (configtxManager b) < sequence (configtxManager b) + 1"
    using assms(3) unatSuc [of "sequence (configtxManager b)"] by (simp add: word_less_nat_alt add.commute)
  then show ?thesis using assms(1,2) Checking by (auto simp: Let_def)
qed simp

lemma submission_ok_accept:
  assumes "submission_ok e b (Checking sq (r # rs) env)" "Apply (oEnv e) b now r (Some env) = Ret None"
  shows "submission_ok e b (Checking sq rs env)"
proof -
  have "\<exists>checked. channel_filters e = checked @ rs \<and> accepted_by e b checked env" if eq: "sq = sequence (configtxManager b)"
  proof -
    obtain checked where "channel_filters e = checked @ r # rs" "accepted_by e b checked env" using assms(1) eq by (auto simp: Let_def)
    with assms(2) show ?thesis by (intro exI [of _ "checked @ [r]"]) (auto simp: accepted_by_def)
  qed
  with assms(1) show ?thesis by (simp add: Let_def)
qed

lemma system_inv_deliver:
  assumes "system_inv e s" "submissions s = xs @ Checking sq [] env # ys"
    and "main_iteration e (Receive now nonce clk (Order (Some env) sq sid num)) (sysChain s) = Ret ch"
  shows "system_inv e \<lparr>sysChain = ch, submissions = xs @ ys\<rparr>"
proof -
  have inv: "receiver_wf (cutter (sysChain s))" "\<forall>m \<in> set (pendingBatch (cutter (sysChain s))). accepted_by e (current s) (channel_filters e) m"
    "submission_ok e (current s) (Checking sq [] env)" "\<forall>x \<in> set (xs @ ys). submission_ok e (current s) x"
    using assms(1,2) by (auto simp: system_inv_def)
  from deliver_effect [OF assms(3)] show ?thesis
  proof
    assume "ch = sysChain s"
    with inv show ?thesis by (simp add: system_inv_def)
  next
    assume d: "decide e (Receive now nonce clk (Order (Some env) sq sid num)) (sysChain s) = Ret (TakeNormal clk env) \<and>
      order_normal e clk (Some env) (sysChain s) = Ret ch"
    then have "accepted_by e (current s) (channel_filters e) env" using taken_accepted inv(3) by blast
    with order_normal_effect [OF conjunct2 [OF d] inv(1)] inv(2,4) show ?thesis by (auto simp: system_inv_def)
  qed
qed

lemma system_inv_configure:
  assumes "system_inv e s" "Sequence (support (sysChain s)) + 1 \<noteq> 0"
    and "main_iteration e (Receive now nonce clk (Configure (Some config) sq)) (sysChain s) = Ret ch"
  shows "system_inv e (s\<lparr>sysChain := ch\<rparr>)"
proof -
  have wf: "receiver_wf (cutter (sysChain s))" using assms(1) by (simp add: system_inv_def)
  from configure_effect [OF assms(3) wf] show ?thesis
  proof
    assume "ch = sysChain s"
    with assms(1) show ?thesis by simp
  next
    assume c: "pendingBatch (cutter ch) = [] \<and> receiver_wf (cutter ch) \<and> Sequence (support ch) = Sequence (support (sysChain s)) + 1"
    then have "submission_ok e (wBundle (support ch)) x" if "submission_ok e (current s) x" for x
      using submission_ok_stale [OF that] assms(2) by (simp add: Sequence_def)
    with c assms(1) show ?thesis by (simp add: system_inv_def)
  qed
qed

lemma system_inv_step:
  assumes "sys_step e s s'" "system_inv e s"
  shows "system_inv e s'"
  using assms(1)
proof cases
  case (read_sequence xs env ys)
  with assms(2) show ?thesis by (auto simp: system_inv_def Sequence_def Let_def accepted_by_def)
next
  case (accept xs sq r rs env ys now)
  then have "submission_ok e (current s) (Checking sq rs env)"
    using submission_ok_accept [of e "current s" sq r rs env now] assms(2) by (simp add: system_inv_def)
  with accept assms(2) show ?thesis by (auto simp: system_inv_def)
next
  case (deliver xs sq env ys now nonce clk sid num ch)
  with system_inv_deliver [OF assms(2)] show ?thesis by blast
next
  case (configure now nonce clk config sq ch)
  with system_inv_configure [OF assms(2)] show ?thesis by blast
next
  case (expire clk ch)
  have wf: "receiver_wf (cutter (sysChain s))" using assms(2) by (simp add: system_inv_def)
  have "handle_timer e clk (sysChain s) = Ret ch" using expire(3) by simp
  from handle_timer_effect [OF this wf] assms(2) expire(1) show ?thesis by (simp add: system_inv_def)
next
  case (background w)
  with assms(2) finish_frame(1) [OF background(2)] show ?thesis by (simp add: system_inv_def)
qed (use assms(2) in \<open>auto simp: system_inv_def Halt_def\<close>)

lemma reachable_inv: "reachable e w s \<Longrightarrow> system_inv e s"
proof (induction rule: reachable.induct)
  case start
  then show ?case using bc.pend_init bc.wf_init by (simp add: system_inv_def newChain_def)
qed (rule system_inv_step)

section \<open>Properties\<close>

text \<open>C3: The configuration in force. Validation runs concurrently with the main loop, and the configuration of
  the channel may change between any two of its steps. Still, when the loop takes a normal message,
  whatever the interleaving was, that message and all messages that wait in the cutter, and so every
  message of the blocks that follow from it, have been accepted by every filter of the channel under the
  configuration that is in force at that moment.\<close>

theorem ordered_under_current_configuration:
  assumes "reachable e w s" "submissions s = xs @ Checking sq [] env # ys"
    and "decide e (Receive now nonce clk (Order (Some env) sq sequencerId sequencerNumber)) (sysChain s) = Ret (TakeNormal clk env)"
  shows "\<forall>m \<in> set (pendingBatch (cutter (sysChain s)) @ [env]). accepted_by e (current s) (channel_filters e) m"
proof -
  have "system_inv e s" by (rule reachable_inv [OF assms(1)])
  with assms(2) have "\<forall>m \<in> set (pendingBatch (cutter (sysChain s))). accepted_by e (current s) (channel_filters e) m"
    "submission_ok e (current s) (Checking sq [] env)"
    by (simp_all add: system_inv_def)
  with taken_accepted [OF assms(3)] show ?thesis by auto
qed

lemma reachable_filters:
  assumes "reachable e w s" "submissions s = Checking sq rs env # ys" "\<forall>r \<in> set rs. Apply (oEnv e) (current s) now r (Some env) = Ret None"
  shows "reachable e w (s\<lparr>submissions := Checking sq [] env # ys\<rparr>)"
  using assms
proof (induction rs arbitrary: s)
  case Nil
  then show ?case by (cases s) simp
next
  case (Cons r rs)
  have "reachable e w (s\<lparr>submissions := Checking sq rs env # ys\<rparr>)"
    using reachable.step [OF Cons.prems(1)] accept [of s "[]" sq r rs env ys e now] Cons.prems(2,3) by simp
  from Cons.IH [OF this] Cons.prems(3) show ?case by simp
qed

theorem ordered_under_current_configuration_witness:
  "\<exists>led s. submissions s = [Checking 7 [] (sample_message 3)] \<and> reachable sample_writer_env (sample_writer led) s \<and>
     accepted_by sample_writer_env (current s) (channel_filters sample_writer_env) (sample_message 3)"
proof -
  fix led
  let ?w = "sample_writer led" and ?m = "sample_message 3"
  let ?s = "\<lparr>sysChain = newChain ?w, submissions = [Checking 7 (channel_filters sample_writer_env) ?m]\<rparr>"
  have cur: "wBundle (support (newChain ?w)) = sample_bundle 7 0 10" "Sequence (support (newChain ?w)) = 7"
    by (simp_all add: newChain_def sample_writer_def Sequence_def sample_sequence)
  have "normal_mode (sample_bundle 7 0 10)" by (simp add: normal_mode_def sample_orderer_config sample_oc_def zero_orderer_def)
  with arrive [of "\<lparr>sysChain = newChain ?w, submissions = []\<rparr>" sample_writer_env ?m] cur
  have "reachable sample_writer_env ?w \<lparr>sysChain = newChain ?w, submissions = [Checked ?m]\<rparr>"
    by (intro reachable.step [OF reachable.start]) simp
  from reachable.step [OF this] read_sequence [of "\<lparr>sysChain = newChain ?w, submissions = [Checked ?m]\<rparr>" "[]" ?m "[]" sample_writer_env] cur
  have "reachable sample_writer_env ?w ?s" by simp
  moreover have "\<forall>r \<in> set (channel_filters sample_writer_env). Apply (oEnv sample_writer_env) (current ?s) 0 r (Some ?m) = Ret None"
    using sample_admits [of 7 0 10 0 3] cur by (simp add: apply_filters_def apply_rules_accept sample_writer_env_def)
  ultimately have r: "reachable sample_writer_env ?w (?s\<lparr>submissions := [Checking 7 [] ?m]\<rparr>)"
    using reachable_filters [of sample_writer_env ?w ?s 7 "channel_filters sample_writer_env" ?m "[]" 0] by simp
  moreover have "decide sample_writer_env (Receive (\<lambda>_. 0) (Inr []) (\<lambda>_. 0) (Order (Some ?m) 7 0 0)) (sysChain ?s) = Ret (TakeNormal (\<lambda>_. 0) ?m)"
    using cur by (simp add: Order_def take_normal_def)
  ultimately have "accepted_by sample_writer_env (current (?s\<lparr>submissions := [Checking 7 [] ?m]\<rparr>)) (channel_filters sample_writer_env) ?m"
    using ordered_under_current_configuration [OF r, of "[]" 7 ?m "[]" "\<lambda>_. 0" "Inr []" "\<lambda>_. 0" 0 0] by simp
  with r show ?thesis by (intro exI [of _ led] exI [of _ "?s\<lparr>submissions := [Checking 7 [] ?m]\<rparr>"]) simp
qed

lemma filter_causes:
  assumes "apply_filters e b now (Some m) = Ret (Some er)"
  shows "ClassifyError er \<in> {Status_BAD_REQUEST, Status_FORBIDDEN}"
proof -
  have rules: "ClassifyError er \<in> {Status_BAD_REQUEST, Status_FORBIDDEN}" if "Apply e b now r (Some m) = Ret (Some er)" for r
    using that
    by (auto simp: Apply_def apply_expiration_def apply_sig_def ClassifyError_def Let_def result_simps
        split: rule.splits option.splits sum.splits if_splits)
  have "ClassifyError er \<in> {Status_BAD_REQUEST, Status_FORBIDDEN}" if "apply_rules e b now rs (Some m) = Ret (Some er)" for rs
    using that
  proof (induction rs)
    case (Cons r rs)
    then show ?case using rules by (cases "Apply e b now r (Some m)") (auto split: option.splits)
  qed simp
  with assms show ?thesis by (simp add: apply_filters_def)
qed

lemma fail_if_Inl:
  "fail_if m h k = Ret (Inl er) \<longleftrightarrow> (\<exists>er'. m = Ret (Some er') \<and> er = h er') \<or> m = Ret None \<and> k = Ret (Inl er)"
  by (cases "(m, h, k)" rule: fail_if.cases) auto

text \<open>C15: The answer to a normal message. For a message whose header names a normal type and a channel of the
  orderer, the handler of the broadcast service does not panic. The client is answered success exactly
  when the channel is not in maintenance mode, the message is admitted, and the chain takes it, and exactly
  then the message is handed to the chain, with the sequence number of the configuration it was checked
  against. In maintenance mode, and when the chain has been halted, the answer is that the service is
  unavailable; a message that the filters refuse is answered as a bad or a forbidden request.\<close>

theorem broadcast_answer:
  assumes "ChannelHeader (pCodec e) (Some env) = Inr chdr" "ClassifyMsg chdr = NormalMsg" "GetChain chs (ChannelId chdr) = Some ch"
    and b: "b = wBundle (support ch)" and "NewBundle e chan config = Ret (Inr b)" and oc: "OrdererConfig b \<noteq> None"
  shows "\<exists>resp m. ProcessMessage e typeName chs clk nonce received (Some env)
      = Ret (resp, m, respStatus resp, ChannelId chdr, typeName (HdrType chdr)) \<and>
    (respStatus resp = Status_SUCCESS \<longleftrightarrow> normal_mode b \<and> admitted e b (clk 0) env \<and> (received \<or> \<not> exitChan ch)) \<and>
    m = (if respStatus resp = Status_SUCCESS then Some (Order (Some env) (sequence (configtxManager b)) 0 0) else None) \<and>
    (\<not> normal_mode b \<or> admitted e b (clk 0) env \<and> exitChan ch \<and> \<not> received \<longrightarrow> respStatus resp = Status_SERVICE_UNAVAILABLE) \<and>
    (normal_mode b \<and> \<not> admitted e b (clk 0) env \<longrightarrow> respStatus resp \<in> {Status_BAD_REQUEST, Status_FORBIDDEN})"
proof -
  let ?answer = "\<lambda>(resp, m). Ret (resp, m, respStatus resp, ChannelId chdr, typeName (HdrType chdr))"
  obtain cfg where "bundle_valid chan cfg b" by (rule NewBundle_valid [OF assms(5)])
  then obtain r where r: "ProcessNormalMsg e b (clk 0) (Some env) = Ret r" using ProcessNormalMsg_returns oc by blast
  then have run: "ProcessMessage e typeName chs clk nonce received (Some env) = (case r of
      Inl er \<Rightarrow> ?answer (reply (ClassifyError er) er, None) | Inr configSeq \<Rightarrow> ?answer (hand_over ch received (Order (Some env) configSeq 0 0)))"
    using assms(1-3) b by (simp add: ProcessMessage_def BroadcastChannelSupport_def Record_def case_prod_beta Let_def split: sum.split)
  show ?thesis
  proof (cases r)
    case (Inl er)
    then have no: "\<not> (normal_mode b \<and> admitted e b (clk 0) env)"
      using r oc by (auto simp: apply_filters_iff [symmetric] ProcessNormalMsg_def normal_mode_def Let_def split: option.splits if_splits)
    have "\<not> normal_mode b \<Longrightarrow> ClassifyError er = Status_SERVICE_UNAVAILABLE"
      using r Inl oc by (auto simp: ProcessNormalMsg_def normal_mode_def ClassifyError_def split: option.splits if_splits)
    moreover have "normal_mode b \<Longrightarrow> apply_filters e b (clk 0) (Some env) = Ret (Some er)"
      using r Inl oc by (auto simp: ProcessNormalMsg_def normal_mode_def Let_def fail_if_Inl split: option.splits if_splits)
    then have "normal_mode b \<Longrightarrow> ClassifyError er \<in> {Status_BAD_REQUEST, Status_FORBIDDEN}" by (rule filter_causes)
    ultimately show ?thesis
      using no run Inl by (intro exI [of _ "reply (ClassifyError er) er"] exI [of _ None]) (cases "normal_mode b"; auto simp: reply_def)
  next
    case (Inr sq)
    then have "normal_mode b" "admitted e b (clk 0) env" "sq = sequence (configtxManager b)"
      using r oc
      by (auto simp: apply_filters_iff [symmetric] ProcessNormalMsg_def normal_mode_def Let_def result_simps split: option.splits if_splits)
    then show ?thesis
      using run r Inr by (cases "exitChan ch \<and> \<not> received") (auto simp: hand_over_def WaitReady_def rendezvous_def reply_def)
  qed
qed

theorem broadcast_answer_witness:
  "\<exists>led resp m labels. ProcessMessage sample_env (\<lambda>_. ''ENDORSER_TRANSACTION'') [(''ch'', newChain (sample_writer led))] (\<lambda>_. 0) (Inr [9]) True
     (Some (sample_message 3)) = Ret (resp, m, labels) \<and> respStatus resp = Status_SUCCESS \<and> m = Some (Order (Some (sample_message 3)) 7 0 0)"
proof -
  fix led
  have h: "ChannelHeader (pCodec sample_env) (Some (sample_message 3)) = Inr \<lparr>HdrType = 3, ChannelId = ''ch'', TxId = ''''\<rparr>" by code_simp
  have b: "wBundle (support (newChain (sample_writer led))) = sample_bundle 7 0 10" by (simp add: newChain_def sample_writer_def)
  have "normal_mode (sample_bundle 7 0 10)" by (simp add: normal_mode_def sample_orderer_config sample_oc_def zero_orderer_def)
  moreover have "admitted sample_env (sample_bundle 7 0 10) 0 (sample_message 3)"
    using sample_admits [of 7 0 10 0 3] by (simp add: apply_filters_iff)
  ultimately show ?thesis
    using broadcast_answer [OF h, of "[(''ch'', newChain (sample_writer led))]" "newChain (sample_writer led)" "sample_bundle 7 0 10" "''ch''"
        "Some (sample_config 7 0 10)" "\<lambda>_. ''ENDORSER_TRANSACTION''" "\<lambda>_. 0" "Inr [9]" True]
      b sample_NewBundle [of 10 7 0]
    by (fastforce simp: ClassifyMsg_def GetChain_def sample_orderer_config sample_sequence)
qed



end
