(* ===== verification/Gateway_Submit.thy ===== *)
theory Gateway_Submit
  imports Ordering_Service
begin

text \<open>
  Submitting a transaction from the gateway of a peer, \<^verbatim>\<open>internal/pkg/gateway/submit.go\<close>: for a BFT
  channel to all orderers, until a quorum of them has accepted it; for any other channel as one
  datagram to the sequencer.

  The registry of the gateway and the configuration of the channel are arguments. The go-routines that
  talk to the orderers send their outcomes over a channel; the loop sees them in the order in which they
  arrive, and it may see the deadline of the call before any of them.
\<close>

section \<open>Submitting\<close>

datatype rpc_code = InvalidArgument | FailedPrecondition | Unavailable | NotFound | DeadlineExceeded

text \<open>An error of a call: its code and the details of the orderers that refused.\<close>

type_synonym 'o rpc_error = "rpc_code \<times> ('o \<times> string) list"

record submit_request =
  rqChannelId :: string
  rqPreparedTransaction :: "envelope option"

record 'o gateway =
  registryOrderers :: "string \<Rightarrow> error + 'o list \<times> nat"
  channelOrdererConfig :: "string \<Rightarrow> orderer_config option"

text \<open>The outcome for one orderer: nil for success, otherwise the detail. The response is an error of the
  connection, or a status and its text.\<close>

definition already_exists :: string where
  "already_exists = ''failed to submit request: request already exists''"

definition orderer_outcome :: "'o \<Rightarrow> string + status \<times> string \<Rightarrow> ('o \<times> string) option" where
  "orderer_outcome ord response =
     (case response of
        Inl err \<Rightarrow> Some (ord, err)
      | Inr (st, info) \<Rightarrow>
          if st = Status_SUCCESS then None
          else if st = Status_SERVICE_UNAVAILABLE \<and> info = already_exists then None
          else Some (ord, ''received unsuccessful response from orderer: '' @ info))"

datatype 'o wait_event = Completed "('o \<times> string) option" | CtxDone

text \<open>The loop of \<open>submitBFT\<close> with the number of iterations that are left; no result means that it waits.\<close>

fun bft_loop ::
    "int \<Rightarrow> int \<Rightarrow> nat \<Rightarrow> 'o wait_event list \<Rightarrow> int \<Rightarrow> int \<Rightarrow> ('o \<times> string) list \<Rightarrow> ('o rpc_error + unit) option" where
  "bft_loop n quorum 0 evs successes failures errDetails = Some (Inl (Unavailable, errDetails))"
| "bft_loop n quorum (Suc k) [] successes failures errDetails = None"
| "bft_loop n quorum (Suc k) (CtxDone # evs) successes failures errDetails = Some (Inl (DeadlineExceeded, []))"
| "bft_loop n quorum (Suc k) (Completed (Some osnErr) # evs) successes failures errDetails =
     (if n - quorum < failures + 1 then Some (Inl (Unavailable, errDetails @ [osnErr]))
      else bft_loop n quorum k evs successes (failures + 1) (errDetails @ [osnErr]))"
| "bft_loop n quorum (Suc k) (Completed None # evs) successes failures errDetails =
     (if quorum \<le> successes + 1 then Some (Inr ())
      else bft_loop n quorum k evs (successes + 1) failures errDetails)"

definition submitBFT :: "'o list \<Rightarrow> nat \<Rightarrow> 'o wait_event list \<Rightarrow> ('o rpc_error + unit) option" where
  "submitBFT orderers clusterSize evs =
     bft_loop (int (length orderers)) (fst (computeBFTQuorum clusterSize)) (length orderers) evs 0 0 []"

text \<open>The datagram, and the error of the network or nil; the response is nil in both cases.\<close>

definition submitNonBFT :: "codec \<Rightarrow> error option \<Rightarrow> envelope \<Rightarrow> bytes \<times> (error + unit option)" where
  "submitNonBFT c networkErr txn =
     (broadcastByUDP c txn, case networkErr of Some er \<Rightarrow> Inl er | None \<Rightarrow> Inr None)"

datatype 'o submit_result = Refused rpc_code | ByQuorum "('o rpc_error + unit) option" | ByUDP bytes "error + unit option"

definition Submit :: "'o gateway \<Rightarrow> codec \<Rightarrow> error option \<Rightarrow> 'o wait_event list \<Rightarrow> submit_request option \<Rightarrow> 'o submit_result" where
  "Submit gs c networkErr evs request =
     (case request of
        None \<Rightarrow> Refused InvalidArgument
      | Some rq \<Rightarrow>
          (case rqPreparedTransaction rq of
             None \<Rightarrow> Refused InvalidArgument
           | Some txn \<Rightarrow>
               if length (Signature txn) = 0 then Refused InvalidArgument
               else (case registryOrderers gs (rqChannelId rq) of
                       Inl _ \<Rightarrow> Refused FailedPrecondition
                     | Inr (orderers, clusterSize) \<Rightarrow>
                         if length orderers = 0 then Refused Unavailable
                         else (case channelOrdererConfig gs (rqChannelId rq) of
                                 None \<Rightarrow> Refused NotFound
                               | Some oc \<Rightarrow>
                                   if ConsensusType oc = ''BFT'' then ByQuorum (submitBFT orderers clusterSize evs)
                                   else (let (dgram, r) = submitNonBFT c networkErr txn in ByUDP dgram r)))))"

section \<open>The quorum\<close>

lemma bft_quorum_positive: "1 \<le> fst (computeBFTQuorum n)"
proof (cases "n = 0")
  case True
  then show ?thesis by (simp add: computeBFTQuorum_def go_quot_def)
next
  case False
  then show ?thesis using BFT_quorum_bounds(6) [of n "fst (computeBFTQuorum n)" "snd (computeBFTQuorum n)"] by simp
qed

definition successes_in :: "'o wait_event list \<Rightarrow> int" where
  "successes_in evs = int (length (filter (\<lambda>ev. ev = Completed None) evs))"

lemma successes_in_simps [simp]:
  "successes_in [] = 0" "successes_in (Completed None # evs) = 1 + successes_in evs"
  "successes_in (Completed (Some d) # evs) = successes_in evs" "successes_in (CtxDone # evs) = successes_in evs"
  by (simp_all add: successes_in_def)

lemma successes_in_bound: "0 \<le> successes_in evs \<and> successes_in evs \<le> int (length evs)"
  by (simp add: successes_in_def)

lemma bft_loop_sound:
  "bft_loop n quorum k evs s f ds = Some (Inr ()) \<Longrightarrow> quorum \<le> s + successes_in evs"
proof (induction n quorum k evs s f ds rule: bft_loop.induct)
  case (5 n quorum k evs s f ds)
  then show ?case using successes_in_bound [of evs] by (auto split: if_splits)
qed (auto split: if_splits)

lemma bft_loop_returns: "k \<le> length evs \<Longrightarrow> bft_loop n quorum k evs s f ds \<noteq> None"
  by (induction n quorum k evs s f ds rule: bft_loop.induct) auto

text \<open>Giving up early is right: the successes that are still possible do not reach the quorum.\<close>

lemma bft_loop_complete:
  assumes "s + f + int k = n" "s < quorum" "quorum \<le> s + successes_in (map Completed rs)" "length rs = k"
  shows "bft_loop n quorum k (map Completed rs) s f ds = Some (Inr ())"
  using assms
proof (induction rs arbitrary: k s f ds)
  case (Cons r rs)
  obtain k' where k: "k = Suc k'" "length rs = k'" using Cons.prems(4) by auto
  have bound: "successes_in (map Completed rs) \<le> int k'" using successes_in_bound [of "map Completed rs"] k(2) by simp
  show ?case
  proof (cases r)
    case None
    then show ?thesis using Cons.IH [of "s + 1" f k' ds] Cons.prems k by auto
  next
    case (Some d)
    then have "\<not> n - quorum < f + 1" using Cons.prems bound k(1) by simp
    then show ?thesis using Cons.IH [of s "f + 1" k' "ds @ [d]"] Cons.prems k Some by simp
  qed
qed simp

section \<open>Properties\<close>

text \<open>C17: Submission to a BFT channel. Once every orderer has answered, in whatever order, the call has returned,
  and it has succeeded exactly when a quorum of the orderers accepted the transaction or already had it:
  giving up early never loses a quorum, and stopping early never counts one that is not there. With a
  deadline too, success means that a quorum has accepted.\<close>

theorem bft_submission_quorum:
  assumes "length responses = length orderers"
  shows "(submitBFT orderers clusterSize (map Completed (map2 orderer_outcome orderers responses)) = Some (Inr ()) \<longleftrightarrow>
      fst (computeBFTQuorum clusterSize) \<le> int (length (filter (\<lambda>r. case r of Inl _ \<Rightarrow> False
        | Inr (st, info) \<Rightarrow> st = Status_SUCCESS \<or> st = Status_SERVICE_UNAVAILABLE \<and> info = already_exists) responses))) \<and>
    submitBFT orderers clusterSize (map Completed (map2 orderer_outcome orderers responses)) \<noteq> None \<and>
    (submitBFT orderers clusterSize evs = Some (Inr ()) \<longrightarrow> fst (computeBFTQuorum clusterSize) \<le> successes_in evs)"
proof -
  let ?Q = "fst (computeBFTQuorum clusterSize)" and ?evs = "map Completed (map2 orderer_outcome orderers responses)"
  let ?ok = "\<lambda>r. case r of Inl _ \<Rightarrow> False | Inr (st, info) \<Rightarrow> st = Status_SUCCESS \<or> st = Status_SERVICE_UNAVAILABLE \<and> info = already_exists"
  have count: "successes_in (map Completed (map2 orderer_outcome os rs)) = int (length (filter ?ok rs))" if "length rs = length os" for os rs
    using that
  proof (induction os rs rule: list_induct2')
    case (4 ord os r rs)
    then show ?case by (cases "orderer_outcome ord r") (auto simp: orderer_outcome_def split: sum.splits if_splits)
  qed simp_all
  have "submitBFT orderers clusterSize ?evs = Some (Inr ()) \<longleftrightarrow> ?Q \<le> successes_in ?evs"
    using bft_loop_sound [of _ ?Q _ ?evs 0] bft_quorum_positive [of clusterSize] assms
      bft_loop_complete [of 0 0 "length orderers" "int (length orderers)" ?Q "map2 orderer_outcome orderers responses" "[]"]
    unfolding submitBFT_def by auto
  moreover have "submitBFT orderers clusterSize ?evs \<noteq> None" unfolding submitBFT_def by (rule bft_loop_returns) (simp add: assms)
  moreover have "?Q \<le> successes_in evs" if "submitBFT orderers clusterSize evs = Some (Inr ())"
    using bft_loop_sound [OF that [unfolded submitBFT_def]] by simp
  ultimately show ?thesis using count [OF assms] by auto
qed

theorem bft_submission_quorum_witness:
  "submitBFT [0, 1, 2, 3 :: nat] 4 (map Completed (map2 orderer_outcome [0, 1, 2, 3]
      [Inr (Status_SUCCESS, []), Inl ''connection refused'', Inr (Status_SERVICE_UNAVAILABLE, already_exists), Inr (Status_SUCCESS, [])]))
    = Some (Inr ())"
proof -
  have "fst (computeBFTQuorum 4) = 3" by (simp add: computeBFTQuorum_eq ComputeBFTQuorum_eq go_quot_def)
  then show ?thesis
    using bft_submission_quorum [of "[Inr (Status_SUCCESS, []), Inl ''connection refused'', Inr (Status_SERVICE_UNAVAILABLE, already_exists),
        Inr (Status_SUCCESS, [])]" "[0, 1, 2, 3 :: nat]" 4]
    by simp
qed

end
