(* ===== verification/Spec2Isabelle.thy ===== *)
theory Spec2Isabelle
  imports Block_Cutter Configtx_Facts Gateway_Submit
begin

text \<open>
  A verification of the ordering service of Hyperledger Fabric, as this repository has it: with a
  consenter \<open>nopaxos\<close> and a path on which transactions reach the orderer as UDP datagrams through a
  sequencer.

  \<^bold>\<open>The program.\<close> A client hands a signed envelope to the gateway of a peer
  (\<^verbatim>\<open>internal/pkg/gateway/submit.go\<close>). For a BFT channel the gateway sends it to all orderers; for
  any other channel it writes one datagram to the sequencer (\<^verbatim>\<open>sequencer/sequencer.go\<close>), which
  forwards it to the UDP server of the orderer (\<^verbatim>\<open>orderer/common/server/udpServer.go\<close>). Clients may also
  use the broadcast service (\<^verbatim>\<open>orderer/common/broadcast\<close>). Both look up the channel
  (\<^verbatim>\<open>orderer/common/multichannel/registrar.go\<close>), let the message processor
  (\<^verbatim>\<open>orderer/common/msgprocessor\<close>) check the message against the current configuration of the channel
  (\<^verbatim>\<open>common/channelconfig\<close>, \<^verbatim>\<open>common/configtx\<close>, \<^verbatim>\<open>common/policies\<close>, \<^verbatim>\<open>common/cauthdsl\<close>), and hand it to the
  main loop of the chain (\<^verbatim>\<open>orderer/consensus/nopaxos/chain.go\<close>). The loop forms batches with the block
  cutter (\<^verbatim>\<open>orderer/common/blockcutter\<close>), and the block writer
  (\<^verbatim>\<open>orderer/common/multichannel/blockwriter.go\<close>) turns them into signed blocks that it appends to the
  file ledger (\<^verbatim>\<open>common/ledger/blockledger/fileledger\<close> over \<^verbatim>\<open>common/ledger/blkstorage\<close>). A configuration
  block replaces the configuration that the next messages are checked against.

  \<^bold>\<open>Conventions.\<close> Theory \<open>Prelude\<close> has the vocabulary: words for Go's fixed-width integers, so that
  addition wraps; byte slices as lists; a result \<open>error + 'a\<close> for a returned error and \<open>'a go\<close> for code
  that may panic. A Go map is an association list, and a \<open>range\<close> over it follows the list: statements
  about such loops hold for every order of the list. A pointer is an option where the code tells nil
  apart. Clocks, random bytes, the outcomes of disk operations and the order in which go-routines meet
  are arguments of the operations. What the code calls outside the repository is a field of a record
  that the operations take: \<open>codec\<close> (protobuf, ASN.1 and SHA-256), \<open>config_codec\<close>, \<open>value_codec\<close>, \<open>msp\<close>
  (membership service providers), \<open>platform\<close>, \<open>builder\<close>, \<open>signer\<close>. What a statement needs of them is one
  of its hypotheses, and \<open>Sample_Codec\<close> and \<open>Sample_Channel\<close> have concrete instances on which the
  witnesses evaluate the operations.

  \<^bold>\<open>The theories\<close>, in the order in which they build on each other:

  \<^item> \<open>Wire\<close>: varints and length-delimited bytes of the vendored \<open>protowire\<close> package and the
    order-preserving integers of \<^verbatim>\<open>common/ledger/util/util.go\<close>. The encoding is injective, self-delimiting
    and monotone. The locale \<open>envelope_codec\<close> is what the development needs of an envelope codec; the
    protobuf encoding of an envelope interprets it.
  \<^item> \<open>Block_Cutter\<close>: \<open>Ordered\<close> and \<open>Cut\<close>. The locale \<open>batch_receiver\<close> is the interface that chains
    program against; it is interpreted on the receiver of the source. Batches keep the messages and
    their order and stay within the limits of the channel; the 32-bit size counter does not wrap.
  \<^item> \<open>Protoutil\<close>, \<open>Sample_Codec\<close>: block hashes, metadata, signature sets
    (\<^verbatim>\<open>protoutil/blockutils.go\<close>, \<^verbatim>\<open>commonutils.go\<close>, \<^verbatim>\<open>signeddata.go\<close>, \<^verbatim>\<open>txutils.go\<close>); the data hash determines the
    transactions of well-formed block data.
  \<^item> \<open>Policies\<close>: compiling and evaluating signature policies, implicit meta policies, the policy
    manager, and the BFT quorum (\<^verbatim>\<open>common/cauthdsl\<close>, \<^verbatim>\<open>common/policies\<close>). An accepted gate has enough distinct
    signers with valid signatures; two BFT quorums meet in a correct node.
  \<^item> \<open>Configtx\<close>, \<open>Configtx_Facts\<close>: names, the flattened configuration map, authorisation of an update,
    \<open>ProposeConfigUpdate\<close> and \<open>Validate\<close> (\<^verbatim>\<open>common/configtx\<close>). Flattening and rebuilding are inverse, only
    authorised elements change, and what is proposed also validates.
  \<^item> \<open>Channel_Config\<close>, \<open>Bft_Options\<close>: from a configuration to the bundle of a channel
    (\<^verbatim>\<open>common/channelconfig\<close>, \<^verbatim>\<open>common/capabilities\<close>, \<^verbatim>\<open>orderer/consensus/smartbft/util\<close>).
  \<^item> \<open>Msg_Processor\<close>, \<open>Sample_Channel\<close>, \<open>Admission\<close>: the filters, the three processing operations and the
    maintenance filter (\<^verbatim>\<open>orderer/common/msgprocessor\<close>), and exactly which messages and configurations are
    admitted.
  \<^item> \<open>Block_Serialization\<close>, \<open>Block_Index\<close>, \<open>Block_Store\<close>, \<open>Block_Store_Facts\<close>, \<open>File_Ledger\<close>: the bytes of
    a block, the index in the key-value store, the block files, recovery after a crash, the cache and the
    iterators (\<^verbatim>\<open>common/ledger/blkstorage\<close>, \<^verbatim>\<open>common/ledger/blockledger\<close>). \<open>File_Ledger\<close> interprets the locale
    \<open>append_log\<close>, an append-only log that is read back by position: the store refines a list of blocks,
    a restart keeps it, and an iterator delivers it in order while it grows.
  \<^item> \<open>Block_Writer\<close>, \<open>Block_Writer_Facts\<close>: creating, signing and committing blocks. The commit of a
    normal block runs in a go-routine of its own; \<open>committing\<close> is the part of it that is still to run,
    and a schedule that runs it at any moment gives the same ledger.
  \<^item> \<open>Nopaxos_Chain\<close>: \<open>Order\<close>, \<open>Configure\<close>, \<open>Halt\<close>, and the main loop with its timer. The messages on the
    ledger followed by the pending ones are the messages that the loop took, in their order.
  \<^item> \<open>Ordering_Service\<close>: the look-up of a channel, the broadcast handler, the UDP path, and the
    inductive step relation \<open>sys_step\<close>, which interleaves submissions with the loop. In every reachable
    state a message that is ordered was accepted under the configuration of that moment.
  \<^item> \<open>Gateway_Submit\<close>: \<open>Submit\<close> and its quorum loop.

  \<^bold>\<open>Bounds and termination.\<close> No operation uses fuel. The loops over buffers, files and the cache are
  recursive functions with a termination proof: the position grows, the number of files ahead shrinks,
  or the cache loses an entry. The main loop of the chain is a fold over the events it receives, for any
  number of them. Lengths and offsets that Go keeps in an \<open>int\<close> are natural numbers, and the statements
  about the store assume that they stay below \<open>2 ^ 63\<close>; block numbers are 64-bit words.

  \<^bold>\<open>Not modelled.\<close> The consenters \<open>etcdraft\<close> and \<open>smartbft\<close> are clients of vendored consensus libraries,
  whose behaviour would have to be assumed. The cluster communication, the deliver service, the channel
  participation API, the operations server and the command line tools are network and file access around
  the parts above. Creating, joining and removing channels in the registrar is mostly file access. In the
  block storage, snapshots, roll back and reset are left out, and so are the statistics. Membership
  service providers are cryptography of the standard library and of vendored code. The UDP server under
  \<^verbatim>\<open>orderer/consensus/nopaxos\<close> is never started. Logging and metrics are left out, except the labels that a
  broadcast is recorded with. On the peer, endorsement, chaincode execution, gossip, private data and the
  state databases are left out.
\<close>

end
